(* ===== verification/Prelude.thy ===== *)
theory Prelude
  imports Main "HOL-Library.AList" "HOL-Library.Multiset" "HOL-Library.Sublist" "HOL-Library.List_Lexorder"
    "HOL-Library.Product_Lexorder" "HOL-Library.Char_ord"
begin

text \<open>
  Generic material of the development: the shape of a Python coroutine that reads and
  updates shared state and may raise (a state and exception program), its weakest
  precondition calculus, and the facts on ordered dictionaries and stable sorting that
  the components share. An exception does not undo the assignments made before it, so a
  program returns the state in both outcomes.
\<close>

section \<open>Programs with state and exceptions\<close>

type_synonym ('s, 'e, 'a) prog = "'s \<Rightarrow> ('e + 'a) \<times> 's"

definition ret :: "'a \<Rightarrow> ('s, 'e, 'a) prog" where
  "ret x = (\<lambda>s. (Inr x, s))"

definition raise :: "'e \<Rightarrow> ('s, 'e, 'a) prog" where
  "raise e = (\<lambda>s. (Inl e, s))"

definition andThen :: "('s, 'e, 'a) prog \<Rightarrow> ('a \<Rightarrow> ('s, 'e, 'b) prog) \<Rightarrow> ('s, 'e, 'b) prog" where
  "andThen m k = (\<lambda>s. case m s of (Inl e, s') \<Rightarrow> (Inl e, s') | (Inr x, s') \<Rightarrow> k x s')"

definition reads :: "('s \<Rightarrow> 'a) \<Rightarrow> ('s, 'e, 'a) prog" where
  "reads f = (\<lambda>s. (Inr (f s), s))"

definition writes :: "('s \<Rightarrow> 's) \<Rightarrow> ('s, 'e, unit) prog" where
  "writes f = (\<lambda>s. (Inr (), f s))"

definition ensure :: "bool \<Rightarrow> 'e \<Rightarrow> ('s, 'e, unit) prog" where
  "ensure b e = (if b then ret () else raise e)"

definition from_sum :: "'e + 'a \<Rightarrow> ('s, 'e, 'a) prog" where
  "from_sum r = (\<lambda>s. (r, s))"

definition from_option :: "'e \<Rightarrow> 'a option \<Rightarrow> ('s, 'e, 'a) prog" where
  "from_option e r = (case r of None \<Rightarrow> raise e | Some x \<Rightarrow> ret x)"

primrec for_each :: "('a \<Rightarrow> ('s, 'e, unit) prog) \<Rightarrow> 'a list \<Rightarrow> ('s, 'e, unit) prog" where
  "for_each f [] = ret ()"
| "for_each f (x # xs) = andThen (f x) (\<lambda>_. for_each f xs)"

primrec map_each :: "('a \<Rightarrow> ('s, 'e, 'b) prog) \<Rightarrow> 'a list \<Rightarrow> ('s, 'e, 'b list) prog" where
  "map_each f [] = ret []"
| "map_each f (x # xs) = andThen (f x) (\<lambda>y. andThen (map_each f xs) (\<lambda>ys. ret (y # ys)))"

text \<open>Pure computations that may raise are values of a sum type; they chain the same way.\<close>

definition bind_sum :: "'e + 'a \<Rightarrow> ('a \<Rightarrow> 'e + 'b) \<Rightarrow> 'e + 'b" where
  "bind_sum r k = (case r of Inl e \<Rightarrow> Inl e | Inr x \<Rightarrow> k x)"

primrec map_result :: "('a \<Rightarrow> 'e + 'b) \<Rightarrow> 'a list \<Rightarrow> 'e + 'b list" where
  "map_result f [] = Inr []"
| "map_result f (x # xs) = bind_sum (f x) (\<lambda>y. bind_sum (map_result f xs) (\<lambda>ys. Inr (y # ys)))"

section \<open>Weakest preconditions\<close>

text \<open>
  \<open>wp m Q E s\<close>: run from \<open>s\<close>, the program \<open>m\<close> either returns a value and a state that
  satisfy \<open>Q\<close>, or raises with an error and a state that satisfy \<open>E\<close>. The collection
  \<open>wp_simps\<close> computes it over the structure of a program; each component adds a rule per
  operation, so that a caller's proof does not unfold its callees.
\<close>

definition wp :: "('s, 'e, 'a) prog \<Rightarrow> ('a \<Rightarrow> 's \<Rightarrow> bool) \<Rightarrow> ('e \<Rightarrow> 's \<Rightarrow> bool) \<Rightarrow> 's \<Rightarrow> bool" where
  "wp m Q E s = (case m s of (Inl e, s') \<Rightarrow> E e s' | (Inr x, s') \<Rightarrow> Q x s')"

named_theorems wp_simps
named_theorems run_simps
named_theorems run_defs

lemma run_ret [run_simps]: "ret x s = (Inr x, s)"
  by (simp add: ret_def)

lemma run_raise [run_simps]: "raise e s = (Inl e, s)"
  by (simp add: raise_def)

lemma run_reads [run_simps]: "reads f s = (Inr (f s), s)"
  by (simp add: reads_def)

lemma run_writes [run_simps]: "writes f s = (Inr (), f s)"
  by (simp add: writes_def)

lemma run_from_sum [run_simps]: "from_sum r s = (r, s)"
  by (simp add: from_sum_def)

lemma run_ensure [run_simps]: "ensure b e s = (if b then Inr () else Inl e, s)"
  by (simp add: ensure_def ret_def raise_def)

lemma run_andThen [run_simps]:
  "andThen m k s = (case m s of (Inl e, s') \<Rightarrow> (Inl e, s') | (Inr x, s') \<Rightarrow> k x s')"
  by (simp add: andThen_def)

lemma run_from_option [run_simps]:
  "from_option e r s = ((case r of None \<Rightarrow> Inl e | Some x \<Rightarrow> Inr x), s)"
  by (simp add: from_option_def ret_def raise_def split: option.split)

lemma wp_ret [wp_simps]: "wp (ret x) Q E s = Q x s"
  by (simp add: wp_def ret_def)

lemma wp_raise [wp_simps]: "wp (raise e) Q E s = E e s"
  by (simp add: wp_def raise_def)

lemma wp_reads [wp_simps]: "wp (reads f) Q E s = Q (f s) s"
  by (simp add: wp_def reads_def)

lemma wp_writes [wp_simps]: "wp (writes f) Q E s = Q () (f s)"
  by (simp add: wp_def writes_def)

lemma wp_ensure [wp_simps]: "wp (ensure b e) Q E s = (if b then Q () s else E e s)"
  by (simp add: ensure_def wp_ret wp_raise)

lemma wp_from_sum [wp_simps]:
  "wp (from_sum r) Q E s = (case r of Inl e \<Rightarrow> E e s | Inr x \<Rightarrow> Q x s)"
  by (simp add: wp_def from_sum_def split: sum.split)

lemma wp_from_option [wp_simps]:
  "wp (from_option e r) Q E s = (case r of None \<Rightarrow> E e s | Some x \<Rightarrow> Q x s)"
  by (simp add: from_option_def wp_ret wp_raise split: option.split)

lemma wp_andThen [wp_simps]: "wp (andThen m k) Q E s = wp m (\<lambda>x. wp (k x) Q E) E s"
  by (simp add: wp_def andThen_def split: prod.split sum.split)

lemma wp_if [wp_simps]:
  "wp (if b then m else n) Q E s = (if b then wp m Q E s else wp n Q E s)"
  by simp

lemma wp_case_option [wp_simps]:
  "wp (case r of None \<Rightarrow> m | Some x \<Rightarrow> n x) Q E s =
     (case r of None \<Rightarrow> wp m Q E s | Some x \<Rightarrow> wp (n x) Q E s)"
  by (simp split: option.split)

lemma wp_for_each_Nil [wp_simps]: "wp (for_each f []) Q E s = Q () s"
  by (simp add: wp_ret)

lemma wp_mono:
  assumes "wp m Q E s" and "\<And>x t. Q x t \<Longrightarrow> Q' x t" and "\<And>e t. E e t \<Longrightarrow> E' e t"
  shows "wp m Q' E' s"
  using assms by (auto simp: wp_def split: prod.splits sum.splits)

lemma wp_both: "wp m Q E s \<Longrightarrow> wp m Q' E' s \<Longrightarrow> wp m (\<lambda>x t. Q x t \<and> Q' x t) (\<lambda>e t. E e t \<and> E' e t) s"
  by (auto simp: wp_def split: prod.splits sum.splits)

lemma andThen_ret: "andThen (ret x) k = k x"
  by (simp add: fun_eq_iff run_simps)

lemma wp_run: "m s = (r, t) \<Longrightarrow> wp m Q E s = (case r of Inl e \<Rightarrow> E e t | Inr x \<Rightarrow> Q x t)"
  by (simp add: wp_def split: sum.split)

lemma wp_returns: "wp m Q E s \<Longrightarrow> m s = (Inr x, t) \<Longrightarrow> Q x t"
  by (simp add: wp_def)

lemma wp_raises: "wp m Q E s \<Longrightarrow> m s = (Inl e, t) \<Longrightarrow> E e t"
  by (simp add: wp_def)

lemma wp_final: "wp m (\<lambda>_. R) (\<lambda>_. R) s = R (snd (m s))"
  by (simp add: wp_def split: prod.split sum.split)

text \<open>A program that returns.\<close>

definition succeeds :: "('s, 'e, 'a) prog \<Rightarrow> 's \<Rightarrow> bool" where
  "succeeds m s = (case fst (m s) of Inl _ \<Rightarrow> False | Inr _ \<Rightarrow> True)"

lemma succeeds_wp: "succeeds m s = wp m (\<lambda>_ _. True) (\<lambda>_ _. False) s"
  by (simp add: succeeds_def wp_def split: prod.split sum.split)

lemma succeeds_iff: "succeeds m s \<longleftrightarrow> (\<exists>x t. m s = (Inr x, t))"
  by (cases "m s") (auto simp: succeeds_def split: sum.split)

lemma wp_for_each:
  assumes "I s" and "\<And>x t. x \<in> set xs \<Longrightarrow> I t \<Longrightarrow> wp (f x) (\<lambda>_. I) E t"
  shows "wp (for_each f xs) (\<lambda>_. I) E s"
  using assms
proof (induction xs arbitrary: s)
  case Nil
  then show ?case by (simp add: wp_simps)
next
  case (Cons x xs)
  have step: "wp (f x) (\<lambda>_. I) E s" using Cons.prems by simp
  have rest: "wp (for_each f xs) (\<lambda>_. I) E t" if "I t" for t
    using that Cons.prems(2) by (intro Cons.IH) simp_all
  show ?case
    unfolding for_each.simps wp_andThen by (rule wp_mono [OF step]) (simp_all add: rest)
qed

text \<open>
  The same rules for backward reasoning: \<open>intro wp_intros\<close> walks through a program and leaves
  one goal per exit, with the tests taken on the way as premises.
\<close>

named_theorems wp_intros

lemma wp_retI [wp_intros]: "Q x s \<Longrightarrow> wp (ret x) Q E s"
  by (simp add: wp_ret)

lemma wp_raiseI [wp_intros]: "E e s \<Longrightarrow> wp (raise e) Q E s"
  by (simp add: wp_raise)

lemma wp_readsI [wp_intros]: "Q (f s) s \<Longrightarrow> wp (reads f) Q E s"
  by (simp add: wp_reads)

lemma wp_writesI [wp_intros]: "Q () (f s) \<Longrightarrow> wp (writes f) Q E s"
  by (simp add: wp_writes)

lemma wp_ensureI [wp_intros]:
  "(\<not> b \<Longrightarrow> E e s) \<Longrightarrow> (b \<Longrightarrow> Q () s) \<Longrightarrow> wp (ensure b e) Q E s"
  by (simp add: wp_ensure)

lemma wp_from_sumI [wp_intros]:
  "(\<And>e. r = Inl e \<Longrightarrow> E e s) \<Longrightarrow> (\<And>x. r = Inr x \<Longrightarrow> Q x s) \<Longrightarrow> wp (from_sum r) Q E s"
  by (cases r) (simp_all add: wp_from_sum)

lemma wp_from_optionI [wp_intros]:
  "(r = None \<Longrightarrow> E e s) \<Longrightarrow> (\<And>x. r = Some x \<Longrightarrow> Q x s) \<Longrightarrow> wp (from_option e r) Q E s"
  by (cases r) (simp_all add: wp_from_option)

lemma wp_andThenI [wp_intros]: "wp m (\<lambda>x. wp (k x) Q E) E s \<Longrightarrow> wp (andThen m k) Q E s"
  by (simp add: wp_andThen)

lemma wp_ifI [wp_intros]:
  "(b \<Longrightarrow> wp m Q E s) \<Longrightarrow> (\<not> b \<Longrightarrow> wp n Q E s) \<Longrightarrow> wp (if b then m else n) Q E s"
  by simp

lemma wp_caseI [wp_intros]:
  "(r = None \<Longrightarrow> wp m Q E s) \<Longrightarrow> (\<And>x. r = Some x \<Longrightarrow> wp (n x) Q E s) \<Longrightarrow>
   wp (case r of None \<Rightarrow> m | Some x \<Rightarrow> n x) Q E s"
  by (cases r) simp_all

lemma wp_case_pairI [wp_intros]: "(\<And>a b. r = (a, b) \<Longrightarrow> wp (f a b) Q E s) \<Longrightarrow> wp (case r of (a, b) \<Rightarrow> f a b) Q E s"
  by (cases r) simp

lemma wp_letI [wp_intros]: "(\<And>x. x = v \<Longrightarrow> wp (f x) Q E s) \<Longrightarrow> wp (Let v f) Q E s"
  by simp

text \<open>A loop of checks: it changes nothing, and when it ends every element has passed.\<close>

lemma wp_for_each_check:
  assumes "\<And>x. x \<in> set xs \<Longrightarrow> wp (f x) (\<lambda>_ t. t = s \<and> P x) E s"
    and "\<forall>x \<in> set xs. P x \<Longrightarrow> Q () s"
  shows "wp (for_each f xs) Q E s"
  using assms
proof (induction xs)
  case Nil
  then show ?case by (simp add: wp_ret)
next
  case (Cons x xs)
  have "wp (for_each f xs) Q E s" if "P x" using that Cons by simp
  then show ?case
    unfolding for_each.simps wp_andThen using Cons.prems(1) [of x]
    by (auto intro: wp_mono [where Q = "\<lambda>_ t. t = s \<and> P x" and E = E])
qed

text \<open>A loop that builds a list: its elements are related one to one, an invariant is kept.\<close>

lemma wp_map_each:
  assumes "I s"
    and "\<And>x t. x \<in> set xs \<Longrightarrow> I t \<Longrightarrow> wp (f x) (\<lambda>y u. R x y \<and> I u) E t"
    and "\<And>ys t. list_all2 R xs ys \<Longrightarrow> I t \<Longrightarrow> Q ys t"
  shows "wp (map_each f xs) Q E s"
  using assms
proof (induction xs arbitrary: s Q)
  case Nil
  then show ?case by (simp add: wp_ret)
next
  case (Cons x xs)
  have "wp (map_each f xs) (\<lambda>ys u. Q (y # ys) u) E t" if "R x y" "I t" for y t
    using that Cons.prems by (intro Cons.IH) auto
  moreover have "wp (f x) (\<lambda>y u. R x y \<and> I u) E s" using Cons.prems by simp
  ultimately show ?case
    by (auto simp: wp_andThen wp_ret [abs_def] elim!: wp_mono)
qed

lemma bind_sum_simps [simp]:
  "bind_sum (Inl e) k = Inl e" "bind_sum (Inr x) k = k x"
  by (simp_all add: bind_sum_def)

lemma bind_sum_Inr: "bind_sum r k = Inr y \<longleftrightarrow> (\<exists>x. r = Inr x \<and> k x = Inr y)"
  by (cases r) auto

lemma map_result_Inr_length: "map_result f xs = Inr ys \<Longrightarrow> length ys = length xs"
  by (induction xs arbitrary: ys) (auto simp: bind_sum_Inr)

lemma map_result_Inr_nth: "map_result f xs = Inr ys \<Longrightarrow> i < length xs \<Longrightarrow> f (xs ! i) = Inr (ys ! i)"
  by (induction xs arbitrary: ys i) (auto simp: bind_sum_Inr nth_Cons split: nat.split)

section \<open>Ordered dictionaries and stable sorting\<close>

text \<open>
  A Python dict keeps insertion order: an update of a present key keeps its place, a new
  key goes last. \<^theory_text>\<open>AList.update\<close> does exactly this on an association list.
\<close>

lemma distinct_keys_update: "distinct (map fst d) \<Longrightarrow> distinct (map fst (AList.update k v d))"
  by (rule distinct_update)

lemma distinct_keys_delete: "distinct (map fst d) \<Longrightarrow> distinct (map fst (AList.delete k d))"
  by (simp add: distinct_delete)

lemma map_of_SomeI: "distinct (map fst d) \<Longrightarrow> (k, v) \<in> set d \<Longrightarrow> map_of d k = Some v"
  by simp

lemma update_fresh: "k \<notin> fst ` set d \<Longrightarrow> AList.update k v d = d @ [(k, v)]"
  by (induction d) auto

lemma update_twice [simp]: "AList.update k v (AList.update k w d) = AList.update k v d"
  by (induction d) auto

lemma keys_update_present:
  "map_of d k = Some w \<Longrightarrow> map fst (AList.update k v d) = map fst d"
  by (induction d) (auto split: if_splits)

text \<open>\<open>sorted(xs, key=f)\<close> is stable; with \<open>reverse=True\<close> equal elements keep their order too.\<close>

definition sorted_desc :: "('a \<Rightarrow> 'b::linorder) \<Rightarrow> 'a list \<Rightarrow> 'a list" where
  "sorted_desc f xs = rev (sort_key f (rev xs))"

lemma set_sorted_desc [simp]: "set (sorted_desc f xs) = set xs"
  by (simp add: sorted_desc_def)

lemma length_sorted_desc [simp]: "length (sorted_desc f xs) = length xs"
  by (simp add: sorted_desc_def)

text \<open>\<open>min(xs, key=f)\<close> returns the first of the least elements.\<close>

fun min_by :: "('a \<Rightarrow> 'b::linorder) \<Rightarrow> 'a \<Rightarrow> 'a list \<Rightarrow> 'a" where
  "min_by f x [] = x"
| "min_by f x (y # ys) = (if f y < f x then min_by f y ys else min_by f x ys)"

lemma min_by_mem: "min_by f x xs = x \<or> min_by f x xs \<in> set xs"
  by (induction xs arbitrary: x) auto

lemma min_by_le: "y = x \<or> y \<in> set xs \<Longrightarrow> f (min_by f x xs) \<le> f y"
proof (induction xs arbitrary: x y)
  case Nil
  then show ?case by simp
next
  case (Cons z zs)
  show ?case
  proof (cases "f z < f x")
    case True
    have "f (min_by f z zs) \<le> f z" by (rule Cons.IH) simp
    moreover have "y = z \<or> y \<in> set zs \<Longrightarrow> f (min_by f z zs) \<le> f y" by (rule Cons.IH)
    ultimately show ?thesis using True Cons.prems by auto
  next
    case False
    have "f (min_by f x zs) \<le> f x" by (rule Cons.IH) simp
    moreover have "y = x \<or> y \<in> set zs \<Longrightarrow> f (min_by f x zs) \<le> f y" by (rule Cons.IH)
    ultimately show ?thesis using False Cons.prems by auto
  qed
qed

definition first_min :: "('a \<Rightarrow> 'b::linorder) \<Rightarrow> 'a list \<Rightarrow> 'a option" where
  "first_min f xs = (case xs of [] \<Rightarrow> None | x # ys \<Rightarrow> Some (min_by f x ys))"

lemma first_min_None [simp]: "first_min f xs = None \<longleftrightarrow> xs = []"
  by (simp add: first_min_def split: list.split)

lemma first_min_mem: "first_min f xs = Some x \<Longrightarrow> x \<in> set xs"
  using min_by_mem by (fastforce simp: first_min_def split: list.splits)

lemma first_min_le: "first_min f xs = Some x \<Longrightarrow> y \<in> set xs \<Longrightarrow> f x \<le> f y"
  by (auto simp: first_min_def intro: min_by_le split: list.splits)

end
