(* ===== verification/Py_Values.thy ===== *)
theory Py_Values
  imports Prelude "HOL-Library.Word"
begin

text \<open>
  The values of Python and its standard library that the code computes with: text, UUIDs,
  instants and JSON documents. Text is a list of ASCII characters (no operation below is
  claimed for other code points). A UUID is its 128-bit integer; an instant is the number
  of microseconds since 1970-01-01T00:00:00Z, which is what an aware \<open>datetime\<close> denotes.
\<close>

section \<open>Text\<close>

type_synonym text_t = string

definition code_of :: "char \<Rightarrow> nat" where
  "code_of c = (of_char c :: nat)"

text \<open>\<open>str.isspace\<close> on ASCII: tab to carriage return, the separators 28 to 31, and the blank.\<close>

definition py_space :: "char \<Rightarrow> bool" where
  "py_space c \<longleftrightarrow> (let n = code_of c in (9 \<le> n \<and> n \<le> 13) \<or> (28 \<le> n \<and> n \<le> 32))"

definition strip_chars :: "(char \<Rightarrow> bool) \<Rightarrow> text_t \<Rightarrow> text_t" where
  "strip_chars p s = rev (dropWhile p (rev (dropWhile p s)))"

definition py_strip :: "text_t \<Rightarrow> text_t" where
  "py_strip = strip_chars py_space"

definition lower_char :: "char \<Rightarrow> char" where
  "lower_char c = (let n = code_of c in if 65 \<le> n \<and> n \<le> 90 then char_of (n + 32) else c)"

definition upper_char :: "char \<Rightarrow> char" where
  "upper_char c = (let n = code_of c in if 97 \<le> n \<and> n \<le> 122 then char_of (n - 32) else c)"

definition py_lower :: "text_t \<Rightarrow> text_t" where
  "py_lower = map lower_char"

definition py_upper :: "text_t \<Rightarrow> text_t" where
  "py_upper = map upper_char"

text \<open>On ASCII text \<open>str.casefold\<close> is \<open>str.lower\<close>.\<close>

definition py_casefold :: "text_t \<Rightarrow> text_t" where
  "py_casefold = py_lower"

fun remove_all :: "text_t \<Rightarrow> text_t \<Rightarrow> text_t" where
  "remove_all p [] = []"
| "remove_all p (c # cs) =
     (if p \<noteq> [] \<and> prefix p (c # cs) then remove_all p (drop (length p - 1) cs)
      else c # remove_all p cs)"

lemma length_strip_chars: "length (strip_chars p s) \<le> length s"
  unfolding strip_chars_def by (metis length_dropWhile_le length_rev order_trans)

lemma length_py_strip: "length (py_strip s) \<le> length s"
  by (simp add: py_strip_def length_strip_chars)

lemma strip_chars_id: "\<forall>c \<in> set s. \<not> p c \<Longrightarrow> strip_chars p s = s"
proof -
  assume *: "\<forall>c \<in> set s. \<not> p c"
  then have "dropWhile p s = s" by (cases s) auto
  moreover have "dropWhile p (rev s) = rev s" using * by (cases "rev s") (auto dest!: arg_cong [where f = rev])
  ultimately show ?thesis by (simp add: strip_chars_def)
qed

lemma length_py_lower [simp]: "length (py_lower s) = length s"
  by (simp add: py_lower_def)

lemma lower_char_idem [simp]: "lower_char (lower_char c) = lower_char c"
  by (auto simp: lower_char_def code_of_def Let_def)

lemma py_lower_idem [simp]: "py_lower (py_lower s) = py_lower s"
  by (simp add: py_lower_def)

lemma py_casefold_idem [simp]: "py_casefold (py_casefold s) = py_casefold s"
  by (simp add: py_casefold_def)

lemma remove_all_none: "d \<in> set p \<Longrightarrow> d \<notin> set s \<Longrightarrow> remove_all p s = s"
proof (induction p s rule: remove_all.induct)
  case (1 p)
  then show ?case by simp
next
  case (2 p c cs)
  have "\<not> prefix p (c # cs)" using 2(3,4) set_mono_prefix by blast
  then show ?case using 2 by auto
qed

section \<open>Numbers as text\<close>

definition digit_char :: "nat \<Rightarrow> char" where
  "digit_char d = (if d < 10 then char_of (48 + d) else char_of (87 + d))"

definition hex_digit :: "char \<Rightarrow> nat option" where
  "hex_digit c = (let n = code_of c in
     if 48 \<le> n \<and> n \<le> 57 then Some (n - 48)
     else if 65 \<le> n \<and> n \<le> 70 then Some (n - 55)
     else if 97 \<le> n \<and> n \<le> 102 then Some (n - 87) else None)"

fun dec_text :: "nat \<Rightarrow> text_t" where
  "dec_text n = (if n < 10 then [digit_char n] else dec_text (n div 10) @ [digit_char (n mod 10)])"

declare dec_text.simps [simp del]

definition int_text :: "int \<Rightarrow> text_t" where
  "int_text i = (if i < 0 then CHR ''-'' # dec_text (nat (- i)) else dec_text (nat i))"

text \<open>\<open>width\<close> digits of \<open>n\<close> in base \<open>b\<close>, most significant first.\<close>

primrec fixed_text :: "nat \<Rightarrow> nat \<Rightarrow> nat \<Rightarrow> text_t" where
  "fixed_text b 0 n = []"
| "fixed_text b (Suc w) n = fixed_text b w (n div b) @ [digit_char (n mod b)]"

lemma length_fixed_text [simp]: "length (fixed_text b w n) = w"
  by (induction w arbitrary: n) auto

lemma hex_digit_digit_char [simp]: "d < 16 \<Longrightarrow> hex_digit (digit_char d) = Some d"
  by (simp add: hex_digit_def digit_char_def code_of_def Let_def)

lemma digit_char_code: "d < 16 \<Longrightarrow> code_of (digit_char d) = (if d < 10 then 48 + d else 87 + d)"
  by (simp add: digit_char_def code_of_def)

lemma fixed_text_hex: "c \<in> set (fixed_text 16 w n) \<Longrightarrow> \<exists>d < 16. c = digit_char d"
proof (induction w arbitrary: n)
  case 0
  then show ?case by simp
next
  case (Suc w)
  have "n mod 16 < 16" by simp
  then have "\<exists>d < 16. digit_char (n mod 16) = digit_char d" by blast
  then show ?case using Suc by auto
qed

text \<open>
  \<open>int(text, 16)\<close>: blanks around, an optional sign, an optional prefix \<open>0x\<close> with an optional
  underscore after it, then digits with single underscores between them.
\<close>

fun hex_run :: "nat \<Rightarrow> bool \<Rightarrow> text_t \<Rightarrow> nat option" where
  "hex_run acc us [] = (if us then None else Some acc)"
| "hex_run acc us (c # cs) =
     (if c = CHR ''_'' then (if us then None else hex_run acc True cs)
      else (case hex_digit c of None \<Rightarrow> None | Some d \<Rightarrow> hex_run (16 * acc + d) False cs))"

definition int_space :: "char \<Rightarrow> bool" where
  "int_space c \<longleftrightarrow> (let n = code_of c in (9 \<le> n \<and> n \<le> 13) \<or> n = 32)"

definition hex_body :: "text_t \<Rightarrow> nat option" where
  "hex_body s =
     (let t = (case s of z # x # r \<Rightarrow>
                 if z = CHR ''0'' \<and> (x = CHR ''x'' \<or> x = CHR ''X'')
                 then (case r of u # r' \<Rightarrow> if u = CHR ''_'' then r' else r | [] \<Rightarrow> r) else s
               | _ \<Rightarrow> s)
      in (case t of [] \<Rightarrow> None | c # _ \<Rightarrow> if c = CHR ''_'' then None else hex_run 0 False t))"

definition int_of_hex_text :: "text_t \<Rightarrow> int option" where
  "int_of_hex_text s =
     (case strip_chars int_space s of
        [] \<Rightarrow> None
      | c # cs \<Rightarrow>
          if c = CHR ''-'' then map_option (\<lambda>n. - int n) (hex_body cs)
          else if c = CHR ''+'' then map_option int (hex_body cs)
          else map_option int (hex_body (c # cs)))"

lemma hex_run_append: "hex_run acc us xs = Some a \<Longrightarrow> hex_run acc us (xs @ ys) = hex_run a False ys"
  by (induction acc us xs rule: hex_run.induct) (auto split: option.splits if_splits)

lemma hex_run_fixed: "hex_run acc False (fixed_text 16 w n) = Some (acc * 16 ^ w + n mod 16 ^ w)"
proof (induction w arbitrary: n acc)
  case 0
  then show ?case by simp
next
  case (Suc w)
  have "digit_char (n mod 16) \<noteq> CHR ''_''"
    using digit_char_code [of "n mod 16"] by (auto simp: code_of_def split: if_splits)
  moreover have "n mod 16 ^ Suc w = (n div 16) mod 16 ^ w * 16 + n mod 16"
    by (metis mod_mult2_eq mult.commute power_Suc add.commute)
  ultimately show ?case
    by (simp add: hex_run_append Suc.IH algebra_simps)
qed

section \<open>UUIDs\<close>

type_synonym uuid = "128 word"

text \<open>\<open>str(uuid)\<close>: thirty-two lower-case hexadecimal digits in groups of 8, 4, 4, 4 and 12.\<close>

definition str_of_uuid :: "uuid \<Rightarrow> text_t" where
  "str_of_uuid u = (let h = fixed_text 16 32 (unat u) in
     take 8 h @ ''-'' @ take 4 (drop 8 h) @ ''-'' @ take 4 (drop 12 h) @ ''-'' @
     take 4 (drop 16 h) @ ''-'' @ drop 20 h)"

text \<open>\<open>UUID(text)\<close>; None stands for the \<open>ValueError\<close> it raises.\<close>

definition uuid_of_text :: "text_t \<Rightarrow> uuid option" where
  "uuid_of_text s =
     (let h = remove_all ''-'' (strip_chars (\<lambda>c. c = CHR ''{'' \<or> c = CHR ''}'')
                (remove_all ''uuid:'' (remove_all ''urn:'' s)))
      in if length h \<noteq> 32 then None
         else (case int_of_hex_text h of None \<Rightarrow> None
               | Some i \<Rightarrow> if 0 \<le> i \<and> i < 2 ^ 128 then Some (word_of_int i) else None))"

lemma remove_all_single: "remove_all [d] s = filter (\<lambda>c. c \<noteq> d) s"
  by (induction "[d]" s rule: remove_all.induct) auto

lemma hex_digit_char_plain:
  assumes "d < 16"
  shows "code_of (digit_char d) \<in> {48..57} \<union> {97..102}"
  using assms by (auto simp: digit_char_code)

lemma fixed_text_codes: "c \<in> set (fixed_text 16 w n) \<Longrightarrow> code_of c \<in> {48..57} \<union> {97..102}"
  using fixed_text_hex hex_digit_char_plain by blast

lemma str_of_uuid_codes:
  assumes "c \<in> set (str_of_uuid u)"
  shows "c = CHR ''-'' \<or> code_of c \<in> {48..57} \<union> {97..102}"
proof -
  have "c = CHR ''-'' \<or> c \<in> set (fixed_text 16 32 (unat u))"
    using assms by (auto simp: str_of_uuid_def Let_def dest: in_set_takeD in_set_dropD)
  then show ?thesis using fixed_text_codes by blast
qed

lemma str_of_uuid_dashes:
  "filter (\<lambda>c. c \<noteq> CHR ''-'') (str_of_uuid u) = fixed_text 16 32 (unat u)"
proof -
  define h where "h = fixed_text 16 32 (unat u)"
  have keep: "filter (\<lambda>c. c \<noteq> CHR ''-'') t = t" if "set t \<subseteq> set h" for t
    using that fixed_text_codes by (fastforce simp: h_def filter_id_conv code_of_def)
  have sub: "set (take i (drop j h)) \<subseteq> set h" for i j
    by (meson in_set_dropD in_set_takeD subsetI)
  have split: "drop i h = take j (drop i h) @ drop (i + j) h" for i j
    by (metis add.commute append_take_drop_id drop_drop)
  have "h = take 8 h @ take 4 (drop 8 h) @ take 4 (drop 12 h) @ take 4 (drop 16 h) @ drop 20 h"
    using split [of 0 8] split [of 8 4] split [of 12 4] split [of 16 4] by simp
  then show ?thesis
    using keep [OF sub [of 8 0]] keep [OF sub [of 4 8]] keep [OF sub [of 4 12]] keep [OF sub [of 4 16]]
      keep [of "drop 20 h"] set_drop_subset [of 20 h]
    unfolding str_of_uuid_def Let_def h_def [symmetric] by simp
qed

lemma int_of_hex_fixed: "0 < w \<Longrightarrow> int_of_hex_text (fixed_text 16 w n) = Some (int (n mod 16 ^ w))"
proof -
  assume w: "0 < w"
  let ?s = "fixed_text 16 w n"
  have codes: "\<forall>c \<in> set ?s. code_of c \<in> {48..57} \<union> {97..102}" using fixed_text_codes by blast
  then have strip: "strip_chars int_space ?s = ?s"
    by (intro strip_chars_id) (auto simp: int_space_def Let_def)
  obtain c cs where s: "?s = c # cs" using w by (metis length_fixed_text list.exhaust list.size(3) less_irrefl)
  have c: "c \<noteq> CHR ''-''" "c \<noteq> CHR ''+''" "c \<noteq> CHR ''_''" using codes s by (auto simp: code_of_def)
  have "cs = x # r \<Longrightarrow> x \<noteq> CHR ''x'' \<and> x \<noteq> CHR ''X''" for x r
    using codes s by (auto simp: code_of_def)
  then have body: "hex_body (c # cs) = hex_run 0 False (c # cs)"
    using c by (auto simp: hex_body_def Let_def split: list.split)
  show ?thesis
    using c body strip s hex_run_fixed [of 0 w n] by (simp add: int_of_hex_text_def)
qed

text \<open>Parsing the text of a UUID gives the UUID back.\<close>

lemma uuid_text_roundtrip: "uuid_of_text (str_of_uuid u) = Some u"
proof -
  have "CHR ''u'' \<notin> set (str_of_uuid u)" using str_of_uuid_codes by (fastforce simp: code_of_def)
  then have "remove_all ''uuid:'' (remove_all ''urn:'' (str_of_uuid u)) = str_of_uuid u"
    by (simp add: remove_all_none [of "CHR ''u''"])
  moreover have "strip_chars (\<lambda>c. c = CHR ''{'' \<or> c = CHR ''}'') (str_of_uuid u) = str_of_uuid u"
    by (intro strip_chars_id ballI) (drule str_of_uuid_codes, auto simp: code_of_def)
  moreover have bound: "unat u < 2 ^ 128" using unsigned_less [of u] by simp
  moreover have "uint u < 2 ^ 128" using unsigned_less [of u, where ?'a = int] by simp
  moreover have "word_of_int (int (unat u)) = u" by simp
  ultimately show ?thesis
    by (simp add: uuid_of_text_def Let_def remove_all_single str_of_uuid_dashes int_of_hex_fixed
        del: of_int_of_nat_eq)
qed

lemma str_of_uuid_inject [simp]: "str_of_uuid u = str_of_uuid v \<longleftrightarrow> u = v"
  by (metis option.inject uuid_text_roundtrip)

lemma length_str_of_uuid [simp]: "length (str_of_uuid u) = 36"
  by (simp add: str_of_uuid_def Let_def)

lemma py_strip_uuid [simp]: "py_strip (str_of_uuid u) = str_of_uuid u"
  unfolding py_strip_def
  by (rule strip_chars_id) (auto dest!: str_of_uuid_codes simp: py_space_def Let_def code_of_def)

text \<open>The number of bytes of a text in UTF-8; a character is a code point below 256.\<close>

definition utf8_length :: "text_t \<Rightarrow> nat" where
  "utf8_length s = sum_list (map (\<lambda>c. if code_of c < 128 then 1 else 2) s)"

section \<open>JSON documents\<close>

text \<open>
  The values that \<open>json.dumps\<close> accepts, without floating-point numbers. An object lists its
  members in insertion order.
\<close>

datatype json = JNull | JBool bool | JInt int | JStr text_t | JList "json list"
  | JObj "(text_t \<times> json) list"

definition json_char :: "char \<Rightarrow> text_t" where
  "json_char c =
     (if c = CHR 0x22 then [CHR 0x5C, CHR 0x22]
      else if c = CHR 0x5C then [CHR 0x5C, CHR 0x5C]
      else if c = CHR 0x08 then [CHR 0x5C, CHR ''b'']
      else if c = CHR 0x0C then [CHR 0x5C, CHR ''f'']
      else if c = CHR 0x0A then [CHR 0x5C, CHR ''n'']
      else if c = CHR 0x0D then [CHR 0x5C, CHR ''r'']
      else if c = CHR 0x09 then [CHR 0x5C, CHR ''t'']
      else if code_of c < 32 then [CHR 0x5C, CHR ''u''] @ fixed_text 16 4 (code_of c)
      else [c])"

definition json_string :: "text_t \<Rightarrow> text_t" where
  "json_string s = [CHR 0x22] @ concat (map json_char s) @ [CHR 0x22]"

fun join_text :: "text_t \<Rightarrow> text_t list \<Rightarrow> text_t" where
  "join_text sep [] = []"
| "join_text sep [x] = x"
| "join_text sep (x # y # ys) = x @ sep @ join_text sep (y # ys)"

text \<open>\<open>json.dumps(v, sort_keys=True, separators=(",", ":"))\<close>.\<close>

fun json_dumps :: "json \<Rightarrow> text_t" where
  "json_dumps JNull = ''null''"
| "json_dumps (JBool b) = (if b then ''true'' else ''false'')"
| "json_dumps (JInt i) = int_text i"
| "json_dumps (JStr s) = json_string s"
| "json_dumps (JList xs) = ''['' @ join_text '','' (map json_dumps xs) @ '']''"
| "json_dumps (JObj ms) =
     ''{'' @ join_text '','' (map (\<lambda>(k, t). json_string k @ '':'' @ t)
       (sort_key fst (map (\<lambda>(k, v). (k, json_dumps v)) ms))) @ ''}''"

definition json_opt :: "('a \<Rightarrow> json) \<Rightarrow> 'a option \<Rightarrow> json" where
  "json_opt f x = (case x of None \<Rightarrow> JNull | Some y \<Rightarrow> f y)"

definition json_uuid :: "uuid \<Rightarrow> json" where
  "json_uuid u = JStr (str_of_uuid u)"

end
