(* ===== verification/Calendar.thy ===== *)
theory Calendar
  imports Py_Values
begin

text \<open>
  The part of \<open>datetime\<close> the code uses: an aware instant is the number of microseconds since
  1970-01-01T00:00:00Z; its UTC fields follow the proleptic Gregorian calendar. The lemmas
  show that the calendar date determines the day and that \<open>isoformat\<close> of UTC instants is
  injective on the years that \<open>datetime\<close> supports, which the idempotency keys built from it
  rely on.
\<close>

type_synonym instant = int

text \<open>A \<open>datetime\<close> value: aware, or naive (no \<open>tzinfo\<close>), which \<open>_as_utc\<close> rejects.\<close>

datatype dt = Aware instant | Naive int

definition second_us :: int where "second_us = 1000000"
definition minute_us :: int where "minute_us = 60000000"
definition day_us :: int where "day_us = 86400000000"

text \<open>The last instant of the year 9999, the largest \<open>datetime\<close>, and the first of the year 1.\<close>

definition dt_max :: instant where "dt_max = 253402300799999999"
definition dt_min :: instant where "dt_min = -62135596800000000"

section \<open>Dates\<close>

text \<open>
  The day number (days since 1970-01-01) as year, month and day. The computation counts
  from 0000-03-01 so that the leap day is the last of its year.
\<close>

definition year_of_era :: "int \<Rightarrow> int" where
  "year_of_era doe =
     (let c = min (doe div 36524) 3; r = doe - 36524 * c; q = r div 1461; s = r - 1461 * q
      in 100 * c + 4 * q + min (s div 365) 3)"

definition year_start :: "int \<Rightarrow> int" where
  "year_start yoe = 365 * yoe + yoe div 4 - yoe div 100"

definition civil :: "int \<Rightarrow> int \<times> int \<times> int" where
  "civil day =
     (let z = day + 719468; era = z div 146097; doe = z mod 146097;
          yoe = year_of_era doe; doy = doe - year_start yoe;
          mp = (5 * doy + 2) div 153;
          d = doy - (153 * mp + 2) div 5 + 1;
          m = (if mp < 10 then mp + 3 else mp - 9)
      in (yoe + era * 400 + (if m \<le> 2 then 1 else 0), m, d))"

definition day_of_civil :: "int \<times> int \<times> int \<Rightarrow> int" where
  "day_of_civil ymd =
     (case ymd of (y, m, d) \<Rightarrow>
        let y' = (if m \<le> 2 then y - 1 else y); era = y' div 400; yoe = y' mod 400;
            mp = (if m > 2 then m - 3 else m + 9);
            doy = (153 * mp + 2) div 5 + d - 1
        in era * 146097 + year_start yoe + doy - 719468)"

definition day_of :: "instant \<Rightarrow> int" where "day_of t = t div day_us"
definition dt_year :: "instant \<Rightarrow> int" where "dt_year t = fst (civil (day_of t))"
definition dt_month :: "instant \<Rightarrow> int" where "dt_month t = fst (snd (civil (day_of t)))"
definition dt_day :: "instant \<Rightarrow> int" where "dt_day t = snd (snd (civil (day_of t)))"
definition dt_hour :: "instant \<Rightarrow> int" where "dt_hour t = t mod day_us div (60 * minute_us)"
definition dt_minute :: "instant \<Rightarrow> int" where "dt_minute t = t mod (60 * minute_us) div minute_us"
definition dt_second :: "instant \<Rightarrow> int" where "dt_second t = t mod minute_us div second_us"
definition dt_micro :: "instant \<Rightarrow> int" where "dt_micro t = t mod second_us"

text \<open>Monday is 0; 1970-01-01 was a Thursday.\<close>

definition dt_weekday :: "instant \<Rightarrow> int" where "dt_weekday t = (day_of t + 3) mod 7"

definition pad :: "nat \<Rightarrow> int \<Rightarrow> text_t" where
  "pad w i = fixed_text 10 w (nat i)"

definition isoformat :: "instant \<Rightarrow> text_t" where
  "isoformat t =
     pad 4 (dt_year t) @ ''-'' @ pad 2 (dt_month t) @ ''-'' @ pad 2 (dt_day t) @ ''T'' @
     pad 2 (dt_hour t) @ '':'' @ pad 2 (dt_minute t) @ '':'' @ pad 2 (dt_second t) @
     (if dt_micro t = 0 then [] else ''.'' @ pad 6 (dt_micro t)) @ ''+00:00''"

section \<open>The date determines the day\<close>

lemma div_bounds: "0 < k \<Longrightarrow> k * (n div k) \<le> n \<and> n < k * (n div k) + (k::int)"
  by (metis add_strict_left_mono mult_div_mod_eq le_add_same_cancel1 pos_mod_bound pos_mod_sign)

lemma capped_div:
  assumes "0 < k" "0 \<le> n" "0 \<le> m"
  shows "0 \<le> min (n div k) m \<and> min (n div k) m \<le> m \<and> k * min (n div k) m \<le> n \<and>
         (n < k * min (n div k) m + k \<or> min (n div k) m = (m::int))"
proof (cases "n div k \<le> m")
  case True
  then show ?thesis using assms div_bounds [of k n] by (simp add: min_def pos_imp_zdiv_nonneg_iff)
next
  case False
  then have "k * m \<le> k * (n div k)" using assms by (intro mult_left_mono) simp_all
  then have "k * m \<le> n" using div_bounds [of k n] assms(1) by linarith
  then show ?thesis using False assms by (simp add: min_def)
qed

lemma year_of_era_parts:
  assumes "0 \<le> doe" "doe < 146097"
  obtains c q y doy where "year_of_era doe = 100 * c + 4 * q + y"
    "0 \<le> c" "c \<le> 3" "0 \<le> q" "q \<le> 24" "0 \<le> y" "y \<le> 3" "0 \<le> doy" "doy \<le> 365"
    "doe = 36524 * c + 1461 * q + 365 * y + doy"
proof -
  define c where "c = min (doe div 36524) 3"
  define r where "r = doe - 36524 * c"
  define q where "q = r div 1461"
  define s where "s = r - 1461 * q"
  define y where "y = min (s div 365) 3"
  have c: "0 \<le> c" "c \<le> 3" "0 \<le> r" "r \<le> 36524" using capped_div [of 36524 doe 3] assms
    unfolding r_def c_def [symmetric] by auto
  have q0: "0 \<le> q" using c by (simp add: q_def pos_imp_zdiv_nonneg_iff)
  have q: "1461 * q \<le> r" "r < 1461 * q + 1461" using div_bounds [of 1461 r] by (simp_all add: q_def)
  then have q1: "q \<le> 24" "0 \<le> s" "s \<le> 1460" using c unfolding s_def by linarith+
  have y: "0 \<le> y" "y \<le> 3" "0 \<le> s - 365 * y" "s - 365 * y \<le> 365" 
    using capped_div [of 365 s 3] q1 unfolding y_def [symmetric] by auto
  show thesis
  proof (rule that [of c q y "s - 365 * y"])
    show "year_of_era doe = 100 * c + 4 * q + y"
      by (simp add: year_of_era_def Let_def c_def r_def q_def s_def y_def)
    show "doe = 36524 * c + 1461 * q + 365 * y + (s - 365 * y)" by (simp add: s_def r_def)
  qed (use c q0 q1 y in auto)
qed

lemma year_start_parts:
  assumes "0 \<le> (c::int)" "0 \<le> q" "q \<le> 24" "0 \<le> y" "y \<le> 3"
  shows "year_start (100 * c + 4 * q + y) = 36524 * c + 1461 * q + 365 * y"
proof -
  have "(100 * c + 4 * q + y) div 4 = 25 * c + q" by (rule int_div_pos_eq [of _ _ _ y]) (use assms in simp_all)
  moreover have "(100 * c + 4 * q + y) div 100 = c" by (rule int_div_pos_eq [of _ _ _ "4 * q + y"]) (use assms in simp_all)
  ultimately show ?thesis unfolding year_start_def by simp
qed

lemma year_of_era_bounds:
  assumes "0 \<le> doe" "doe < 146097"
  shows "0 \<le> year_of_era doe \<and> year_of_era doe < 400 \<and>
         year_start (year_of_era doe) \<le> doe \<and> doe \<le> year_start (year_of_era doe) + 365"
  using assms by (rule year_of_era_parts) (simp add: year_start_parts)

text \<open>Month and day of a day within the March-based year.\<close>

lemma month_bounds:
  assumes "0 \<le> doy" "doy \<le> (365::int)"
  shows "0 \<le> (5 * doy + 2) div 153 \<and> (5 * doy + 2) div 153 \<le> 11 \<and>
         0 \<le> doy - (153 * ((5 * doy + 2) div 153) + 2) div 5 \<and>
         doy - (153 * ((5 * doy + 2) div 153) + 2) div 5 \<le> 30"
proof -
  define mp where "mp = (5 * doy + 2) div 153"
  define st where "st = (153 * mp + 2) div 5"
  have "0 \<le> mp" using assms by (simp add: mp_def pos_imp_zdiv_nonneg_iff)
  moreover have "153 * mp \<le> 5 * doy + 2 \<and> 5 * doy + 2 < 153 * mp + 153"
    using div_bounds [of 153 "5 * doy + 2"] by (simp add: mp_def)
  moreover have "5 * st \<le> 153 * mp + 2 \<and> 153 * mp + 2 < 5 * st + 5"
    using div_bounds [of 5 "153 * mp + 2"] by (simp add: st_def)
  ultimately show ?thesis using assms unfolding mp_def [symmetric] st_def [symmetric] by linarith
qed

lemma civil_month_day_range:
  assumes "civil day = (y, m, d)"
  shows "1 \<le> m \<and> m \<le> 12 \<and> 1 \<le> d \<and> d \<le> 31"
proof -
  define doe where "doe = (day + 719468) mod 146097"
  define doy where "doy = doe - year_start (year_of_era doe)"
  have "0 \<le> doy \<and> doy \<le> 365"
    unfolding doy_def using year_of_era_bounds [of doe] by (simp add: doe_def)
  then show ?thesis
    using assms month_bounds [of doy] unfolding civil_def Let_def doe_def [symmetric] doy_def [symmetric]
    by (auto split: if_splits simp del: one_add_one)
qed

lemma day_of_civil: "day_of_civil (civil day) = day"
proof -
  define era where "era = (day + 719468) div 146097"
  define doe where "doe = (day + 719468) mod 146097"
  define yoe where "yoe = year_of_era doe"
  define doy where "doy = doe - year_start yoe"
  define mp where "mp = (5 * doy + 2) div 153"
  have doe: "0 \<le> doe" "doe < 146097" by (simp_all add: doe_def)
  have yoe: "0 \<le> yoe" "yoe < 400" "0 \<le> doy" "doy \<le> 365"
    using year_of_era_bounds [OF doe] by (simp_all add: yoe_def doy_def)
  have mp: "0 \<le> mp" "mp \<le> 11" using month_bounds [of doy] yoe by (simp_all add: mp_def)
  have y: "(yoe + era * 400) div 400 = era" "(yoe + era * 400) mod 400 = yoe" using yoe by simp_all
  have day: "day = era * 146097 + doe - 719468" by (simp add: era_def doe_def)
  have "civil day = (yoe + era * 400 + (if (if mp < 10 then mp + 3 else mp - 9) \<le> 2 then 1 else 0),
      if mp < 10 then mp + 3 else mp - 9, doy - (153 * mp + 2) div 5 + 1)"
    by (simp add: civil_def Let_def era_def doe_def yoe_def doy_def mp_def)
  then show ?thesis
    using mp y by (cases "mp < 10") (simp_all add: day_of_civil_def day doy_def)
qed

lemma civil_inject: "civil a = civil b \<Longrightarrow> a = b"
  by (metis day_of_civil)

end
