(* ===== verification/Domain_Models.thy ===== *)
theory Domain_Models
  imports Calendar
begin

text \<open>
  The entities of \<open>domain/models.py\<close> and \<open>domain/collaboration.py\<close>: each pydantic model is a
  record with the fields in the order of the class, each \<open>str\<close> enumeration a datatype with
  its \<open>value\<close>. Field names carry the entity's prefix because HOL record fields are global.
  Instants are aware UTC values (\<open>utc_now\<close>), so they are integers.
\<close>

section \<open>Enumerations\<close>

datatype ProjectStatus = ProjectActive | ProjectArchived

datatype TestCaseStatus = CaseDraft | CaseActive | CaseDisabled

datatype Priority = P0 | P1 | P2 | P3

datatype TestCaseType = Manual | Automated

datatype TestSuiteStatus = SuiteActive | SuiteArchived

datatype SnapshotScopeType = ScopeProject | ScopeSuite

datatype TestPlanStatus = PlanDraft | PlanReady | PlanRunning | PlanCompleted | PlanCancelled

datatype ExecutionStatus = ExecCreated | ExecRunning | ExecCompleted | ExecCancelled

datatype CaseResultStatus = NotRun | Passed | Failed | Blocked | Skipped

datatype DefectStatus = DefectOpen | InProgress | Resolved | Verified | DefectClosed | Reopened

datatype DefectSeverity = Blocker | Critical | Major | Minor | Trivial

datatype AuditAction = Created | Updated | StatusChanged | Deleted | SnapshotCreated

datatype CollaborationTargetType = TargetProject | TargetTestCase | TargetTestSuite
  | TargetTestPlan | TargetExecution | TargetDefect | TargetSnapshot

fun suite_status_value :: "TestSuiteStatus \<Rightarrow> text_t" where
  "suite_status_value SuiteActive = ''active''"
| "suite_status_value SuiteArchived = ''archived''"

fun scope_type_value :: "SnapshotScopeType \<Rightarrow> text_t" where
  "scope_type_value ScopeProject = ''project''"
| "scope_type_value ScopeSuite = ''suite''"

fun defect_status_value :: "DefectStatus \<Rightarrow> text_t" where
  "defect_status_value DefectOpen = ''open''"
| "defect_status_value InProgress = ''in_progress''"
| "defect_status_value Resolved = ''resolved''"
| "defect_status_value Verified = ''verified''"
| "defect_status_value DefectClosed = ''closed''"
| "defect_status_value Reopened = ''reopened''"

fun severity_value :: "DefectSeverity \<Rightarrow> text_t" where
  "severity_value Blocker = ''blocker''"
| "severity_value Critical = ''critical''"
| "severity_value Major = ''major''"
| "severity_value Minor = ''minor''"
| "severity_value Trivial = ''trivial''"

fun priority_value :: "Priority \<Rightarrow> text_t" where
  "priority_value P0 = ''P0''"
| "priority_value P1 = ''P1''"
| "priority_value P2 = ''P2''"
| "priority_value P3 = ''P3''"

fun target_type_value :: "CollaborationTargetType \<Rightarrow> text_t" where
  "target_type_value TargetProject = ''project''"
| "target_type_value TargetTestCase = ''test_case''"
| "target_type_value TargetTestSuite = ''test_suite''"
| "target_type_value TargetTestPlan = ''test_plan''"
| "target_type_value TargetExecution = ''execution''"
| "target_type_value TargetDefect = ''defect''"
| "target_type_value TargetSnapshot = ''snapshot''"

section \<open>Entities\<close>

record TestStep =
  step_action :: text_t
  step_expected :: text_t

record Project =
  prj_id :: uuid
  prj_key :: text_t
  prj_name :: text_t
  prj_description :: text_t
  prj_status :: ProjectStatus
  prj_created_at :: instant
  prj_updated_at :: instant

record TestCase =
  tc_id :: uuid
  tc_project_id :: uuid
  tc_suite_id :: "uuid option"
  tc_title :: text_t
  tc_preconditions :: text_t
  tc_steps :: "TestStep list"
  tc_priority :: Priority
  tc_case_type :: TestCaseType
  tc_status :: TestCaseStatus
  tc_tags :: "text_t list"
  tc_created_at :: instant
  tc_updated_at :: instant

record TestPlan =
  tp_id :: uuid
  tp_project_id :: uuid
  tp_name :: text_t
  tp_description :: text_t
  tp_case_ids :: "uuid list"
  tp_status :: TestPlanStatus
  tp_created_at :: instant
  tp_updated_at :: instant

record CaseExecutionResult =
  cr_case_id :: uuid
  cr_case_title :: text_t
  cr_status :: CaseResultStatus
  cr_actual_result :: text_t
  cr_comment :: text_t
  cr_executed_at :: "instant option"

record TestExecution =
  ex_id :: uuid
  ex_plan_id :: uuid
  ex_project_id :: uuid
  ex_status :: ExecutionStatus
  ex_results :: "CaseExecutionResult list"
  ex_created_at :: instant
  ex_updated_at :: instant
  ex_started_at :: "instant option"
  ex_completed_at :: "instant option"

record Defect =
  df_id :: uuid
  df_project_id :: uuid
  df_case_id :: "uuid option"
  df_execution_id :: "uuid option"
  df_title :: text_t
  df_description :: text_t
  df_severity :: DefectSeverity
  df_priority :: Priority
  df_status :: DefectStatus
  df_reporter :: text_t
  df_assignee :: text_t
  df_environment :: text_t
  df_reproduction_steps :: "text_t list"
  df_expected_result :: text_t
  df_actual_result :: text_t
  df_resolution :: text_t
  df_created_at :: instant
  df_updated_at :: instant
  df_resolved_at :: "instant option"
  df_closed_at :: "instant option"

record AuditChange =
  chg_before :: json
  chg_after :: json

record AuditEvent =
  au_id :: uuid
  au_project_id :: "uuid option"
  au_entity_type :: text_t
  au_entity_id :: text_t
  au_action :: AuditAction
  au_actor :: text_t
  au_actor_user_id :: "uuid option"
  au_changes :: "(text_t \<times> AuditChange) list"
  au_comment :: text_t
  au_created_at :: instant

record TestSuite =
  ts_id :: uuid
  ts_project_id :: uuid
  ts_parent_id :: "uuid option"
  ts_name :: text_t
  ts_description :: text_t
  ts_status :: TestSuiteStatus
  ts_position :: int
  ts_created_at :: instant
  ts_updated_at :: instant

record TestCaseSnapshotItem =
  si_source_case_id :: uuid
  si_source_suite_id :: "uuid option"
  si_suite_path :: "text_t list"
  si_position :: int
  si_title :: text_t
  si_preconditions :: text_t
  si_steps :: "TestStep list"
  si_priority :: Priority
  si_case_type :: TestCaseType
  si_status :: TestCaseStatus
  si_tags :: "text_t list"
  si_source_created_at :: instant
  si_source_updated_at :: instant

record TestCaseSnapshot =
  sn_id :: uuid
  sn_project_id :: uuid
  sn_scope_type :: SnapshotScopeType
  sn_scope_id :: uuid
  sn_scope_name :: text_t
  sn_version :: int
  sn_label :: text_t
  sn_description :: text_t
  sn_case_count :: int
  sn_items :: "TestCaseSnapshotItem list"
  sn_created_at :: instant

record Comment =
  cm_id :: uuid
  cm_project_id :: uuid
  cm_entity_type :: CollaborationTargetType
  cm_entity_id :: uuid
  cm_parent_id :: "uuid option"
  cm_author_id :: uuid
  cm_author_name :: text_t
  cm_body :: text_t
  cm_created_at :: instant
  cm_updated_at :: instant
  cm_edited_at :: "instant option"
  cm_deleted_at :: "instant option"
  cm_deleted_by_id :: "uuid option"

record Principal =
  pr_user_id :: uuid
  pr_username :: text_t
  pr_display_name :: text_t
  pr_roles :: "text_t list"
  pr_permissions :: "text_t list"

definition change :: "json \<Rightarrow> json \<Rightarrow> AuditChange" where
  "change before after = \<lparr>chg_before = before, chg_after = after\<rparr>"

text \<open>\<open>Principal.has_permission\<close>.\<close>

definition has_permission :: "Principal \<Rightarrow> text_t \<Rightarrow> bool" where
  "has_permission p code \<longleftrightarrow> ''*'' \<in> set (pr_permissions p) \<or> code \<in> set (pr_permissions p)"

end
