(* ===== verification/Repository.thy ===== *)
theory Repository
  imports Py_Values
begin

text \<open>
  The error classes of \<open>core/errors.py\<close>, the repository contract of \<open>repositories/base.py\<close> as
  a locale, and the in-memory repository of \<open>repositories/memory.py\<close>, which the locale is
  interpreted on. The repository's own lock makes every operation atomic, and it copies
  entities in and out, so entities are values here.
\<close>

section \<open>Errors\<close>

text \<open>
  A message is given by an English rendering of it; the identifier inside a message is its
  text. \<open>status_code\<close> and \<open>error_code\<close> are the two attributes the constructors pass on.
\<close>

datatype domain_error =
    NotFoundError text_t text_t
  | ConflictError text_t
  | InvalidStateError text_t
  | BusinessValidationError text_t
  | AuthenticationError text_t
  | AuthorizationError text_t

fun status_code :: "domain_error \<Rightarrow> int" where
  "status_code (NotFoundError _ _) = 404"
| "status_code (ConflictError _) = 409"
| "status_code (InvalidStateError _) = 409"
| "status_code (BusinessValidationError _) = 400"
| "status_code (AuthenticationError _) = 401"
| "status_code (AuthorizationError _) = 403"

fun error_code :: "domain_error \<Rightarrow> int" where
  "error_code (NotFoundError _ _) = 40400"
| "error_code (ConflictError _) = 40900"
| "error_code (InvalidStateError _) = 40901"
| "error_code (BusinessValidationError _) = 40000"
| "error_code (AuthenticationError _) = 40100"
| "error_code (AuthorizationError _) = 40300"

section \<open>The repository contract\<close>

text \<open>
  What the services rely on: a repository holds a finite map from identifiers to entities,
  each stored under its own identifier. \<open>create\<close> and \<open>update\<close> may refuse; when they accept
  they change exactly one entry.
\<close>

locale async_repository =
  fixes ok :: "'r \<Rightarrow> bool"
    and id_of :: "'e \<Rightarrow> uuid"
    and create :: "'e \<Rightarrow> 'r \<Rightarrow> domain_error + 'r"
    and get :: "'r \<Rightarrow> uuid \<Rightarrow> 'e option"
    and items :: "'r \<Rightarrow> 'e list"
    and update :: "'e \<Rightarrow> 'r \<Rightarrow> domain_error + 'r"
    and delete :: "uuid \<Rightarrow> 'r \<Rightarrow> bool \<times> 'r"
  assumes get_id: "ok r \<Longrightarrow> get r k = Some e \<Longrightarrow> id_of e = k"
    and items_get: "ok r \<Longrightarrow> set (items r) = ran (get r)"
    and items_distinct: "ok r \<Longrightarrow> distinct (map id_of (items r))"
    and create_law: "ok r \<Longrightarrow> create e r = Inr r' \<Longrightarrow>
        ok r' \<and> get r (id_of e) = None \<and> get r' = (get r)(id_of e \<mapsto> e)"
    and update_law: "ok r \<Longrightarrow> update e r = Inr r' \<Longrightarrow>
        ok r' \<and> get r (id_of e) \<noteq> None \<and> get r' = (get r)(id_of e \<mapsto> e)"
    and delete_law: "ok r \<Longrightarrow> delete k r = (b, r') \<Longrightarrow>
        ok r' \<and> b = (get r k \<noteq> None) \<and> get r' = (get r)(k := None)"
begin

lemma items_iff: "ok r \<Longrightarrow> e \<in> set (items r) \<longleftrightarrow> get r (id_of e) = Some e"
  using get_id by (auto simp: items_get ran_def)

lemma ball_items: "ok r \<Longrightarrow> (\<forall>e \<in> set (items r). P e) \<longleftrightarrow> (\<forall>k e. get r k = Some e \<longrightarrow> P e)"
  by (auto simp: items_get ran_def)

lemma bex_items: "ok r \<Longrightarrow> (\<exists>e \<in> set (items r). P e) \<longleftrightarrow> (\<exists>k e. get r k = Some e \<and> P e)"
  by (auto simp: items_get ran_def)

lemma item_by_id:
  assumes "ok r" "e \<in> set (items r)" "e' \<in> set (items r)" "id_of e = id_of e'"
  shows "e = e'"
  using assms items_iff [OF assms(1)] by force

lemma created_is_new: "ok r \<Longrightarrow> create e r = Inr r' \<Longrightarrow> e \<notin> set (items r) \<and> e \<in> set (items r')"
  using create_law by (auto simp: items_iff)

lemma updated_items:
  assumes "ok r" "update e r = Inr r'"
  shows "set (items r') = {x \<in> set (items r). id_of x \<noteq> id_of e} \<union> {e}"
proof -
  have r': "ok r'" "get r' = (get r)(id_of e \<mapsto> e)" using update_law [OF assms] by auto
  have "x \<in> set (items r') \<longleftrightarrow> x \<in> set (items r) \<and> id_of x \<noteq> id_of e \<or> x = e" for x
    using assms(1) r' by (simp add: items_iff) (metis option.inject)
  then show ?thesis by blast
qed

lemma finite_contents: "ok r \<Longrightarrow> finite (dom (get r))"
proof -
  assume r: "ok r"
  have "dom (get r) \<subseteq> id_of ` set (items r)" using r get_id items_get by (force simp: ran_def)
  then show ?thesis by (rule finite_subset) simp
qed

end

section \<open>The in-memory repository\<close>

text \<open>
  \<open>_items\<close> is a dict, an association list in insertion order. The unique fields of a call
  are given by the comparisons that \<open>_ensure_unique\<close> makes between an existing entity and
  the new one.
\<close>

type_synonym 'e repo = "(uuid \<times> 'e) list"

type_synonym 'e unique_fields = "('e \<Rightarrow> 'e \<Rightarrow> bool) list"

definition ensure_unique :: "'e \<Rightarrow> 'e unique_fields \<Rightarrow> uuid option \<Rightarrow> 'e repo \<Rightarrow> bool" where
  "ensure_unique entity fields exclude_id items =
     (\<forall>(existing_id, existing) \<in> set items.
        Some existing_id = exclude_id \<or> (\<forall>same \<in> set fields. \<not> same existing entity))"

definition repo_create ::
  "('e \<Rightarrow> uuid) \<Rightarrow> 'e unique_fields \<Rightarrow> 'e \<Rightarrow> 'e repo \<Rightarrow> domain_error + 'e repo" where
  "repo_create id_of fields entity items =
     (if map_of items (id_of entity) \<noteq> None then Inl (ConflictError ''entity id already exists'')
      else if \<not> ensure_unique entity fields None items
        then Inl (ConflictError ''the value of a unique field already exists'')
      else Inr (AList.update (id_of entity) entity items))"

definition repo_get :: "'e repo \<Rightarrow> uuid \<Rightarrow> 'e option" where
  "repo_get items entity_id = map_of items entity_id"

definition repo_list :: "'e repo \<Rightarrow> 'e list" where
  "repo_list items = map snd items"

definition repo_update ::
  "('e \<Rightarrow> uuid) \<Rightarrow> 'e unique_fields \<Rightarrow> 'e \<Rightarrow> 'e repo \<Rightarrow> domain_error + 'e repo" where
  "repo_update id_of fields entity items =
     (if map_of items (id_of entity) = None
        then Inl (NotFoundError ''entity'' (str_of_uuid (id_of entity)))
      else if \<not> ensure_unique entity fields (Some (id_of entity)) items
        then Inl (ConflictError ''the value of a unique field already exists'')
      else Inr (AList.update (id_of entity) entity items))"

definition repo_delete :: "uuid \<Rightarrow> 'e repo \<Rightarrow> bool \<times> 'e repo" where
  "repo_delete entity_id items = (map_of items entity_id \<noteq> None, AList.delete entity_id items)"

definition repo_clear :: "'e repo \<Rightarrow> 'e repo" where
  "repo_clear items = []"

definition repo_ok :: "('e \<Rightarrow> uuid) \<Rightarrow> 'e repo \<Rightarrow> bool" where
  "repo_ok id_of items \<longleftrightarrow> distinct (map fst items) \<and> (\<forall>x \<in> set items. id_of (snd x) = fst x)"

lemma repo_ok_iff:
  "repo_ok id_of items \<longleftrightarrow>
     distinct (map fst items) \<and> (\<forall>k e. map_of items k = Some e \<longrightarrow> id_of e = k)"
  by (force simp: repo_ok_def dest: map_of_SomeD)

lemma repo_ok_update:
  "repo_ok id_of items \<Longrightarrow> repo_ok id_of (AList.update (id_of e) e items)"
  by (auto simp: repo_ok_iff distinct_keys_update update_conv')

lemma repo_ok_delete: "repo_ok id_of items \<Longrightarrow> repo_ok id_of (AList.delete k items)"
  by (auto simp: repo_ok_iff distinct_keys_delete delete_conv')

lemma repo_ok_empty: "repo_ok id_of (repo_clear items)"
  by (simp add: repo_ok_def repo_clear_def)

lemma repo_list_ids: "repo_ok id_of items \<Longrightarrow> map id_of (repo_list items) = map fst items"
  by (auto simp: repo_ok_def repo_list_def)

interpretation mem: async_repository "repo_ok id_of" id_of "repo_create id_of fields" repo_get repo_list
    "repo_update id_of fields" repo_delete
  for id_of :: "'e \<Rightarrow> uuid" and fields :: "'e unique_fields"
proof (unfold_locales, goal_cases)
  case (1 r k e)
  then show ?case by (auto simp: repo_ok_def repo_get_def dest!: map_of_SomeD)
next
  case (2 r)
  then have "ran (map_of r) = snd ` set r" by (simp add: repo_ok_def ran_distinct)
  then show ?case by (simp add: repo_list_def repo_get_def [abs_def])
next
  case (3 r)
  then show ?case by (simp add: repo_list_ids) (simp add: repo_ok_def)
next
  case (4 r e r')
  then show ?case
    by (auto simp: repo_create_def repo_ok_update repo_get_def update_conv' split: if_splits)
next
  case (5 r e r')
  then show ?case
    by (auto simp: repo_update_def repo_ok_update repo_get_def update_conv' split: if_splits)
next
  case (6 r k b r')
  then show ?case
    by (auto simp: repo_delete_def repo_ok_delete repo_get_def delete_conv')
qed

text \<open>When the operations are refused, and that they are accepted otherwise.\<close>

lemma repo_create_fails:
  "repo_create id_of fields e r = Inl x \<longleftrightarrow>
     (repo_get r (id_of e) \<noteq> None \<and> x = ConflictError ''entity id already exists'') \<or>
     (repo_get r (id_of e) = None \<and> \<not> ensure_unique e fields None r \<and>
        x = ConflictError ''the value of a unique field already exists'')"
  by (auto simp: repo_create_def repo_get_def)

lemma repo_create_appends:
  "repo_create id_of fields e r = Inr r' \<Longrightarrow> repo_list r' = repo_list r @ [e]"
  by (auto simp: repo_create_def repo_list_def update_fresh map_of_eq_None_iff split: if_splits)

lemma repo_update_ok:
  "repo_get r (id_of e) \<noteq> None \<Longrightarrow> \<exists>r'. repo_update id_of [] e r = Inr r'"
  by (auto simp: repo_update_def repo_get_def ensure_unique_def)

lemma repo_update_fails: "repo_update id_of [] e r = Inl x \<Longrightarrow> repo_get r (id_of e) = None"
  by (auto simp: repo_update_def repo_get_def ensure_unique_def split: if_splits)

lemma ensure_unique_no_fields [simp]: "ensure_unique e [] k r"
  by (simp add: ensure_unique_def)

end
