(* ===== verification/Qa_Store.thy ===== *)
theory Qa_Store
  imports Domain_Models Repository
begin

text \<open>
  The state the QA services share: the repositories, the append-only audit log
  (\<open>services/audit.py\<close>), the current actor (\<open>core/actor.py\<close>) and the environment that
  \<open>utc_now\<close> and \<open>uuid4\<close> read. Every service operation runs under the one business lock, so
  it is one atomic program over this state.
\<close>

section \<open>State\<close>

record biz =
  projects :: "Project repo"
  test_suites :: "TestSuite repo"
  test_cases :: "TestCase repo"
  snapshots :: "TestCaseSnapshot repo"
  test_plans :: "TestPlan repo"
  executions :: "TestExecution repo"
  defects :: "Defect repo"

record ActorIdentity =
  act_user_id :: uuid
  act_username :: text_t

text \<open>
  \<open>clock\<close> gives the instants that successive calls of \<open>utc_now\<close> return and \<open>id_source\<close> the
  values of successive calls of \<open>uuid4\<close>; the counters say how many were drawn.
\<close>

record qa =
  biz :: biz
  audit_events :: "AuditEvent repo"
  comments :: "Comment repo"
  current_actor :: "ActorIdentity option"
  clock :: "nat \<Rightarrow> instant"
  ticks :: nat
  id_source :: "nat \<Rightarrow> uuid"
  ids_drawn :: nat

type_synonym 'a service = "(qa, domain_error, 'a) prog"

definition utc_now :: "instant service" where
  "utc_now = (\<lambda>s. (Inr (clock s (ticks s)), s\<lparr>ticks := Suc (ticks s)\<rparr>))"

definition uuid4 :: "uuid service" where
  "uuid4 = (\<lambda>s. (Inr (id_source s (ids_drawn s)), s\<lparr>ids_drawn := Suc (ids_drawn s)\<rparr>))"

definition get_current_actor :: "ActorIdentity option service" where
  "get_current_actor = reads current_actor"

text \<open>\<open>set_current_actor\<close> returns the token with which \<open>reset_current_actor\<close> restores the old value.\<close>

definition set_current_actor :: "ActorIdentity \<Rightarrow> ActorIdentity option service" where
  "set_current_actor a =
     andThen get_current_actor (\<lambda>old. andThen (writes (current_actor_update (\<lambda>_. Some a))) (\<lambda>_. ret old))"

definition reset_current_actor :: "ActorIdentity option \<Rightarrow> unit service" where
  "reset_current_actor token = writes (current_actor_update (\<lambda>_. token))"

section \<open>Identifiers\<close>

text \<open>An argument typed \<open>str | UUID\<close>.\<close>

datatype id_arg = IdText text_t | IdUuid uuid

fun arg_text :: "id_arg \<Rightarrow> text_t" where
  "arg_text (IdText t) = t"
| "arg_text (IdUuid u) = str_of_uuid u"

fun parse_uuid :: "id_arg \<Rightarrow> text_t \<Rightarrow> domain_error + uuid" where
  "parse_uuid (IdUuid u) field_name = Inr u"
| "parse_uuid (IdText t) field_name =
     (case uuid_of_text t of
        Some u \<Rightarrow> Inr u
      | None \<Rightarrow> Inl (BusinessValidationError (field_name @ '' is not a valid UUID: '' @ t)))"

definition parse_uuid_opt :: "id_arg option \<Rightarrow> text_t \<Rightarrow> domain_error + uuid option" where
  "parse_uuid_opt v field_name =
     (case v of None \<Rightarrow> Inr None | Some a \<Rightarrow> bind_sum (parse_uuid a field_name) (\<lambda>u. Inr (Some u)))"

lemma parse_uuid_text [simp]: "parse_uuid (IdText (str_of_uuid u)) field_name = Inr u"
  by (simp add: uuid_text_roundtrip)

lemma parse_uuid_arg_text: "parse_uuid a f = Inr u \<Longrightarrow> parse_uuid (IdText (str_of_uuid u)) g = Inr u"
  by (simp add: uuid_text_roundtrip)

section \<open>Repository calls of the services\<close>

definition list_of :: "(qa \<Rightarrow> 'e repo) \<Rightarrow> 'e list service" where
  "list_of repo = reads (\<lambda>s. repo_list (repo s))"

definition get_in :: "(qa \<Rightarrow> 'e repo) \<Rightarrow> uuid \<Rightarrow> 'e option service" where
  "get_in repo entity_id = reads (\<lambda>s. repo_get (repo s) entity_id)"

definition store :: "(qa \<Rightarrow> 'e repo) \<Rightarrow> (('e repo \<Rightarrow> 'e repo) \<Rightarrow> qa \<Rightarrow> qa) \<Rightarrow>
    ('e \<Rightarrow> 'e repo \<Rightarrow> domain_error + 'e repo) \<Rightarrow> 'e \<Rightarrow> 'e service" where
  "store repo repo_upd operation entity =
     (\<lambda>s. case operation entity (repo s) of
        Inl x \<Rightarrow> (Inl x, s)
      | Inr r \<Rightarrow> (Inr entity, repo_upd (\<lambda>_. r) s))"

definition delete_in :: "(qa \<Rightarrow> 'e repo) \<Rightarrow> (('e repo \<Rightarrow> 'e repo) \<Rightarrow> qa \<Rightarrow> qa) \<Rightarrow> uuid \<Rightarrow> bool service" where
  "delete_in repo repo_upd entity_id =
     (\<lambda>s. (Inr (fst (repo_delete entity_id (repo s))),
           repo_upd (\<lambda>_. snd (repo_delete entity_id (repo s))) s))"

abbreviation "Projects s \<equiv> projects (biz s)"
abbreviation "TestSuites s \<equiv> test_suites (biz s)"
abbreviation "TestCases s \<equiv> test_cases (biz s)"
abbreviation "Snapshots s \<equiv> snapshots (biz s)"
abbreviation "TestPlans s \<equiv> test_plans (biz s)"
abbreviation "Executions s \<equiv> executions (biz s)"
abbreviation "Defects s \<equiv> defects (biz s)"

abbreviation "upd_projects f \<equiv> biz_update (projects_update f)"
abbreviation "upd_suites f \<equiv> biz_update (test_suites_update f)"
abbreviation "upd_cases f \<equiv> biz_update (test_cases_update f)"
abbreviation "upd_snapshots f \<equiv> biz_update (snapshots_update f)"
abbreviation "upd_plans f \<equiv> biz_update (test_plans_update f)"
abbreviation "upd_executions f \<equiv> biz_update (executions_update f)"
abbreviation "upd_defects f \<equiv> biz_update (defects_update f)"

text \<open>Projects are created and saved with \<open>unique_fields=("key",)\<close>.\<close>

definition same_key :: "Project \<Rightarrow> Project \<Rightarrow> bool" where
  "same_key a b \<longleftrightarrow> prj_key a = prj_key b"

section \<open>The audit service\<close>

definition normalize_entity_type :: "text_t option \<Rightarrow> domain_error + text_t option" where
  "normalize_entity_type v =
     (case v of None \<Rightarrow> Inr None
      | Some t \<Rightarrow> let n = py_lower (py_strip t) in
          if n = [] then Inl (BusinessValidationError ''entity_type must not be empty'')
          else if length n > 64 then Inl (BusinessValidationError ''entity_type exceeds 64 characters'')
          else Inr (Some n))"

definition audit_record ::
  "id_arg option \<Rightarrow> text_t \<Rightarrow> id_arg \<Rightarrow> AuditAction \<Rightarrow> (text_t \<times> AuditChange) list \<Rightarrow> text_t \<Rightarrow>
   text_t \<Rightarrow> id_arg option \<Rightarrow> AuditEvent service" where
  "audit_record project_id entity_type entity_id action changes comment actor actor_user_id =
     andThen (from_sum (parse_uuid_opt project_id ''project_id'')) (\<lambda>parsed_project_id.
     andThen (from_sum (normalize_entity_type (Some entity_type))) (\<lambda>normalized_type.
     andThen (from_option (BusinessValidationError ''entity_type must not be empty'') normalized_type) (\<lambda>etype.
     let normalized_id = py_strip (arg_text entity_id) in
     andThen (ensure (normalized_id \<noteq> []) (BusinessValidationError ''entity_id must not be empty'')) (\<lambda>_.
     andThen (ensure (length normalized_id \<le> 64)
       (BusinessValidationError ''entity_id exceeds 64 characters'')) (\<lambda>_.
     andThen get_current_actor (\<lambda>who.
     let (actor', actor_user_id') =
       (case who of
          Some a \<Rightarrow> if actor = ''local-user'' then (act_username a, Some (IdUuid (act_user_id a)))
                    else (actor, actor_user_id)
        | None \<Rightarrow> (actor, actor_user_id));
       normalized_actor = py_strip actor' in
     andThen (ensure (normalized_actor \<noteq> []) (BusinessValidationError ''actor must not be empty'')) (\<lambda>_.
     andThen (ensure (length normalized_actor \<le> 100)
       (BusinessValidationError ''actor exceeds 100 characters'')) (\<lambda>_.
     let normalized_comment = py_strip comment in
     andThen (ensure (length normalized_comment \<le> 1000)
       (BusinessValidationError ''comment exceeds 1000 characters'')) (\<lambda>_.
     andThen (from_sum (parse_uuid_opt actor_user_id' ''actor_user_id'')) (\<lambda>parsed_user.
     andThen uuid4 (\<lambda>event_id.
     andThen utc_now (\<lambda>created.
     store audit_events audit_events_update (repo_create au_id [])
       \<lparr>au_id = event_id, au_project_id = parsed_project_id, au_entity_type = etype,
        au_entity_id = normalized_id, au_action = action, au_actor = normalized_actor,
        au_actor_user_id = parsed_user, au_changes = changes, au_comment = normalized_comment,
        au_created_at = created\<rparr>))))))))))))"

definition audit_list ::
  "id_arg option \<Rightarrow> text_t option \<Rightarrow> id_arg option \<Rightarrow> AuditAction option \<Rightarrow> int \<Rightarrow> AuditEvent list service" where
  "audit_list project_id entity_type entity_id action limit =
     andThen (ensure (1 \<le> limit \<and> limit \<le> 200) (BusinessValidationError ''limit must be between 1 and 200'')) (\<lambda>_.
     andThen (from_sum (parse_uuid_opt project_id ''project_id'')) (\<lambda>parsed_project_id.
     andThen (from_sum (normalize_entity_type entity_type)) (\<lambda>normalized_type.
     let normalized_id = map_option (\<lambda>a. py_strip (arg_text a)) entity_id in
     andThen (ensure (normalized_id \<noteq> Some []) (BusinessValidationError ''entity_id must not be empty'')) (\<lambda>_.
     andThen (list_of audit_events) (\<lambda>events.
     let e1 = (case parsed_project_id of None \<Rightarrow> events
                 | Some p \<Rightarrow> filter (\<lambda>e. au_project_id e = Some p) events);
         e2 = (case normalized_type of None \<Rightarrow> e1 | Some t \<Rightarrow> filter (\<lambda>e. au_entity_type e = t) e1);
         e3 = (case normalized_id of None \<Rightarrow> e2 | Some i \<Rightarrow> filter (\<lambda>e. au_entity_id e = i) e2);
         e4 = (case action of None \<Rightarrow> e3 | Some a \<Rightarrow> filter (\<lambda>e. au_action e = a) e3)
     in ret (take (nat limit) (sorted_desc au_created_at e4)))))))"

section \<open>Rules for the calls\<close>

lemma wp_utc_now [wp_simps]: "wp utc_now Q E s = Q (clock s (ticks s)) (s\<lparr>ticks := Suc (ticks s)\<rparr>)"
  by (simp add: wp_def utc_now_def)

lemma wp_uuid4 [wp_simps]: "wp uuid4 Q E s = Q (id_source s (ids_drawn s)) (s\<lparr>ids_drawn := Suc (ids_drawn s)\<rparr>)"
  by (simp add: wp_def uuid4_def)

lemma wp_current_actor [wp_simps]: "wp get_current_actor Q E s = Q (current_actor s) s"
  by (simp add: get_current_actor_def wp_simps)

lemma wp_list_of [wp_simps]: "wp (list_of repo) Q E s = Q (repo_list (repo s)) s"
  by (simp add: list_of_def wp_simps)

lemma wp_get_in [wp_simps]: "wp (get_in repo k) Q E s = Q (repo_get (repo s) k) s"
  by (simp add: get_in_def wp_simps)

lemma wp_store [wp_simps]:
  "wp (store repo repo_upd operation entity) Q E s =
     (case operation entity (repo s) of Inl x \<Rightarrow> E x s | Inr r \<Rightarrow> Q entity (repo_upd (\<lambda>_. r) s))"
  by (simp add: wp_def store_def split: sum.split)

lemma wp_delete_in [wp_simps]:
  "wp (delete_in repo repo_upd k) Q E s =
     Q (fst (repo_delete k (repo s))) (repo_upd (\<lambda>_. snd (repo_delete k (repo s))) s)"
  by (simp add: wp_def delete_in_def)

lemma wp_utc_nowI [wp_intros]: "Q (clock s (ticks s)) (s\<lparr>ticks := Suc (ticks s)\<rparr>) \<Longrightarrow> wp utc_now Q E s"
  by (simp add: wp_simps)

lemma wp_uuid4I [wp_intros]:
  "Q (id_source s (ids_drawn s)) (s\<lparr>ids_drawn := Suc (ids_drawn s)\<rparr>) \<Longrightarrow> wp uuid4 Q E s"
  by (simp add: wp_simps)

lemma wp_current_actorI [wp_intros]: "Q (current_actor s) s \<Longrightarrow> wp get_current_actor Q E s"
  by (simp add: wp_simps)

lemma wp_list_ofI [wp_intros]: "Q (repo_list (repo s)) s \<Longrightarrow> wp (list_of repo) Q E s"
  by (simp add: wp_simps)

lemma wp_get_inI [wp_intros]: "Q (repo_get (repo s) k) s \<Longrightarrow> wp (get_in repo k) Q E s"
  by (simp add: wp_simps)

lemma wp_storeI [wp_intros]:
  "(\<And>x. operation entity (repo s) = Inl x \<Longrightarrow> E x s) \<Longrightarrow>
   (\<And>r. operation entity (repo s) = Inr r \<Longrightarrow> Q entity (repo_upd (\<lambda>_. r) s)) \<Longrightarrow>
   wp (store repo repo_upd operation entity) Q E s"
  by (simp add: wp_simps split: sum.split)

lemma wp_delete_inI [wp_intros]:
  "(\<And>b r. repo_delete k (repo s) = (b, r) \<Longrightarrow> Q b (repo_upd (\<lambda>_. r) s)) \<Longrightarrow>
   wp (delete_in repo repo_upd k) Q E s"
  by (simp add: wp_simps)

text \<open>An audit call changes the audit log and draws from the environment, nothing else.\<close>

definition audit_frame :: "qa \<Rightarrow> qa \<Rightarrow> bool" where
  "audit_frame s t \<longleftrightarrow> biz t = biz s \<and> comments t = comments s \<and> current_actor t = current_actor s \<and>
     clock t = clock s \<and> id_source t = id_source s \<and>
     (repo_ok au_id (audit_events s) \<longrightarrow> repo_ok au_id (audit_events t)) \<and>
     (\<exists>new. length new \<le> 1 \<and> repo_list (audit_events t) = repo_list (audit_events s) @ new)"

lemma wp_audit [wp_intros]:
  assumes "\<And>x t. audit_frame s t \<Longrightarrow> E x t" and "\<And>e t. audit_frame s t \<Longrightarrow> Q e t"
  shows "wp (audit_record p ty i a ch co ac us) Q E s"
proof -
  have same: "audit_frame s (s\<lparr>ids_drawn := n, ticks := m\<rparr>)" for n m
    by (simp add: audit_frame_def)
  have refl: "audit_frame s s"
    by (simp add: audit_frame_def)
  have new: "audit_frame s (s\<lparr>ids_drawn := n, ticks := m, audit_events := r\<rparr>)"
    if "repo_create au_id [] e (audit_events s) = Inr r" for e r n m
    using that mem.create_law [of au_id "audit_events s" "[]" e r] repo_create_appends [OF that]
    by (simp add: audit_frame_def)
  show ?thesis
    by (auto simp: audit_record_def Let_def wp_simps split: sum.split option.split prod.split
        intro!: assms same new refl)
qed


section \<open>When an audit call is accepted\<close>

text \<open>
  The calls of the services pass fixed entity types, stored identifiers and the default actor,
  so only the current actor's name, the comment and the drawn identifier can be refused.
\<close>

definition audit_actor :: "qa \<Rightarrow> text_t" where
  "audit_actor s = (case current_actor s of None \<Rightarrow> ''local-user'' | Some a \<Rightarrow> py_strip (act_username a))"

definition audit_accepts :: "qa \<Rightarrow> text_t \<Rightarrow> bool" where
  "audit_accepts s comment \<longleftrightarrow> audit_actor s \<noteq> [] \<and> length (audit_actor s) \<le> 100 \<and>
     length (py_strip comment) \<le> 1000 \<and> repo_get (audit_events s) (id_source s (ids_drawn s)) = None"

lemma py_strip_local_user: "py_strip ''local-user'' = ''local-user''"
  by code_simp

lemma uuid_text_nonempty: "str_of_uuid u \<noteq> []"
  by (metis length_str_of_uuid list.size(3) zero_neq_numeral)

lemma audit_record_succeeds:
  assumes "normalize_entity_type (Some ty) = Inr (Some ty')"
  shows "succeeds (audit_record (Some (IdUuid p)) ty (IdUuid i) act ch comment ''local-user'' None) s
    \<longleftrightarrow> audit_accepts s comment"
proof (cases "current_actor s")
  case None
  then show ?thesis
    using assms
    by (simp add: succeeds_wp audit_record_def wp_simps Let_def parse_uuid_opt_def audit_accepts_def audit_actor_def
        py_strip_local_user uuid_text_nonempty repo_create_def repo_get_def split: sum.split)
next
  case (Some a)
  then show ?thesis
    using assms
    by (simp add: succeeds_wp audit_record_def wp_simps Let_def parse_uuid_opt_def audit_accepts_def audit_actor_def
        uuid_text_nonempty repo_create_def repo_get_def split: sum.split)
qed

lemma entity_types_normal:
  "normalize_entity_type (Some ''defect'') = Inr (Some ''defect'')"
  "normalize_entity_type (Some ''comment'') = Inr (Some ''comment'')"
  "normalize_entity_type (Some ''test_suite'') = Inr (Some ''test_suite'')"
  "normalize_entity_type (Some ''test_case_snapshot'') = Inr (Some ''test_case_snapshot'')"
  by code_simp+

end
