(* ===== verification/Projects.thy ===== *)
theory Projects
  imports Qa_Spec
begin

text \<open>
  \<open>services/projects.py\<close>: the life of a project. A project is archived only when no plan,
  execution or defect of it is open, and deleted only when nothing refers to it.
\<close>

section \<open>Operations\<close>

record ProjectCreate =
  pc_key :: text_t
  pc_name :: text_t
  pc_description :: text_t

text \<open>The fields of an update that were set and are not null.\<close>

record ProjectUpdate =
  pu_name :: "text_t option"
  pu_description :: "text_t option"

definition set_to :: "'a option \<Rightarrow> 'a \<Rightarrow> 'a" where
  "set_to v old = (case v of None \<Rightarrow> old | Some x \<Rightarrow> x)"

definition project_get_unlocked :: "id_arg \<Rightarrow> Project service" where
  "project_get_unlocked project_id =
     andThen (from_sum (parse_uuid project_id ''project_id'')) (\<lambda>parsed_id.
     andThen (get_in Projects parsed_id) (\<lambda>project.
     from_option (NotFoundError ''project'' (str_of_uuid parsed_id)) project))"

text \<open>
  Every service has a private \<open>_require_active_project\<close>; they differ in the message for an
  archived project.
\<close>

definition require_active_project :: "text_t \<Rightarrow> uuid \<Rightarrow> Project service" where
  "require_active_project message project_id =
     andThen (get_in Projects project_id) (\<lambda>found.
     andThen (from_option (NotFoundError ''project'' (str_of_uuid project_id)) found) (\<lambda>project.
     andThen (ensure (prj_status project = ProjectActive) (InvalidStateError message)) (\<lambda>_.
     ret project)))"

definition project_create :: "ProjectCreate \<Rightarrow> Project service" where
  "project_create payload =
     andThen uuid4 (\<lambda>i.
     andThen utc_now (\<lambda>t1.
     andThen utc_now (\<lambda>t2.
     store Projects upd_projects (repo_create prj_id [same_key])
       \<lparr>prj_id = i, prj_key = py_upper (pc_key payload), prj_name = pc_name payload,
        prj_description = pc_description payload, prj_status = ProjectActive,
        prj_created_at = t1, prj_updated_at = t2\<rparr>)))"

definition project_list :: "ProjectStatus option \<Rightarrow> Project list service" where
  "project_list status =
     andThen (list_of Projects) (\<lambda>items.
     ret (sort_key prj_created_at
       (case status of None \<Rightarrow> items | Some st \<Rightarrow> filter (\<lambda>p. prj_status p = st) items)))"

definition project_update :: "id_arg \<Rightarrow> ProjectUpdate \<Rightarrow> Project service" where
  "project_update project_id payload =
     andThen (project_get_unlocked project_id) (\<lambda>project.
     andThen utc_now (\<lambda>now.
     store Projects upd_projects (repo_update prj_id [same_key])
       (project\<lparr>prj_name := set_to (pu_name payload) (prj_name project),
                prj_description := set_to (pu_description payload) (prj_description project),
                prj_updated_at := now\<rparr>)))"

definition ensure_project_has_no_active_work :: "uuid \<Rightarrow> unit service" where
  "ensure_project_has_no_active_work project_id =
     andThen (list_of TestPlans) (\<lambda>plans.
     andThen (ensure (\<not> (\<exists>p \<in> set plans. tp_project_id p = project_id \<and>
         tp_status p \<in> {PlanDraft, PlanReady, PlanRunning}))
       (ConflictError ''the project still has unfinished test plans'')) (\<lambda>_.
     andThen (list_of Executions) (\<lambda>executions.
     andThen (ensure (\<not> (\<exists>e \<in> set executions. ex_project_id e = project_id \<and>
         ex_status e \<in> {ExecCreated, ExecRunning}))
       (ConflictError ''the project still has unfinished executions'')) (\<lambda>_.
     andThen (list_of Defects) (\<lambda>defects.
     ensure (\<not> (\<exists>d \<in> set defects. df_project_id d = project_id \<and> df_status d \<noteq> DefectClosed))
       (ConflictError ''the project still has open defects''))))))"

definition project_transition :: "id_arg \<Rightarrow> ProjectStatus \<Rightarrow> Project service" where
  "project_transition project_id target =
     andThen (project_get_unlocked project_id) (\<lambda>project.
     if prj_status project = target then ret project
     else
       andThen (if target = ProjectArchived then ensure_project_has_no_active_work (prj_id project)
                else ret ()) (\<lambda>_.
       andThen utc_now (\<lambda>now.
       store Projects upd_projects (repo_update prj_id [same_key])
         (project\<lparr>prj_status := target, prj_updated_at := now\<rparr>))))"

definition project_delete :: "id_arg \<Rightarrow> uuid service" where
  "project_delete project_id =
     andThen (project_get_unlocked project_id) (\<lambda>project.
     andThen (list_of TestCases) (\<lambda>cases.
     andThen (list_of TestPlans) (\<lambda>plans.
     andThen (ensure (\<not> (\<exists>c \<in> set cases. tc_project_id c = prj_id project))
       (ConflictError ''the project still has test cases'')) (\<lambda>_.
     andThen (ensure (\<not> (\<exists>p \<in> set plans. tp_project_id p = prj_id project))
       (ConflictError ''the project still has test plans'')) (\<lambda>_.
     andThen (list_of Defects) (\<lambda>defects.
     andThen (ensure (\<not> (\<exists>d \<in> set defects. df_project_id d = prj_id project))
       (ConflictError ''the project still has defects'')) (\<lambda>_.
     andThen (list_of TestSuites) (\<lambda>suites.
     andThen (ensure (\<not> (\<exists>x \<in> set suites. ts_project_id x = prj_id project))
       (ConflictError ''the project still has test suites'')) (\<lambda>_.
     andThen (list_of Snapshots) (\<lambda>snaps.
     andThen (ensure (\<not> (\<exists>x \<in> set snaps. sn_project_id x = prj_id project))
       (ConflictError ''the project still has snapshots'')) (\<lambda>_.
     andThen (delete_in Projects upd_projects (prj_id project)) (\<lambda>_.
     ret (prj_id project)))))))))))))"

section \<open>Simulation\<close>

lemma wp_project_get:
  "wp (project_get_unlocked i) Q E s =
     (case parse_uuid i ''project_id'' of
        Inl x \<Rightarrow> E x s
      | Inr k \<Rightarrow> (case repo_get (Projects s) k of
          None \<Rightarrow> E (NotFoundError ''project'' (str_of_uuid k)) s
        | Some p \<Rightarrow> Q p s))"
  by (simp add: project_get_unlocked_def wp_simps split: sum.split option.split)

lemma unique_keys_create:
  assumes "repo_ok prj_id r" "repo_create prj_id [same_key] p r = Inr r'"
  shows "repo_get r k = Some x \<Longrightarrow> prj_key x \<noteq> prj_key p"
  using assms by (force simp: repo_create_def ensure_unique_def same_key_def repo_get_def
      dest: map_of_SomeD split: if_splits)

lemma wp_require_active [wp_intros]:
  assumes "\<And>x. E x s"
    and "\<And>p. repo_get (Projects s) i = Some p \<Longrightarrow> active_project (world_of (biz s)) i \<Longrightarrow> Q p s"
  shows "wp (require_active_project msg i) Q E s"
  unfolding require_active_project_def
  by (intro wp_intros assms) (auto simp: active_project_def)

lemma project_create_simulated: "simulated (project_create payload)"
  unfolding project_create_def
  apply (intro allI wp_intros; simp add: refines_same)
  apply (rule refines_create_project, assumption, simp)
  apply (rule qa_step.project_create)
  by (auto dest: unique_keys_create [OF biz_okD(1)])

lemma project_list_simulated: "simulated (project_list status)"
  unfolding project_list_def by (intro allI wp_intros; simp add: refines_same)

lemma project_get_simulated: "simulated (project_get_unlocked i)"
  unfolding project_get_unlocked_def by (intro allI wp_intros; simp add: refines_same)

lemma project_update_simulated: "simulated (project_update i payload)"
  unfolding project_update_def project_get_unlocked_def
  apply (intro allI wp_intros; simp add: refines_same)
  apply (rule refines_update_project, assumption, simp)
  by (rule qa_step.project_edit) (auto simp: stored_ids)

lemma finished_plan:
  "st \<noteq> PlanDraft \<Longrightarrow> st \<noteq> PlanReady \<Longrightarrow> st \<noteq> PlanRunning \<Longrightarrow> st = PlanCompleted \<or> st = PlanCancelled"
  by (cases st) simp_all

lemma finished_execution:
  "st \<noteq> ExecCreated \<Longrightarrow> st \<noteq> ExecRunning \<Longrightarrow> st = ExecCompleted \<or> st = ExecCancelled"
  by (cases st) simp_all

lemma no_active_work_simulated: "simulated (ensure_project_has_no_active_work i)"
  unfolding ensure_project_has_no_active_work_def by (intro allI wp_intros; simp add: refines_same)

lemma project_transition_simulated: "simulated (project_transition i target)"
  unfolding project_transition_def project_get_unlocked_def ensure_project_has_no_active_work_def
  apply (intro allI wp_intros; simp add: refines_same)
   apply (rule refines_update_project, assumption, simp)
   apply (rule qa_step.project_archive)
        apply (auto simp: stored_ids ball_lists finished_plan finished_execution)
  apply (rule refines_update_project, assumption, simp)
  apply (rule qa_step.project_activate)
  apply (auto simp: stored_ids intro: ProjectStatus.exhaust)
  done

lemma project_delete_simulated: "simulated (project_delete i)"
  unfolding project_delete_def project_get_unlocked_def 
  apply (intro allI wp_intros; simp add: refines_same)
  apply (rule refines_delete_project, assumption, simp)
  apply (rule qa_step.project_delete)
  apply (auto simp: ball_lists)
  done

end
