(* ===== verification/Test_Suites.thy ===== *)
theory Test_Suites
  imports Projects
begin

text \<open>
  \<open>services/test_suites.py\<close>: the tree of test suites of a project. \<open>_validate_parent\<close> is the
  loop over the ancestors; its model terminates because it never visits a suite twice.
\<close>

section \<open>Walking to the root\<close>

lemma visit_decreases:
  assumes "c \<notin> set visited" "repo_get r c = Some x"
  shows "card (fst ` set r - set (c # visited)) < card (fst ` set r - set visited)"
proof (rule psubset_card_mono)
  have "c \<in> fst ` set r" using assms(2) by (force simp: repo_get_def dest: map_of_SomeD)
  then show "fst ` set r - set (c # visited) \<subset> fst ` set r - set visited" using assms(1) by auto
qed simp

function walk_parents ::
  "TestSuite repo \<Rightarrow> uuid \<Rightarrow> uuid option \<Rightarrow> uuid list \<Rightarrow> uuid option \<Rightarrow> domain_error + unit" where
  "walk_parents suites project_id suite_id visited None = Inr ()"
| "walk_parents suites project_id suite_id visited (Some current_id) =
     (if current_id \<in> set visited \<or> Some current_id = suite_id
        then Inl (ConflictError ''the suite hierarchy must not form a cycle'')
      else case repo_get suites current_id of
          None \<Rightarrow> Inl (NotFoundError ''parent test suite'' (str_of_uuid current_id))
        | Some current \<Rightarrow>
            if ts_project_id current \<noteq> project_id
              then Inl (ConflictError ''the parent suite must belong to the same project'')
            else if ts_status current \<noteq> SuiteActive
              then Inl (InvalidStateError ''cannot be placed in an archived suite'')
            else walk_parents suites project_id suite_id (current_id # visited) (ts_parent_id current))"
  by pat_completeness auto

termination
  by (relation "measure (\<lambda>(r, _, _, visited, _). card (fst ` set r - set visited))")
    (auto intro!: visit_decreases simp del: list.set)

definition validate_parent :: "uuid \<Rightarrow> uuid option \<Rightarrow> uuid option \<Rightarrow> unit service" where
  "validate_parent project_id suite_id parent_id =
     andThen (reads TestSuites) (\<lambda>suites. from_sum (walk_parents suites project_id suite_id [] parent_id))"

section \<open>Operations\<close>

record TestSuiteCreate =
  sc_project_id :: text_t
  sc_parent_id :: "text_t option"
  sc_name :: text_t
  sc_description :: text_t
  sc_position :: int

text \<open>\<open>parent_id\<close> may be unset, null or a text; the other fields count only when not null.\<close>

record TestSuiteUpdate =
  su_parent_id :: "text_t option option"
  su_name :: "text_t option"
  su_description :: "text_t option"
  su_position :: "int option"

definition suite_require_active_project :: "uuid \<Rightarrow> Project service" where
  "suite_require_active_project = require_active_project ''suites of an archived project cannot change''"

definition ensure_unique_name :: "uuid \<Rightarrow> uuid option \<Rightarrow> text_t \<Rightarrow> uuid option \<Rightarrow> unit service" where
  "ensure_unique_name project_id parent_id name exclude_id =
     andThen (list_of TestSuites) (\<lambda>suites.
     ensure (\<not> (\<exists>existing \<in> set suites.
         Some (ts_id existing) \<noteq> exclude_id \<and> ts_project_id existing = project_id \<and>
         ts_parent_id existing = parent_id \<and> py_casefold (ts_name existing) = py_casefold name))
       (ConflictError ''a sibling suite has this name''))"

definition suite_get_unlocked :: "id_arg \<Rightarrow> TestSuite service" where
  "suite_get_unlocked suite_id =
     andThen (from_sum (parse_uuid suite_id ''suite_id'')) (\<lambda>parsed_id.
     andThen (get_in TestSuites parsed_id) (\<lambda>suite.
     from_option (NotFoundError ''test suite'' (str_of_uuid parsed_id)) suite))"

definition json_suite_status :: "TestSuiteStatus \<Rightarrow> json" where
  "json_suite_status st = JStr (suite_status_value st)"

definition suite_audit ::
  "TestSuite \<Rightarrow> AuditAction \<Rightarrow> (text_t \<times> AuditChange) list \<Rightarrow> text_t \<Rightarrow> AuditEvent service" where
  "suite_audit suite action changes comment =
     audit_record (Some (IdUuid (ts_project_id suite))) ''test_suite'' (IdUuid (ts_id suite)) action changes
       comment ''local-user'' None"

definition suite_create :: "TestSuiteCreate \<Rightarrow> TestSuite service" where
  "suite_create payload =
     andThen (from_sum (parse_uuid (IdText (sc_project_id payload)) ''project_id'')) (\<lambda>project_id.
     andThen (suite_require_active_project project_id) (\<lambda>_.
     andThen (from_sum (parse_uuid_opt (map_option IdText (sc_parent_id payload)) ''parent_id'')) (\<lambda>parent_id.
     andThen (validate_parent project_id None parent_id) (\<lambda>_.
     andThen (ensure_unique_name project_id parent_id (sc_name payload) None) (\<lambda>_.
     andThen uuid4 (\<lambda>i.
     andThen utc_now (\<lambda>t1.
     andThen utc_now (\<lambda>t2.
     andThen (store TestSuites upd_suites (repo_create ts_id [])
       \<lparr>ts_id = i, ts_project_id = project_id, ts_parent_id = parent_id, ts_name = sc_name payload,
        ts_description = sc_description payload, ts_status = SuiteActive,
        ts_position = sc_position payload, ts_created_at = t1, ts_updated_at = t2\<rparr>) (\<lambda>created.
     andThen (suite_audit created Created
       [(''name'', change JNull (JStr (ts_name created))),
        (''parent_id'', change JNull (json_opt json_uuid (ts_parent_id created))),
        (''status'', change JNull (json_suite_status (ts_status created)))]
       ''create test suite'') (\<lambda>_.
     ret created))))))))))"

definition suite_list :: "id_arg option \<Rightarrow> TestSuiteStatus option \<Rightarrow> TestSuite list service" where
  "suite_list project_id status =
     andThen (list_of TestSuites) (\<lambda>items.
     andThen (from_sum (parse_uuid_opt project_id ''project_id'')) (\<lambda>parsed.
     let i1 = (case parsed of None \<Rightarrow> items | Some p \<Rightarrow> filter (\<lambda>x. ts_project_id x = p) items);
         i2 = (case status of None \<Rightarrow> i1 | Some st \<Rightarrow> filter (\<lambda>x. ts_status x = st) i1)
     in ret (sort_key (\<lambda>x. (str_of_uuid (ts_project_id x),
          (case ts_parent_id x of None \<Rightarrow> [] | Some p \<Rightarrow> str_of_uuid p),
          ts_position x, py_casefold (ts_name x), ts_created_at x)) i2)))"

text \<open>\<open>_suite_changes\<close>: the edited fields whose value differs.\<close>

definition suite_changes :: "TestSuite \<Rightarrow> TestSuite \<Rightarrow> (text_t \<times> AuditChange) list" where
  "suite_changes before after =
     concat (map (\<lambda>(field, b, a). if b = a then [] else [(field, change b a)])
       [(''parent_id'', json_opt json_uuid (ts_parent_id before), json_opt json_uuid (ts_parent_id after)),
        (''name'', JStr (ts_name before), JStr (ts_name after)),
        (''description'', JStr (ts_description before), JStr (ts_description after)),
        (''position'', JInt (ts_position before), JInt (ts_position after))])"

definition suite_update :: "id_arg \<Rightarrow> TestSuiteUpdate \<Rightarrow> TestSuite service" where
  "suite_update suite_id payload =
     andThen (suite_get_unlocked suite_id) (\<lambda>suite.
     andThen (suite_require_active_project (ts_project_id suite)) (\<lambda>_.
     andThen (ensure (ts_status suite = SuiteActive)
       (InvalidStateError ''an archived suite cannot be edited'')) (\<lambda>_.
     andThen
       (case su_parent_id payload of
          None \<Rightarrow> ret suite
        | Some raw \<Rightarrow>
            andThen (from_sum (parse_uuid_opt (map_option IdText raw) ''parent_id'')) (\<lambda>parent_id.
            andThen (validate_parent (ts_project_id suite) (Some (ts_id suite)) parent_id) (\<lambda>_.
            ret (suite\<lparr>ts_parent_id := parent_id\<rparr>)))) (\<lambda>moved.
     let candidate = moved\<lparr>ts_name := set_to (su_name payload) (ts_name moved),
           ts_description := set_to (su_description payload) (ts_description moved),
           ts_position := set_to (su_position payload) (ts_position moved)\<rparr> in
     andThen (ensure_unique_name (ts_project_id suite) (ts_parent_id candidate) (ts_name candidate)
       (Some (ts_id suite))) (\<lambda>_.
     if suite_changes suite candidate = [] then ret suite
     else
       andThen utc_now (\<lambda>now.
       andThen (store TestSuites upd_suites (repo_update ts_id []) (candidate\<lparr>ts_updated_at := now\<rparr>)) (\<lambda>updated.
       andThen (suite_audit suite Updated (suite_changes suite candidate) ''update test suite'') (\<lambda>_.
       ret updated))))))))"

definition suite_transition :: "id_arg \<Rightarrow> TestSuiteStatus \<Rightarrow> TestSuite service" where
  "suite_transition suite_id target =
     andThen (suite_get_unlocked suite_id) (\<lambda>suite.
     if ts_status suite = target then ret suite
     else
       andThen (suite_require_active_project (ts_project_id suite)) (\<lambda>_.
       andThen (if target = SuiteActive
                then validate_parent (ts_project_id suite) (Some (ts_id suite)) (ts_parent_id suite)
                else ret ()) (\<lambda>_.
       andThen utc_now (\<lambda>now.
       andThen (store TestSuites upd_suites (repo_update ts_id [])
         (suite\<lparr>ts_status := target, ts_updated_at := now\<rparr>)) (\<lambda>updated.
       andThen (suite_audit suite StatusChanged
         [(''status'', change (json_suite_status (ts_status suite)) (json_suite_status target))]
         ''change test suite status'') (\<lambda>_.
       ret updated))))))"

definition suite_delete :: "id_arg \<Rightarrow> uuid service" where
  "suite_delete suite_id =
     andThen (suite_get_unlocked suite_id) (\<lambda>suite.
     andThen (suite_require_active_project (ts_project_id suite)) (\<lambda>_.
     andThen (list_of TestSuites) (\<lambda>suites.
     andThen (ensure (\<not> (\<exists>x \<in> set suites. ts_parent_id x = Some (ts_id suite)))
       (ConflictError ''the suite still has child suites'')) (\<lambda>_.
     andThen (list_of TestCases) (\<lambda>cases.
     andThen (ensure (\<not> (\<exists>c \<in> set cases. tc_suite_id c = Some (ts_id suite)))
       (ConflictError ''the suite still has test cases'')) (\<lambda>_.
     andThen (delete_in TestSuites upd_suites (ts_id suite)) (\<lambda>_.
     andThen (suite_audit suite Deleted
       [(''name'', change (JStr (ts_name suite)) JNull),
        (''parent_id'', change (json_opt json_uuid (ts_parent_id suite)) JNull)]
       ''delete test suite'') (\<lambda>_.
     ret (ts_id suite)))))))))"

section \<open>What the walk establishes\<close>

lemma walk_parents_sound:
  assumes "walk_parents (test_suites b) project_id suite_id visited start = Inr ()"
  shows "parent_allowed (world_of b) project_id suite_id start"
  using assms
proof (induction "test_suites b" project_id suite_id visited start rule: walk_parents.induct)
  case (1 project_id suite_id visited)
  then show ?case by (simp add: parent_allowed_def)
next
  case (2 project_id suite_id visited c)
  then obtain s where s: "repo_get (test_suites b) c = Some s" "ts_project_id s = project_id"
    "ts_status s = SuiteActive" "Some c \<noteq> suite_id"
    "parent_allowed (world_of b) project_id suite_id (ts_parent_id s)"
    by (auto split: option.splits if_splits)
  show ?case
    unfolding parent_allowed_def
  proof (intro allI impI)
    fix p a
    assume p: "Some c = Some p" "(p, a) \<in> (parent_rel (world_of b))\<^sup>*"
    show "Some a \<noteq> suite_id \<and> (\<exists>s. w_suites (world_of b) a = Some s \<and> ts_project_id s = project_id \<and>
        ts_status s = SuiteActive)"
      using p(2)
    proof (cases rule: converse_rtranclE)
      case base
      then show ?thesis using s p(1) by simp
    next
      case (step q)
      then have "ts_parent_id s = Some q" using s(1) p(1) by (simp add: parent_rel_def)
      then show ?thesis using s(5) step(2) by (simp add: parent_allowed_def)
    qed
  qed
qed

lemma wp_validate_parent [wp_intros]:
  assumes "\<And>x. E x s" and "parent_allowed (world_of (biz s)) p i start \<Longrightarrow> Q () s"
  shows "wp (validate_parent p i start) Q E s"
  unfolding validate_parent_def
  by (intro wp_intros assms) (simp add: walk_parents_sound assms)

section \<open>Simulation\<close>

lemmas suite_defs = suite_get_unlocked_def suite_require_active_project_def ensure_unique_name_def
  suite_audit_def

lemma suite_create_simulated: "simulated (suite_create payload)"
  unfolding suite_create_def suite_defs
  apply (intro allI sim_audit wp_intros; simp add: refines_same)
  apply (rule refines_create_suite, assumption, simp)
  by (rule qa_step.suite_create) (auto simp: name_free_def ball_lists)

lemma suite_list_simulated: "simulated (suite_list p st)"
  unfolding suite_list_def by (intro allI wp_intros; simp add: refines_same)

lemma suite_get_simulated: "simulated (suite_get_unlocked i)"
  unfolding suite_defs by (intro allI wp_intros; simp add: refines_same)

lemma suite_update_simulated: "simulated (suite_update i payload)"
  unfolding suite_update_def suite_defs
  apply (intro allI sim_audit wp_intros; simp add: refines_same)
   apply (rule refines_update_suite, assumption, simp)
   apply (rule qa_step.suite_edit)
       apply (auto simp: name_free_def ball_lists stored_ids)[5]
  apply (rule refines_update_suite, assumption, simp)
  apply (rule qa_step.suite_edit)
      apply (auto simp: name_free_def ball_lists stored_ids)
  done

lemma suite_transition_simulated: "simulated (suite_transition i target)"
  unfolding suite_transition_def suite_defs
  apply (intro allI sim_audit wp_intros; simp add: refines_same)
  by (rule refines_update_suite, assumption, simp, rule qa_step.suite_status, auto simp: stored_ids)+

lemma suite_delete_simulated: "simulated (suite_delete i)"
  unfolding suite_delete_def suite_defs
  apply (intro allI sim_audit wp_intros; simp add: refines_same)
  apply (rule refines_delete_suite, assumption, simp)
  by (rule qa_step.suite_delete) (auto simp: ball_lists)

end
