(* ===== verification/Test_Cases.thy ===== *)
theory Test_Cases
  imports Test_Suites
begin

text \<open>
  \<open>services/test_cases.py\<close>: test cases, their place in the suite tree and their status. A case
  enters a suite only when the suite and all its ancestors are active, and is active only
  with at least one step.
\<close>

section \<open>Tags\<close>

definition normalize_tags :: "text_t list \<Rightarrow> text_t list" where
  "normalize_tags tags =
     sort (remdups (map (\<lambda>t. py_lower (py_strip t)) (filter (\<lambda>t. py_strip t \<noteq> []) tags)))"

lemma py_space_lower [simp]: "py_space (lower_char c) = py_space c"
  by (auto simp: py_space_def lower_char_def code_of_def Let_def)

lemma strip_chars_map:
  assumes "\<And>c. p (f c) = p c"
  shows "strip_chars p (map f s) = map f (strip_chars p s)"
  using assms by (simp add: strip_chars_def dropWhile_map rev_map comp_def)

lemma dropWhile_dropWhile_rev: "dropWhile p (rev (dropWhile p (rev (dropWhile p s)))) = rev (dropWhile p (rev (dropWhile p s)))"
proof (cases "dropWhile p s")
  case Nil
  show ?thesis by (simp only: Nil) simp
next
  case (Cons c cs)
  then have "\<not> p c" by (metis hd_dropWhile list.distinct(1) list.sel(1))
  then have "dropWhile p (rev (c # cs)) \<noteq> [] \<and> last (dropWhile p (rev (c # cs))) = c"
    by (simp add: dropWhile_append)
  then have "rev (dropWhile p (rev (c # cs))) \<noteq> [] \<and> hd (rev (dropWhile p (rev (c # cs)))) = c"
    by (simp add: hd_rev)
  then show ?thesis using \<open>\<not> p c\<close> Cons by (metis dropWhile.simps(2) list.collapse)
qed

lemma strip_chars_idem [simp]: "strip_chars p (strip_chars p s) = strip_chars p s"
  by (simp add: strip_chars_def dropWhile_dropWhile_rev dropWhile_idem)

lemma normalize_tags_normal: "tags_normal (normalize_tags tags)"
proof -
  have "sorted_wrt (<) (normalize_tags tags)"
    by (simp add: normalize_tags_def strict_sorted_iff)
  then show ?thesis
    by (auto simp: tags_normal_def normalize_tags_def py_strip_def py_lower_def strip_chars_map)
qed

section \<open>The suite of a case\<close>

lemma climb_decreases:
  assumes "ts_id c \<notin> set visited" "repo_get r k = Some x"
  shows "card (insert (ts_id x) (ts_id ` snd ` set r) - set (ts_id c # visited))
    < card (insert (ts_id c) (ts_id ` snd ` set r) - set visited)"
proof (rule psubset_card_mono)
  have "ts_id x \<in> ts_id ` snd ` set r"
    using assms(2) by (force simp: repo_get_def dest: map_of_SomeD)
  then show "insert (ts_id x) (ts_id ` snd ` set r) - set (ts_id c # visited)
      \<subset> insert (ts_id c) (ts_id ` snd ` set r) - set visited"
    using assms(1) by auto
qed simp

function climb_suites ::
  "TestSuite repo \<Rightarrow> uuid list \<Rightarrow> TestSuite \<Rightarrow> domain_error + unit" where
  "climb_suites suites visited current =
     (if ts_id current \<in> set visited then Inl (ConflictError ''the suite hierarchy has a cycle'')
      else if ts_status current \<noteq> SuiteActive
        then Inl (InvalidStateError ''an archived suite cannot receive test cases'')
      else case ts_parent_id current of
          None \<Rightarrow> Inr ()
        | Some parent_id \<Rightarrow>
            (case repo_get suites parent_id of
               None \<Rightarrow> Inl (NotFoundError ''parent test suite'' (str_of_uuid parent_id))
             | Some parent \<Rightarrow> climb_suites suites (ts_id current # visited) parent))"
  by pat_completeness auto

termination
  by (relation "measure (\<lambda>(r, visited, c). card (insert (ts_id c) (ts_id ` snd ` set r) - set visited))")
    (auto intro!: climb_decreases simp del: list.set)

declare climb_suites.simps [simp del]

definition require_active_suite :: "uuid \<Rightarrow> uuid \<Rightarrow> TestSuite service" where
  "require_active_suite project_id suite_id =
     andThen (get_in TestSuites suite_id) (\<lambda>found.
     andThen (from_option (NotFoundError ''test suite'' (str_of_uuid suite_id)) found) (\<lambda>suite.
     andThen (ensure (ts_project_id suite = project_id)
       (ConflictError ''a test case can only be placed in a suite of its project'')) (\<lambda>_.
     andThen (reads TestSuites) (\<lambda>suites.
     andThen (from_sum (climb_suites suites [] suite)) (\<lambda>_.
     ret suite)))))"

section \<open>Operations\<close>

record TestCaseCreate =
  cc_project_id :: text_t
  cc_suite_id :: "text_t option"
  cc_title :: text_t
  cc_preconditions :: text_t
  cc_steps :: "TestStep list"
  cc_priority :: Priority
  cc_case_type :: TestCaseType
  cc_tags :: "text_t list"

record TestCaseUpdate =
  cu_suite_id :: "text_t option option"
  cu_title :: "text_t option"
  cu_preconditions :: "text_t option"
  cu_steps :: "TestStep list option"
  cu_priority :: "Priority option"
  cu_case_type :: "TestCaseType option"
  cu_tags :: "text_t list option"

text \<open>\<open>_TRANSITIONS\<close>.\<close>

fun case_transitions :: "TestCaseStatus \<Rightarrow> TestCaseStatus set" where
  "case_transitions CaseDraft = {CaseActive}"
| "case_transitions CaseActive = {CaseDisabled}"
| "case_transitions CaseDisabled = {CaseActive}"

definition case_require_active_project :: "uuid \<Rightarrow> Project service" where
  "case_require_active_project =
     require_active_project ''an archived project cannot add or enable test cases''"

definition case_get_unlocked :: "id_arg \<Rightarrow> TestCase service" where
  "case_get_unlocked case_id =
     andThen (from_sum (parse_uuid case_id ''case_id'')) (\<lambda>parsed_id.
     andThen (get_in TestCases parsed_id) (\<lambda>test_case.
     from_option (NotFoundError ''test case'' (str_of_uuid parsed_id)) test_case))"

definition case_create :: "TestCaseCreate \<Rightarrow> TestCase service" where
  "case_create payload =
     andThen (from_sum (parse_uuid (IdText (cc_project_id payload)) ''project_id'')) (\<lambda>project_id.
     andThen (case_require_active_project project_id) (\<lambda>_.
     andThen (from_sum (parse_uuid_opt (map_option IdText (cc_suite_id payload)) ''suite_id'')) (\<lambda>suite_id.
     andThen (case suite_id of None \<Rightarrow> ret ()
              | Some k \<Rightarrow> andThen (require_active_suite project_id k) (\<lambda>_. ret ())) (\<lambda>_.
     andThen uuid4 (\<lambda>i.
     andThen utc_now (\<lambda>t1.
     andThen utc_now (\<lambda>t2.
     store TestCases upd_cases (repo_create tc_id [])
       \<lparr>tc_id = i, tc_project_id = project_id, tc_suite_id = suite_id, tc_title = cc_title payload,
        tc_preconditions = cc_preconditions payload, tc_steps = cc_steps payload,
        tc_priority = cc_priority payload, tc_case_type = cc_case_type payload, tc_status = CaseDraft,
        tc_tags = normalize_tags (cc_tags payload), tc_created_at = t1, tc_updated_at = t2\<rparr>)))))))"

definition case_list ::
  "id_arg option \<Rightarrow> TestCaseStatus option \<Rightarrow> id_arg option \<Rightarrow> bool \<Rightarrow> TestCase list service" where
  "case_list project_id status suite_id unassigned =
     andThen (list_of TestCases) (\<lambda>items.
     andThen (from_sum (parse_uuid_opt project_id ''project_id'')) (\<lambda>parsed_project_id.
     let i1 = (case parsed_project_id of None \<Rightarrow> items | Some p \<Rightarrow> filter (\<lambda>x. tc_project_id x = p) items);
         i2 = (case status of None \<Rightarrow> i1 | Some st \<Rightarrow> filter (\<lambda>x. tc_status x = st) i1) in
     andThen (from_sum (parse_uuid_opt suite_id ''suite_id'')) (\<lambda>parsed_suite_id.
     let i3 = (case parsed_suite_id of
                 Some k \<Rightarrow> filter (\<lambda>x. tc_suite_id x = Some k) i2
               | None \<Rightarrow> if unassigned then filter (\<lambda>x. tc_suite_id x = None) i2 else i2)
     in ret (sort_key tc_created_at i3))))"

definition case_update :: "id_arg \<Rightarrow> TestCaseUpdate \<Rightarrow> TestCase service" where
  "case_update case_id payload =
     andThen (case_get_unlocked case_id) (\<lambda>test_case.
     andThen
       (case cu_suite_id payload of
          None \<Rightarrow> ret (tc_suite_id test_case)
        | Some raw \<Rightarrow>
            andThen (from_sum (parse_uuid_opt (map_option IdText raw) ''suite_id'')) (\<lambda>suite_id.
            case suite_id of None \<Rightarrow> ret None
            | Some k \<Rightarrow> andThen (require_active_suite (tc_project_id test_case) k) (\<lambda>_. ret suite_id))) (\<lambda>suite_id.
     andThen utc_now (\<lambda>now.
     let updated = test_case\<lparr>tc_suite_id := suite_id,
           tc_title := set_to (cu_title payload) (tc_title test_case),
           tc_preconditions := set_to (cu_preconditions payload) (tc_preconditions test_case),
           tc_steps := set_to (cu_steps payload) (tc_steps test_case),
           tc_priority := set_to (cu_priority payload) (tc_priority test_case),
           tc_case_type := set_to (cu_case_type payload) (tc_case_type test_case),
           tc_tags := set_to (map_option normalize_tags (cu_tags payload)) (tc_tags test_case),
           tc_updated_at := now\<rparr> in
     andThen (ensure (\<not> (tc_status updated = CaseActive \<and> tc_steps updated = []))
       (InvalidStateError ''an active test case must have at least one step'')) (\<lambda>_.
     store TestCases upd_cases (repo_update tc_id []) updated))))"

definition case_transition :: "id_arg \<Rightarrow> TestCaseStatus \<Rightarrow> TestCase service" where
  "case_transition case_id target =
     andThen (case_get_unlocked case_id) (\<lambda>test_case.
     if tc_status test_case = target then ret test_case
     else
       andThen (ensure (target \<in> case_transitions (tc_status test_case))
         (InvalidStateError ''the test case cannot change to this status'')) (\<lambda>_.
       andThen
         (if target = CaseActive then
            andThen (case_require_active_project (tc_project_id test_case)) (\<lambda>_.
            ensure (tc_steps test_case \<noteq> [])
              (InvalidStateError ''a test case without steps cannot be enabled''))
          else ret ()) (\<lambda>_.
       andThen utc_now (\<lambda>now.
       store TestCases upd_cases (repo_update tc_id [])
         (test_case\<lparr>tc_status := target, tc_updated_at := now\<rparr>)))))"

definition case_delete :: "id_arg \<Rightarrow> uuid service" where
  "case_delete case_id =
     andThen (case_get_unlocked case_id) (\<lambda>test_case.
     andThen (list_of TestPlans) (\<lambda>plans.
     andThen (ensure (\<not> (\<exists>p \<in> set plans. tc_id test_case \<in> set (tp_case_ids p)))
       (ConflictError ''the test case is referenced by a test plan'')) (\<lambda>_.
     andThen (list_of Defects) (\<lambda>defects.
     andThen (ensure (\<not> (\<exists>d \<in> set defects. df_case_id d = Some (tc_id test_case)))
       (ConflictError ''the test case is referenced by a defect'')) (\<lambda>_.
     andThen (delete_in TestCases upd_cases (tc_id test_case)) (\<lambda>_.
     ret (tc_id test_case)))))))"

section \<open>Simulation\<close>

lemma wp_require_suite [wp_intros]:
  assumes "\<And>x. E x s"
    and "\<And>x. suite_of_project (world_of (biz s)) p (Some k) \<Longrightarrow> climb_suites (TestSuites s) [] x = Inr () \<Longrightarrow> Q x s"
  shows "wp (require_active_suite p k) Q E s"
  unfolding require_active_suite_def by (intro wp_intros assms) (auto simp: suite_of_project_def)

lemmas case_defs = case_get_unlocked_def case_require_active_project_def

lemma no_suite [simp]: "suite_of_project w p None"
  by (simp add: suite_of_project_def)

lemma case_create_simulated: "simulated (case_create payload)"
  unfolding case_create_def case_defs
  apply (intro allI wp_intros; simp add: refines_same)
  by (rule refines_create_case, assumption, simp, rule qa_step.case_create,
      simp_all add: normalize_tags_normal)+

lemma case_list_simulated: "simulated (case_list p st k u)"
  unfolding case_list_def by (intro allI wp_intros; simp add: refines_same)

lemma case_get_simulated: "simulated (case_get_unlocked i)"
  unfolding case_defs by (intro allI wp_intros; simp add: refines_same)

lemma set_tags_normal:
  "\<not> tags_normal (set_to (map_option normalize_tags v) old) \<Longrightarrow> set_to (map_option normalize_tags v) old = old"
  by (cases v) (simp_all add: set_to_def normalize_tags_normal)

lemma case_update_simulated: "simulated (case_update i payload)"
  unfolding case_update_def case_defs
  apply (intro allI wp_intros; simp add: refines_same)
  by (rule refines_update_case, assumption, simp, rule qa_step.case_edit,
      auto simp: stored_ids intro: set_tags_normal)+

lemma case_transitions_iff:
  "target \<in> case_transitions st \<longleftrightarrow>
     (st, target) \<in> {(CaseDraft, CaseActive), (CaseActive, CaseDisabled), (CaseDisabled, CaseActive)}"
  by (cases st) auto

lemma case_transition_simulated: "simulated (case_transition i target)"
  unfolding case_transition_def case_defs
  apply (intro allI wp_intros; simp add: refines_same)
  by (rule refines_update_case, assumption, simp, rule qa_step.case_status,
      auto simp: stored_ids case_transitions_iff)+

lemma case_delete_simulated: "simulated (case_delete i)"
  unfolding case_delete_def case_defs
  apply (intro allI wp_intros; simp add: refines_same)
  apply (rule refines_delete_case, assumption, simp)
  by (rule qa_step.case_delete) (auto simp: ball_lists)

end
