(* ===== verification/Test_Plans.thy ===== *)
theory Test_Plans
  imports Test_Cases
begin

text \<open>
  \<open>services/test_plans.py\<close>: a plan is edited as a draft, made ready when all its cases are
  active, and moved on only by its execution.
\<close>

record TestPlanCreate =
  plc_project_id :: text_t
  plc_name :: text_t
  plc_description :: text_t
  plc_case_ids :: "text_t list"

record TestPlanUpdate =
  plu_name :: "text_t option"
  plu_description :: "text_t option"
  plu_case_ids :: "text_t list option"

text \<open>\<open>_USER_TRANSITIONS\<close>.\<close>

fun plan_user_transitions :: "TestPlanStatus \<Rightarrow> TestPlanStatus set" where
  "plan_user_transitions PlanDraft = {PlanReady}"
| "plan_user_transitions PlanReady = {PlanDraft}"
| "plan_user_transitions PlanRunning = {}"
| "plan_user_transitions PlanCompleted = {}"
| "plan_user_transitions PlanCancelled = {}"

definition plan_require_active_project :: "uuid \<Rightarrow> Project service" where
  "plan_require_active_project =
     require_active_project ''an archived project cannot create or run test plans''"

definition plan_get_unlocked :: "id_arg \<Rightarrow> TestPlan service" where
  "plan_get_unlocked plan_id =
     andThen (from_sum (parse_uuid plan_id ''plan_id'')) (\<lambda>parsed_id.
     andThen (get_in TestPlans parsed_id) (\<lambda>plan.
     from_option (NotFoundError ''test plan'' (str_of_uuid parsed_id)) plan))"

text \<open>The loop body and the loop of \<open>_validate_cases\<close>.\<close>

definition validate_case :: "uuid \<Rightarrow> bool \<Rightarrow> uuid \<Rightarrow> unit service" where
  "validate_case project_id require_active case_id =
     andThen (get_in TestCases case_id) (\<lambda>found.
     andThen (from_option (NotFoundError ''test case'' (str_of_uuid case_id)) found) (\<lambda>test_case.
     andThen (ensure (tc_project_id test_case = project_id)
       (ConflictError ''a test plan can only reference cases of its project'')) (\<lambda>_.
     ensure (\<not> (require_active \<and> tc_status test_case \<noteq> CaseActive))
       (InvalidStateError (''test case is not enabled: '' @ str_of_uuid case_id)))))"

definition validate_cases :: "uuid \<Rightarrow> uuid list \<Rightarrow> bool \<Rightarrow> unit service" where
  "validate_cases project_id case_ids require_active =
     andThen (ensure (distinct case_ids) (ConflictError ''a test plan cannot contain duplicate cases'')) (\<lambda>_.
     for_each (validate_case project_id require_active) case_ids)"

definition parse_case_ids :: "text_t list \<Rightarrow> domain_error + uuid list" where
  "parse_case_ids values = map_result (\<lambda>v. parse_uuid (IdText v) ''case_id'') values"

definition plan_create :: "TestPlanCreate \<Rightarrow> TestPlan service" where
  "plan_create payload =
     andThen (from_sum (parse_uuid (IdText (plc_project_id payload)) ''project_id'')) (\<lambda>project_id.
     andThen (plan_require_active_project project_id) (\<lambda>_.
     andThen (from_sum (parse_case_ids (plc_case_ids payload))) (\<lambda>case_ids.
     andThen (validate_cases project_id case_ids False) (\<lambda>_.
     andThen uuid4 (\<lambda>i.
     andThen utc_now (\<lambda>t1.
     andThen utc_now (\<lambda>t2.
     store TestPlans upd_plans (repo_create tp_id [])
       \<lparr>tp_id = i, tp_project_id = project_id, tp_name = plc_name payload,
        tp_description = plc_description payload, tp_case_ids = case_ids, tp_status = PlanDraft,
        tp_created_at = t1, tp_updated_at = t2\<rparr>)))))))"

definition plan_list :: "id_arg option \<Rightarrow> TestPlanStatus option \<Rightarrow> TestPlan list service" where
  "plan_list project_id status =
     andThen (list_of TestPlans) (\<lambda>items.
     andThen (from_sum (parse_uuid_opt project_id ''project_id'')) (\<lambda>parsed.
     let i1 = (case parsed of None \<Rightarrow> items | Some p \<Rightarrow> filter (\<lambda>x. tp_project_id x = p) items);
         i2 = (case status of None \<Rightarrow> i1 | Some st \<Rightarrow> filter (\<lambda>x. tp_status x = st) i1)
     in ret (sort_key tp_created_at i2)))"

definition plan_update :: "id_arg \<Rightarrow> TestPlanUpdate \<Rightarrow> TestPlan service" where
  "plan_update plan_id payload =
     andThen (plan_get_unlocked plan_id) (\<lambda>plan.
     andThen (ensure (tp_status plan = PlanDraft)
       (InvalidStateError ''only a draft test plan can be edited'')) (\<lambda>_.
     andThen
       (case plu_case_ids payload of
          None \<Rightarrow> ret (tp_case_ids plan)
        | Some values \<Rightarrow>
            andThen (from_sum (parse_case_ids values)) (\<lambda>case_ids.
            andThen (validate_cases (tp_project_id plan) case_ids False) (\<lambda>_.
            ret case_ids))) (\<lambda>case_ids.
     andThen utc_now (\<lambda>now.
     store TestPlans upd_plans (repo_update tp_id [])
       (plan\<lparr>tp_name := set_to (plu_name payload) (tp_name plan),
             tp_description := set_to (plu_description payload) (tp_description plan),
             tp_case_ids := case_ids, tp_updated_at := now\<rparr>)))))"

definition plan_set_status_unlocked :: "id_arg \<Rightarrow> TestPlanStatus \<Rightarrow> TestPlan service" where
  "plan_set_status_unlocked plan_id target =
     andThen (plan_get_unlocked plan_id) (\<lambda>plan.
     andThen utc_now (\<lambda>now.
     store TestPlans upd_plans (repo_update tp_id []) (plan\<lparr>tp_status := target, tp_updated_at := now\<rparr>)))"

definition plan_transition :: "id_arg \<Rightarrow> TestPlanStatus \<Rightarrow> TestPlan service" where
  "plan_transition plan_id target =
     andThen (plan_get_unlocked plan_id) (\<lambda>plan.
     if tp_status plan = target then ret plan
     else
       andThen (ensure (target \<in> plan_user_transitions (tp_status plan))
         (InvalidStateError ''the test plan cannot change to this status'')) (\<lambda>_.
       andThen
         (if target = PlanReady then
            andThen (plan_require_active_project (tp_project_id plan)) (\<lambda>_.
            andThen (ensure (tp_case_ids plan \<noteq> [])
              (InvalidStateError ''an empty test plan cannot become ready'')) (\<lambda>_.
            validate_cases (tp_project_id plan) (tp_case_ids plan) True))
          else ret ()) (\<lambda>_.
       andThen
         (if target = PlanDraft then
            andThen (list_of Executions) (\<lambda>executions.
            ensure (\<not> (\<exists>e \<in> set executions. ex_plan_id e = tp_id plan))
              (InvalidStateError ''a test plan with executions cannot go back to draft''))
          else ret ()) (\<lambda>_.
       plan_set_status_unlocked (IdUuid (tp_id plan)) target))))"

definition plan_delete :: "id_arg \<Rightarrow> uuid service" where
  "plan_delete plan_id =
     andThen (plan_get_unlocked plan_id) (\<lambda>plan.
     andThen (ensure (tp_status plan \<in> {PlanDraft, PlanReady})
       (InvalidStateError ''a test plan that ran cannot be deleted'')) (\<lambda>_.
     andThen (list_of Executions) (\<lambda>executions.
     andThen (ensure (\<not> (\<exists>e \<in> set executions. ex_plan_id e = tp_id plan))
       (ConflictError ''the test plan has executions'')) (\<lambda>_.
     andThen (delete_in TestPlans upd_plans (tp_id plan)) (\<lambda>_.
     ret (tp_id plan))))))"

section \<open>Simulation\<close>

text \<open>The loop of \<open>_validate_cases\<close> changes nothing and succeeds only on cases of the project.\<close>

definition case_fits :: "qa \<Rightarrow> uuid \<Rightarrow> bool \<Rightarrow> uuid \<Rightarrow> bool" where
  "case_fits s project_id act c \<longleftrightarrow> (\<exists>tc. repo_get (TestCases s) c = Some tc \<and>
     tc_project_id tc = project_id \<and> (act \<longrightarrow> tc_status tc = CaseActive))"

lemma wp_validate_cases [wp_intros]:
  assumes "\<And>x. E x s"
    and "distinct cs \<Longrightarrow> \<forall>c \<in> set cs. case_fits s p act c \<Longrightarrow> Q () s"
  shows "wp (validate_cases p cs act) Q E s"
  unfolding validate_cases_def validate_case_def
  by (intro wp_intros assms wp_for_each_check [where P = "case_fits s p act"]) (auto simp: case_fits_def)

lemmas plan_defs = plan_get_unlocked_def plan_require_active_project_def

lemma plan_create_simulated: "simulated (plan_create payload)"
  unfolding plan_create_def plan_defs
  apply (intro allI wp_intros; simp add: refines_same)
  by (rule refines_create_plan, assumption, simp, rule qa_step.plan_create)
    (auto simp: plan_cases_ok_def case_fits_def)

lemma plan_list_simulated: "simulated (plan_list p st)"
  unfolding plan_list_def by (intro allI wp_intros; simp add: refines_same)

lemma plan_get_simulated: "simulated (plan_get_unlocked i)"
  unfolding plan_defs by (intro allI wp_intros; simp add: refines_same)

lemma plan_update_simulated: "simulated (plan_update i payload)"
  unfolding plan_update_def plan_defs
  apply (intro allI wp_intros; simp add: refines_same)
  by (rule refines_update_plan, assumption, simp, rule qa_step.plan_edit,
      auto simp: stored_ids plan_cases_ok_def case_fits_def)+

lemma plan_user_transitions_iff:
  "target \<in> plan_user_transitions st \<longleftrightarrow> (st, target) \<in> {(PlanDraft, PlanReady), (PlanReady, PlanDraft)}"
  by (cases st) auto

lemma plan_transition_simulated: "simulated (plan_transition i target)"
  unfolding plan_transition_def plan_set_status_unlocked_def plan_defs plan_user_transitions_iff
  apply (intro allI wp_intros; simp add: refines_same)
   apply (rule refines_update_plan, assumption, simp, rule qa_step.plan_ready,
      auto simp: stored_ids case_fits_def)[1]
  by (rule refines_update_plan, assumption, simp, rule qa_step.plan_back,
      auto simp: stored_ids ball_lists)

lemma plan_delete_simulated: "simulated (plan_delete i)"
  unfolding plan_delete_def plan_defs
  apply (intro allI wp_intros; simp add: refines_same)
  apply (rule refines_delete_plan, assumption, simp)
  by (rule qa_step.plan_delete) (auto simp: ball_lists stored_ids)

end
