(* ===== verification/Executions.thy ===== *)
theory Executions
  imports Test_Plans
begin

text \<open>
  \<open>services/executions.py\<close>: the run of a ready plan. Starting, completing and cancelling an
  execution set the status of its plan first and the execution second; both happen under
  the business lock, so together they are one step of the specification.
\<close>

definition exec_require_active_project :: "uuid \<Rightarrow> Project service" where
  "exec_require_active_project =
     require_active_project ''an archived project cannot create or start executions''"

definition exec_get_unlocked :: "id_arg \<Rightarrow> TestExecution service" where
  "exec_get_unlocked execution_id =
     andThen (from_sum (parse_uuid execution_id ''execution_id'')) (\<lambda>parsed_id.
     andThen (get_in Executions parsed_id) (\<lambda>execution.
     from_option (NotFoundError ''test execution'' (str_of_uuid parsed_id)) execution))"

text \<open>The loop body that turns a case of the plan into an empty result.\<close>

definition initial_result :: "uuid \<Rightarrow> CaseExecutionResult service" where
  "initial_result case_id =
     andThen (get_in TestCases case_id) (\<lambda>found.
     andThen (from_option (NotFoundError ''test case'' (str_of_uuid case_id)) found) (\<lambda>test_case.
     ret \<lparr>cr_case_id = tc_id test_case, cr_case_title = tc_title test_case, cr_status = NotRun,
          cr_actual_result = [], cr_comment = [], cr_executed_at = None\<rparr>))"

definition exec_create :: "id_arg \<Rightarrow> TestExecution service" where
  "exec_create plan_id =
     andThen (plan_get_unlocked plan_id) (\<lambda>plan.
     andThen (exec_require_active_project (tp_project_id plan)) (\<lambda>_.
     andThen (ensure (tp_status plan = PlanReady)
       (InvalidStateError ''only a ready test plan can be executed'')) (\<lambda>_.
     andThen (list_of Executions) (\<lambda>existing.
     andThen (ensure (\<not> (\<exists>x \<in> set existing. ex_plan_id x = tp_id plan))
       (ConflictError ''the test plan already has an execution'')) (\<lambda>_.
     andThen (map_each initial_result (tp_case_ids plan)) (\<lambda>results.
     andThen uuid4 (\<lambda>i.
     andThen utc_now (\<lambda>t1.
     andThen utc_now (\<lambda>t2.
     store Executions upd_executions (repo_create ex_id [])
       \<lparr>ex_id = i, ex_plan_id = tp_id plan, ex_project_id = tp_project_id plan, ex_status = ExecCreated,
        ex_results = results, ex_created_at = t1, ex_updated_at = t2, ex_started_at = None,
        ex_completed_at = None\<rparr>)))))))))"

definition exec_list :: "id_arg option \<Rightarrow> ExecutionStatus option \<Rightarrow> TestExecution list service" where
  "exec_list plan_id status =
     andThen (list_of Executions) (\<lambda>items.
     andThen (from_sum (parse_uuid_opt plan_id ''plan_id'')) (\<lambda>parsed.
     let i1 = (case parsed of None \<Rightarrow> items | Some p \<Rightarrow> filter (\<lambda>x. ex_plan_id x = p) items);
         i2 = (case status of None \<Rightarrow> i1 | Some st \<Rightarrow> filter (\<lambda>x. ex_status x = st) i1)
     in ret (sort_key ex_created_at i2)))"

definition exec_transition :: "id_arg \<Rightarrow> ExecutionStatus \<Rightarrow> TestExecution service" where
  "exec_transition execution_id target =
     andThen (exec_get_unlocked execution_id) (\<lambda>execution.
     if ex_status execution = target then ret execution
     else if target = ExecRunning then
       andThen (ensure (ex_status execution = ExecCreated)
         (InvalidStateError ''only a new execution can start'')) (\<lambda>_.
       andThen (exec_require_active_project (ex_project_id execution)) (\<lambda>_.
       andThen (plan_get_unlocked (IdUuid (ex_plan_id execution))) (\<lambda>plan.
       andThen (ensure (tp_status plan = PlanReady)
         (InvalidStateError ''the test plan is no longer ready'')) (\<lambda>_.
       andThen utc_now (\<lambda>now.
       andThen (plan_set_status_unlocked (IdUuid (ex_plan_id execution)) PlanRunning) (\<lambda>_.
       store Executions upd_executions (repo_update ex_id [])
         (execution\<lparr>ex_status := target, ex_started_at := Some now, ex_updated_at := now\<rparr>)))))))
     else if target = ExecCompleted then
       andThen (ensure (ex_status execution = ExecRunning)
         (InvalidStateError ''only a running execution can complete'')) (\<lambda>_.
       andThen (ensure (filter (\<lambda>r. cr_status r = NotRun) (ex_results execution) = [])
         (InvalidStateError ''some cases were not run'')) (\<lambda>_.
       andThen utc_now (\<lambda>now.
       andThen (plan_set_status_unlocked (IdUuid (ex_plan_id execution)) PlanCompleted) (\<lambda>_.
       store Executions upd_executions (repo_update ex_id [])
         (execution\<lparr>ex_status := target, ex_completed_at := Some now, ex_updated_at := now\<rparr>)))))
     else if target = ExecCancelled then
       andThen (ensure (ex_status execution \<in> {ExecCreated, ExecRunning})
         (InvalidStateError ''the execution cannot be cancelled'')) (\<lambda>_.
       andThen utc_now (\<lambda>now.
       andThen (plan_set_status_unlocked (IdUuid (ex_plan_id execution)) PlanCancelled) (\<lambda>_.
       store Executions upd_executions (repo_update ex_id [])
         (execution\<lparr>ex_status := target, ex_completed_at := Some now, ex_updated_at := now\<rparr>))))
     else raise (InvalidStateError ''unsupported target status''))"

text \<open>The loop body of \<open>update_case_result\<close>: every matching result is replaced, at its own time.\<close>

definition record_result ::
  "uuid \<Rightarrow> CaseResultStatus \<Rightarrow> text_t \<Rightarrow> text_t \<Rightarrow> CaseExecutionResult \<Rightarrow> CaseExecutionResult service" where
  "record_result case_id status actual_result comment result =
     (if cr_case_id result = case_id then
        andThen utc_now (\<lambda>now.
        ret (result\<lparr>cr_status := status, cr_actual_result := actual_result, cr_comment := comment,
                    cr_executed_at := Some now\<rparr>))
      else ret result)"

definition update_case_result ::
  "id_arg \<Rightarrow> id_arg \<Rightarrow> CaseResultStatus \<Rightarrow> text_t \<Rightarrow> text_t \<Rightarrow> TestExecution service" where
  "update_case_result execution_id case_id status actual_result comment =
     andThen (exec_get_unlocked execution_id) (\<lambda>execution.
     andThen (ensure (ex_status execution = ExecRunning)
       (InvalidStateError ''results are recorded only while the execution runs'')) (\<lambda>_.
     andThen (ensure (status \<noteq> NotRun)
       (InvalidStateError ''a result cannot be set back to not_run'')) (\<lambda>_.
     andThen (from_sum (parse_uuid case_id ''case_id'')) (\<lambda>parsed_case_id.
     andThen (map_each (record_result parsed_case_id status actual_result comment) (ex_results execution)) (\<lambda>results.
     andThen (ensure (\<exists>r \<in> set (ex_results execution). cr_case_id r = parsed_case_id)
       (NotFoundError ''test case of the execution'' (str_of_uuid parsed_case_id))) (\<lambda>_.
     andThen utc_now (\<lambda>now.
     store Executions upd_executions (repo_update ex_id [])
       (execution\<lparr>ex_results := results, ex_updated_at := now\<rparr>))))))))"

definition exec_delete :: "id_arg \<Rightarrow> uuid service" where
  "exec_delete execution_id =
     andThen (exec_get_unlocked execution_id) (\<lambda>execution.
     andThen (ensure (ex_status execution = ExecCreated)
       (InvalidStateError ''only an execution that has not started can be deleted'')) (\<lambda>_.
     andThen (list_of Defects) (\<lambda>defects.
     andThen (ensure (\<not> (\<exists>d \<in> set defects. df_execution_id d = Some (ex_id execution)))
       (ConflictError ''the execution is referenced by a defect'')) (\<lambda>_.
     andThen (delete_in Executions upd_executions (ex_id execution)) (\<lambda>_.
     ret (ex_id execution))))))"

section \<open>Simulation\<close>

lemmas exec_defs = exec_get_unlocked_def exec_require_active_project_def plan_get_unlocked_def
  plan_set_status_unlocked_def

definition fresh_result :: "uuid \<Rightarrow> CaseExecutionResult \<Rightarrow> bool" where
  "fresh_result c r \<longleftrightarrow> cr_case_id r = c \<and> cr_status r = NotRun \<and> cr_executed_at r = None"

lemma wp_initial_results [wp_intros]:
  assumes "\<And>x. E x s"
    and "\<And>rs. (biz_ok (biz s) \<longrightarrow> list_all2 fresh_result cs rs) \<Longrightarrow> Q rs s"
  shows "wp (map_each initial_result cs) Q E s"
  unfolding initial_result_def
  by (intro wp_intros wp_map_each [where I = "\<lambda>t. t = s" and R = "\<lambda>c r. biz_ok (biz s) \<longrightarrow> fresh_result c r"])
    (auto simp: fresh_result_def stored_ids intro!: assms elim!: list_all2_mono)

definition recorded :: "uuid \<Rightarrow> CaseResultStatus \<Rightarrow> CaseExecutionResult \<Rightarrow> CaseExecutionResult \<Rightarrow> bool" where
  "recorded c st r r' \<longleftrightarrow> cr_case_id r' = cr_case_id r \<and>
     (if cr_case_id r = c then cr_status r' = st \<and> cr_executed_at r' \<noteq> None else r' = r)"

lemma wp_record_results [wp_intros]:
  assumes "\<And>rs t. list_all2 (recorded c st) xs rs \<Longrightarrow> biz t = biz s \<Longrightarrow> Q rs t"
  shows "wp (map_each (record_result c st a k) xs) Q E s"
  unfolding record_result_def
  by (intro wp_intros wp_map_each [where I = "\<lambda>t. biz t = biz s" and R = "recorded c st"])
    (auto simp: recorded_def intro!: assms elim!: list_all2_mono)

lemma fresh_results:
  assumes "list_all2 fresh_result cs rs"
  shows "map cr_case_id rs = cs" "\<forall>r \<in> set rs. cr_status r = NotRun \<and> cr_executed_at r = None"
  using assms by (induction rule: list_all2_induct) (auto simp: fresh_result_def)

lemma recorded_results:
  assumes "list_all2 (recorded c st) xs rs" "st \<noteq> NotRun"
  shows "map cr_case_id rs = map cr_case_id xs" "\<forall>r \<in> set xs. result_ok r \<Longrightarrow> \<forall>r \<in> set rs. result_ok r"
  using assms by (induction rule: list_all2_induct) (auto simp: recorded_def result_ok_def split: if_splits)

lemma recorded_execution:
  assumes "list_all2 (recorded c st) (ex_results d) rs" "st \<noteq> NotRun" "ex_status d = ExecRunning"
    "execution_ok d"
  shows "execution_ok (d\<lparr>ex_results := rs, ex_updated_at := now\<rparr>)"
  using recorded_results(2) [OF assms(1,2)] assms(3,4) by (simp add: execution_ok_def)

lemma exec_create_simulated: "simulated (exec_create i)"
  unfolding exec_create_def exec_defs
  apply (intro allI wp_intros; simp add: refines_same)
  apply (rule refines_create_execution, assumption, simp)
  by (rule qa_step.exec_create)
    (auto simp: ball_lists stored_ids fresh_results execution_ok_def result_ok_def)

lemma exec_list_simulated: "simulated (exec_list p st)"
  unfolding exec_list_def by (intro allI wp_intros; simp add: refines_same)

lemma exec_get_simulated: "simulated (exec_get_unlocked i)"
  unfolding exec_defs by (intro allI wp_intros; simp add: refines_same)

text \<open>The second update of a transition cannot fail: the execution was just read.\<close>

lemma refines_impossible:
  assumes "repo_update ex_id [] e (executions (biz s)) = Inl x"
    and "repo_get (executions (biz s)) k = Some d" and "ex_id e = ex_id d"
  shows "refines s t"
  using repo_update_fails [OF assms(1)] assms(2,3) by (auto simp: refines_def stored_ids)

lemma exec_transition_simulated: "simulated (exec_transition i target)"
  unfolding exec_transition_def exec_defs
  apply (intro allI wp_intros; simp add: refines_same)
       apply (erule refines_impossible, assumption, simp)
      apply (rule refines_update_plan_execution, assumption, assumption, simp)
      apply (rule qa_step.exec_start; auto simp: stored_ids execution_ok_def)
     apply (erule refines_impossible, assumption, simp)
    apply (rule refines_update_plan_execution, assumption, assumption, simp)
    apply (rule qa_step.exec_finish; auto simp: stored_ids execution_ok_def filter_empty_conv)
   apply (erule refines_impossible, assumption, simp)
  apply (rule refines_update_plan_execution, assumption, assumption, simp)
  by (rule qa_step.exec_cancel; auto simp: stored_ids execution_ok_def)

lemma update_case_result_simulated: "simulated (update_case_result i c st a k)"
  unfolding update_case_result_def exec_defs
  apply (intro allI wp_intros; simp add: refines_same)
  apply (rule refines_update_execution, assumption, simp)
  by (rule qa_step.exec_record) (auto simp: stored_ids recorded_execution dest: recorded_results(1))

lemma exec_delete_simulated: "simulated (exec_delete i)"
  unfolding exec_delete_def exec_defs
  apply (intro allI wp_intros; simp add: refines_same)
  apply (rule refines_delete_execution, assumption, simp)
  by (rule qa_step.exec_delete) (auto simp: ball_lists stored_ids)

end
