(* ===== verification/Defects.thy ===== *)
theory Defects
  imports Executions
begin

text \<open>
  \<open>services/defects.py\<close>: the life cycle of a defect and its audit trail.
\<close>

section \<open>Operations\<close>

record DefectCreate =
  dc_project_id :: text_t
  dc_case_id :: "text_t option"
  dc_execution_id :: "text_t option"
  dc_title :: text_t
  dc_description :: text_t
  dc_severity :: DefectSeverity
  dc_priority :: Priority
  dc_reporter :: text_t
  dc_assignee :: text_t
  dc_environment :: text_t
  dc_reproduction_steps :: "text_t list"
  dc_expected_result :: text_t
  dc_actual_result :: text_t

record DefectUpdate =
  du_title :: "text_t option"
  du_description :: "text_t option"
  du_severity :: "DefectSeverity option"
  du_priority :: "Priority option"
  du_assignee :: "text_t option"
  du_environment :: "text_t option"
  du_reproduction_steps :: "text_t list option"
  du_expected_result :: "text_t option"
  du_actual_result :: "text_t option"

record DefectTransition =
  dt_status :: DefectStatus
  dt_resolution :: "text_t option"
  dt_comment :: text_t

text \<open>\<open>_TRANSITIONS\<close>.\<close>

fun defect_transitions :: "DefectStatus \<Rightarrow> DefectStatus set" where
  "defect_transitions DefectOpen = {InProgress, Resolved}"
| "defect_transitions InProgress = {DefectOpen, Resolved}"
| "defect_transitions Resolved = {Verified, Reopened}"
| "defect_transitions Verified = {DefectClosed, Reopened}"
| "defect_transitions DefectClosed = {Reopened}"
| "defect_transitions Reopened = {InProgress, Resolved}"

text \<open>
  The audited fields in the order of \<open>_AUDITED_FIELDS\<close>, each with the value that
  \<open>_audit_value\<close> gives for it.
\<close>

definition audit_fields :: "Defect \<Rightarrow> (text_t \<times> json) list" where
  "audit_fields d =
     [(''project_id'', json_uuid (df_project_id d)),
      (''case_id'', json_opt json_uuid (df_case_id d)),
      (''execution_id'', json_opt json_uuid (df_execution_id d)),
      (''title'', JStr (df_title d)),
      (''description'', JStr (df_description d)),
      (''severity'', JStr (severity_value (df_severity d))),
      (''priority'', JStr (priority_value (df_priority d))),
      (''status'', JStr (defect_status_value (df_status d))),
      (''reporter'', JStr (df_reporter d)),
      (''assignee'', JStr (df_assignee d)),
      (''environment'', JStr (df_environment d)),
      (''reproduction_steps'', JList (map JStr (df_reproduction_steps d))),
      (''expected_result'', JStr (df_expected_result d)),
      (''actual_result'', JStr (df_actual_result d)),
      (''resolution'', JStr (df_resolution d)),
      (''resolved_at'', json_opt (\<lambda>t. JStr (isoformat t)) (df_resolved_at d)),
      (''closed_at'', json_opt (\<lambda>t. JStr (isoformat t)) (df_closed_at d))]"

definition audit_value :: "Defect \<Rightarrow> text_t \<Rightarrow> json" where
  "audit_value d field = (case map_of (audit_fields d) field of None \<Rightarrow> JNull | Some v \<Rightarrow> v)"

definition creation_changes :: "Defect \<Rightarrow> (text_t \<times> AuditChange) list" where
  "creation_changes d = map (\<lambda>(field, v). (field, change JNull v)) (audit_fields d)"

text \<open>
  Whether \<open>getattr(before, field) != getattr(after, field)\<close>, on the values themselves.
\<close>

definition field_differs :: "Defect \<Rightarrow> Defect \<Rightarrow> text_t \<Rightarrow> bool" where
  "field_differs a b field =
     (if field = ''title'' then df_title a \<noteq> df_title b
      else if field = ''description'' then df_description a \<noteq> df_description b
      else if field = ''severity'' then df_severity a \<noteq> df_severity b
      else if field = ''priority'' then df_priority a \<noteq> df_priority b
      else if field = ''status'' then df_status a \<noteq> df_status b
      else if field = ''assignee'' then df_assignee a \<noteq> df_assignee b
      else if field = ''environment'' then df_environment a \<noteq> df_environment b
      else if field = ''reproduction_steps'' then df_reproduction_steps a \<noteq> df_reproduction_steps b
      else if field = ''expected_result'' then df_expected_result a \<noteq> df_expected_result b
      else if field = ''actual_result'' then df_actual_result a \<noteq> df_actual_result b
      else if field = ''resolution'' then df_resolution a \<noteq> df_resolution b
      else if field = ''resolved_at'' then df_resolved_at a \<noteq> df_resolved_at b
      else if field = ''closed_at'' then df_closed_at a \<noteq> df_closed_at b
      else False)"

definition changes_between :: "Defect \<Rightarrow> Defect \<Rightarrow> text_t list \<Rightarrow> (text_t \<times> AuditChange) list" where
  "changes_between before after names =
     map (\<lambda>field. (field, change (audit_value before field) (audit_value after field)))
       (filter (field_differs before after) names)"

definition defect_require_active_project :: "uuid \<Rightarrow> Project service" where
  "defect_require_active_project =
     require_active_project ''an archived project cannot add or change defects''"

definition defect_get_unlocked :: "id_arg \<Rightarrow> Defect service" where
  "defect_get_unlocked defect_id =
     andThen (from_sum (parse_uuid defect_id ''defect_id'')) (\<lambda>parsed_id.
     andThen (get_in Defects parsed_id) (\<lambda>defect.
     from_option (NotFoundError ''defect'' (str_of_uuid parsed_id)) defect))"

definition validate_associations :: "uuid \<Rightarrow> uuid option \<Rightarrow> uuid option \<Rightarrow> unit service" where
  "validate_associations project_id case_id execution_id =
     andThen
       (case case_id of None \<Rightarrow> ret None
        | Some c \<Rightarrow>
            andThen (get_in TestCases c) (\<lambda>found.
            andThen (from_option (NotFoundError ''test case'' (str_of_uuid c)) found) (\<lambda>test_case.
            andThen (ensure (tc_project_id test_case = project_id)
              (ConflictError ''a defect can only reference test cases of its project'')) (\<lambda>_.
            ret (Some test_case))))) (\<lambda>test_case.
     andThen
       (case execution_id of None \<Rightarrow> ret None
        | Some e \<Rightarrow>
            andThen (get_in Executions e) (\<lambda>found.
            andThen (from_option (NotFoundError ''test execution'' (str_of_uuid e)) found) (\<lambda>execution.
            andThen (ensure (ex_project_id execution = project_id)
              (ConflictError ''a defect can only reference executions of its project'')) (\<lambda>_.
            andThen (ensure (ex_status execution \<noteq> ExecCreated)
              (InvalidStateError ''an execution that has not started cannot have defects'')) (\<lambda>_.
            ret (Some execution)))))) (\<lambda>execution.
     case test_case of None \<Rightarrow> ret ()
     | Some tc \<Rightarrow> (case execution of None \<Rightarrow> ret ()
         | Some ex \<Rightarrow> ensure (\<exists>r \<in> set (ex_results ex). cr_case_id r = tc_id tc)
             (ConflictError ''the test case does not belong to the execution''))))"

definition defect_audit ::
  "Defect \<Rightarrow> AuditAction \<Rightarrow> (text_t \<times> AuditChange) list \<Rightarrow> text_t \<Rightarrow> AuditEvent service" where
  "defect_audit d action changes comment =
     audit_record (Some (IdUuid (df_project_id d))) ''defect'' (IdUuid (df_id d)) action changes comment
       ''local-user'' None"

definition defect_create :: "DefectCreate \<Rightarrow> Defect service" where
  "defect_create payload =
     andThen (from_sum (parse_uuid (IdText (dc_project_id payload)) ''project_id'')) (\<lambda>project_id.
     andThen (defect_require_active_project project_id) (\<lambda>_.
     andThen (from_sum (parse_uuid_opt (map_option IdText (dc_case_id payload)) ''case_id'')) (\<lambda>case_id.
     andThen (from_sum (parse_uuid_opt (map_option IdText (dc_execution_id payload)) ''execution_id'')) (\<lambda>execution_id.
     andThen (validate_associations project_id case_id execution_id) (\<lambda>_.
     andThen get_current_actor (\<lambda>actor.
     andThen uuid4 (\<lambda>i.
     andThen utc_now (\<lambda>t1.
     andThen utc_now (\<lambda>t2.
     andThen (store Defects upd_defects (repo_create df_id [])
       \<lparr>df_id = i, df_project_id = project_id, df_case_id = case_id, df_execution_id = execution_id,
        df_title = dc_title payload, df_description = dc_description payload,
        df_severity = dc_severity payload, df_priority = dc_priority payload, df_status = DefectOpen,
        df_reporter = (case actor of Some a \<Rightarrow> act_username a | None \<Rightarrow> dc_reporter payload),
        df_assignee = dc_assignee payload, df_environment = dc_environment payload,
        df_reproduction_steps = dc_reproduction_steps payload,
        df_expected_result = dc_expected_result payload, df_actual_result = dc_actual_result payload,
        df_resolution = [], df_created_at = t1, df_updated_at = t2, df_resolved_at = None,
        df_closed_at = None\<rparr>) (\<lambda>created.
     andThen (defect_audit created Created (creation_changes created) []) (\<lambda>_.
     ret created)))))))))))"

definition defect_list ::
  "id_arg option \<Rightarrow> DefectStatus option \<Rightarrow> DefectSeverity option \<Rightarrow> text_t option \<Rightarrow> id_arg option \<Rightarrow>
   id_arg option \<Rightarrow> Defect list service" where
  "defect_list project_id status severity assignee case_id execution_id =
     andThen (list_of Defects) (\<lambda>items.
     andThen (from_sum (parse_uuid_opt project_id ''project_id'')) (\<lambda>p.
     let i1 = (case p of None \<Rightarrow> items | Some k \<Rightarrow> filter (\<lambda>x. df_project_id x = k) items);
         i2 = (case status of None \<Rightarrow> i1 | Some st \<Rightarrow> filter (\<lambda>x. df_status x = st) i1);
         i3 = (case severity of None \<Rightarrow> i2 | Some sv \<Rightarrow> filter (\<lambda>x. df_severity x = sv) i2);
         i4 = (case assignee of None \<Rightarrow> i3
               | Some a \<Rightarrow> filter (\<lambda>x. py_casefold (df_assignee x) = py_casefold (py_strip a)) i3) in
     andThen (from_sum (parse_uuid_opt case_id ''case_id'')) (\<lambda>c.
     let i5 = (case c of None \<Rightarrow> i4 | Some k \<Rightarrow> filter (\<lambda>x. df_case_id x = Some k) i4) in
     andThen (from_sum (parse_uuid_opt execution_id ''execution_id'')) (\<lambda>e.
     let i6 = (case e of None \<Rightarrow> i5 | Some k \<Rightarrow> filter (\<lambda>x. df_execution_id x = Some k) i5)
     in ret (sort_key df_created_at i6)))))"

text \<open>The fields an update sets, in the order of the payload class.\<close>

definition defect_set_fields :: "DefectUpdate \<Rightarrow> text_t list" where
  "defect_set_fields u = concat
     [if du_title u = None then [] else [''title''],
      if du_description u = None then [] else [''description''],
      if du_severity u = None then [] else [''severity''],
      if du_priority u = None then [] else [''priority''],
      if du_assignee u = None then [] else [''assignee''],
      if du_environment u = None then [] else [''environment''],
      if du_reproduction_steps u = None then [] else [''reproduction_steps''],
      if du_expected_result u = None then [] else [''expected_result''],
      if du_actual_result u = None then [] else [''actual_result'']]"

definition apply_defect_update :: "DefectUpdate \<Rightarrow> Defect \<Rightarrow> Defect" where
  "apply_defect_update u d =
     d\<lparr>df_title := set_to (du_title u) (df_title d),
       df_description := set_to (du_description u) (df_description d),
       df_severity := set_to (du_severity u) (df_severity d),
       df_priority := set_to (du_priority u) (df_priority d),
       df_assignee := set_to (du_assignee u) (df_assignee d),
       df_environment := set_to (du_environment u) (df_environment d),
       df_reproduction_steps := set_to (du_reproduction_steps u) (df_reproduction_steps d),
       df_expected_result := set_to (du_expected_result u) (df_expected_result d),
       df_actual_result := set_to (du_actual_result u) (df_actual_result d)\<rparr>"

definition defect_update :: "id_arg \<Rightarrow> DefectUpdate \<Rightarrow> Defect service" where
  "defect_update defect_id payload =
     andThen (defect_get_unlocked defect_id) (\<lambda>defect.
     andThen (ensure (df_status defect \<noteq> DefectClosed)
       (InvalidStateError ''a closed defect can only be reopened'')) (\<lambda>_.
     let changed = apply_defect_update payload defect;
         changed_fields = filter (field_differs defect changed) (defect_set_fields payload) in
     if changed_fields = [] then ret defect
     else
       andThen utc_now (\<lambda>now.
       let updated = changed\<lparr>df_updated_at := now\<rparr> in
       andThen (ensure (\<not> (df_status updated = InProgress \<and> py_strip (df_assignee updated) = []))
         (InvalidStateError ''a defect in progress must keep an assignee'')) (\<lambda>_.
       andThen (store Defects upd_defects (repo_update df_id []) updated) (\<lambda>saved.
       andThen (defect_audit saved Updated (changes_between defect saved changed_fields) []) (\<lambda>_.
       ret saved))))))"

text \<open>The fields a transition sets and the ones it audits, by the target status.\<close>

definition apply_defect_transition :: "DefectTransition \<Rightarrow> instant \<Rightarrow> Defect \<Rightarrow> Defect" where
  "apply_defect_transition payload now defect =
     (let d = defect\<lparr>df_status := dt_status payload, df_updated_at := now\<rparr> in
      if dt_status payload = Resolved
        then d\<lparr>df_resolution := (case dt_resolution payload of None \<Rightarrow> [] | Some r \<Rightarrow> r),
               df_resolved_at := Some now, df_closed_at := None\<rparr>
      else if dt_status payload = DefectClosed then d\<lparr>df_closed_at := Some now\<rparr>
      else if dt_status payload = Reopened
        then d\<lparr>df_resolution := [], df_resolved_at := None, df_closed_at := None\<rparr>
      else d)"

definition transition_audited_fields :: "DefectStatus \<Rightarrow> text_t list" where
  "transition_audited_fields target =
     ''status'' # (if target = Resolved \<or> target = Reopened then [''resolution'', ''resolved_at'', ''closed_at'']
                  else if target = DefectClosed then [''closed_at''] else [])"

definition defect_transition :: "id_arg \<Rightarrow> DefectTransition \<Rightarrow> Defect service" where
  "defect_transition defect_id payload =
     andThen (defect_get_unlocked defect_id) (\<lambda>defect.
     let target = dt_status payload in
     if df_status defect = target then ret defect
     else
       andThen (ensure (target \<in> defect_transitions (df_status defect))
         (InvalidStateError ''the defect cannot change to this status'')) (\<lambda>_.
       andThen (defect_require_active_project (df_project_id defect)) (\<lambda>_.
       andThen utc_now (\<lambda>now.
       andThen (ensure (\<not> (target = InProgress \<and> py_strip (df_assignee defect) = []))
         (InvalidStateError ''a defect needs an assignee before it goes in progress'')) (\<lambda>_.
       andThen (ensure (\<not> (target = Resolved \<and> (dt_resolution payload = None \<or> dt_resolution payload = Some [])))
         (InvalidStateError ''a resolution is required'')) (\<lambda>_.
       andThen (ensure (\<not> (target = Reopened \<and> dt_comment payload = []))
         (InvalidStateError ''a reason is required to reopen a defect'')) (\<lambda>_.
       andThen (store Defects upd_defects (repo_update df_id [])
         (apply_defect_transition payload now defect)) (\<lambda>saved.
       andThen (defect_audit saved StatusChanged
         (changes_between defect saved (transition_audited_fields target)) (dt_comment payload)) (\<lambda>_.
       ret saved)))))))))"

section \<open>Simulation\<close>

lemmas defect_defs = defect_get_unlocked_def defect_require_active_project_def defect_audit_def

lemma defect_transitions_iff: "target \<in> defect_transitions st \<longleftrightarrow> defect_move st target"
  by (cases st; cases target) (simp_all add: defect_move_def)

lemma apply_defect_update_keeps [simp]:
  "df_id (apply_defect_update u d) = df_id d" "df_project_id (apply_defect_update u d) = df_project_id d"
  "df_case_id (apply_defect_update u d) = df_case_id d"
  "df_execution_id (apply_defect_update u d) = df_execution_id d"
  "df_status (apply_defect_update u d) = df_status d"
  "df_resolution (apply_defect_update u d) = df_resolution d"
  "df_resolved_at (apply_defect_update u d) = df_resolved_at d"
  "df_closed_at (apply_defect_update u d) = df_closed_at d"
  by (simp_all add: apply_defect_update_def)

lemma apply_defect_transition_keeps [simp]:
  "df_id (apply_defect_transition p n d) = df_id d"
  "df_project_id (apply_defect_transition p n d) = df_project_id d"
  "df_case_id (apply_defect_transition p n d) = df_case_id d"
  "df_execution_id (apply_defect_transition p n d) = df_execution_id d"
  "df_status (apply_defect_transition p n d) = dt_status p"
  "df_assignee (apply_defect_transition p n d) = df_assignee d"
  by (simp_all add: apply_defect_transition_def Let_def)

lemma transition_state_ok:
  assumes "defect_state_ok d" "defect_move (df_status d) (dt_status p)"
    and "dt_status p = InProgress \<longrightarrow> py_strip (df_assignee d) \<noteq> []"
    and "dt_status p = Resolved \<longrightarrow> (\<exists>r. dt_resolution p = Some r \<and> r \<noteq> [])"
  shows "defect_state_ok (apply_defect_transition p n d)"
proof (cases "dt_status p = Resolved")
  case True
  then obtain r where "dt_resolution p = Some r" "r \<noteq> []" using assms(4) by blast
  then show ?thesis using True by (simp add: defect_state_ok_def apply_defect_transition_def)
next
  case False
  then show ?thesis
    using assms(1,2,3)
    by (cases "dt_status p"; cases "df_status d")
      (simp_all add: defect_state_ok_def defect_move_def apply_defect_transition_def)
qed

lemma wp_validate_associations [wp_intros]:
  assumes "\<And>x. E x s"
    and "(\<And>d. biz_ok (biz s) \<Longrightarrow> df_project_id d = p \<Longrightarrow> df_case_id d = c \<Longrightarrow> df_execution_id d = e \<Longrightarrow>
           defect_links_ok (world_of (biz s)) d) \<Longrightarrow> Q () s"
  shows "wp (validate_associations p c e) Q E s"
  unfolding validate_associations_def
  by (intro wp_intros assms) (auto simp: defect_links_ok_def stored_ids)

lemma defect_create_simulated: "simulated (defect_create payload)"
  unfolding defect_create_def defect_defs
  apply (intro allI sim_audit wp_intros; simp add: refines_same)
  apply (rule refines_create_defect, assumption, simp)
  by (rule qa_step.defect_create) (simp_all add: defect_state_ok_def)

lemma defect_list_simulated: "simulated (defect_list p st sv a c e)"
  unfolding defect_list_def by (intro allI wp_intros; simp add: refines_same)

lemma defect_get_simulated: "simulated (defect_get_unlocked i)"
  unfolding defect_defs by (intro allI wp_intros; simp add: refines_same)

lemma defect_update_simulated: "simulated (defect_update i payload)"
  unfolding defect_update_def defect_defs
  apply (intro allI sim_audit wp_intros; simp add: refines_same)
  apply (rule refines_update_defect, assumption, simp)
  by (rule qa_step.defect_edit) (auto simp: stored_ids defect_state_ok_def)

lemma defect_transition_simulated: "simulated (defect_transition i payload)"
  unfolding defect_transition_def defect_defs defect_transitions_iff
  apply (intro allI sim_audit wp_intros; simp add: refines_same)
  apply (rule refines_update_defect, assumption, simp)
  by (rule qa_step.defect_status) (auto simp: stored_ids intro!: transition_state_ok)

end
