(* ===== verification/Snapshots.thy ===== *)
theory Snapshots
  imports Defects
begin

text \<open>
  \<open>services/test_case_snapshots.py\<close>: numbered, immutable copies of the test cases of a project
  or of a suite and its descendants.
\<close>

section \<open>The suites of the scope\<close>

text \<open>The loop of \<open>_suite_scope_ids\<close>: add the children until nothing is added.\<close>

definition children_of :: "TestSuite list \<Rightarrow> uuid set \<Rightarrow> uuid set" where
  "children_of suites allowed =
     ts_id ` set (filter (\<lambda>s. case ts_parent_id s of None \<Rightarrow> False | Some p \<Rightarrow> p \<in> allowed) suites)"

function grow_scope :: "TestSuite list \<Rightarrow> uuid set \<Rightarrow> uuid set" where
  "grow_scope suites allowed =
     (let expanded = allowed \<union> children_of suites allowed
      in if expanded = allowed then allowed else grow_scope suites expanded)"
  by pat_completeness auto

termination
proof (relation "measure (\<lambda>(suites, allowed). card (ts_id ` set suites - allowed))", goal_cases)
  case (2 suites allowed expanded)
  then have "children_of suites allowed \<inter> - allowed \<noteq> {}" by blast
  moreover have "children_of suites allowed \<subseteq> ts_id ` set suites" by (auto simp: children_of_def)
  ultimately have "ts_id ` set suites - expanded \<subset> ts_id ` set suites - allowed" using 2 by blast
  then show ?case by (simp add: psubset_card_mono)
qed simp

declare grow_scope.simps [simp del]

definition suite_scope_ids :: "uuid \<Rightarrow> TestSuite list \<Rightarrow> bool \<Rightarrow> uuid set" where
  "suite_scope_ids root_id suites include_descendants =
     (if include_descendants then grow_scope suites {root_id} else {root_id})"

section \<open>The path of a suite\<close>

text \<open>A dict comprehension keeps the last value of a key.\<close>

definition suites_by_id :: "TestSuite list \<Rightarrow> (uuid \<times> TestSuite) list" where
  "suites_by_id suites = fold (\<lambda>s d. AList.update (ts_id s) s d) suites []"

function walk_path ::
  "(uuid \<times> TestSuite) list \<Rightarrow> uuid list \<Rightarrow> text_t list \<Rightarrow> uuid option \<Rightarrow> domain_error + text_t list" where
  "walk_path by_id visited names None = Inr (rev names)"
| "walk_path by_id visited names (Some current_id) =
     (if current_id \<in> set visited
        then Inl (ConflictError ''the suite hierarchy has a cycle, no snapshot can be made'')
      else case map_of by_id current_id of
          None \<Rightarrow> Inl (NotFoundError ''test suite'' (str_of_uuid current_id))
        | Some suite \<Rightarrow> walk_path by_id (current_id # visited) (names @ [ts_name suite]) (ts_parent_id suite))"
  by pat_completeness auto

termination
  by (relation "measure (\<lambda>(d, visited, _, _). card (fst ` set d - set visited))")
    (auto intro!: visit_decreases [unfolded repo_get_def] simp del: list.set)

definition suite_path :: "uuid option \<Rightarrow> (uuid \<times> TestSuite) list \<Rightarrow> domain_error + text_t list" where
  "suite_path suite_id by_id = walk_path by_id [] [] suite_id"

section \<open>Operations\<close>

record TestCaseSnapshotCreate =
  snc_project_id :: text_t
  snc_suite_id :: "text_t option"
  snc_label :: text_t
  snc_description :: text_t
  snc_include_descendants :: bool

definition snapshot_item ::
  "TestCase \<Rightarrow> int \<Rightarrow> (uuid \<times> TestSuite) list \<Rightarrow> domain_error + TestCaseSnapshotItem" where
  "snapshot_item c position by_id =
     bind_sum (suite_path (tc_suite_id c) by_id) (\<lambda>path.
     Inr \<lparr>si_source_case_id = tc_id c, si_source_suite_id = tc_suite_id c, si_suite_path = path,
          si_position = position, si_title = tc_title c, si_preconditions = tc_preconditions c,
          si_steps = tc_steps c, si_priority = tc_priority c, si_case_type = tc_case_type c,
          si_status = tc_status c, si_tags = tc_tags c, si_source_created_at = tc_created_at c,
          si_source_updated_at = tc_updated_at c\<rparr>)"

text \<open>\<open>sorted(cases, key=...)\<close>: the keys are computed first, and computing one may raise.\<close>

definition order_cases :: "(uuid \<times> TestSuite) list \<Rightarrow> TestCase list \<Rightarrow> domain_error + TestCase list" where
  "order_cases by_id cases =
     bind_sum (map_result (\<lambda>c. bind_sum (suite_path (tc_suite_id c) by_id)
         (\<lambda>path. Inr ((map py_casefold path, tc_created_at c, str_of_uuid (tc_id c)), c))) cases)
       (\<lambda>keyed. Inr (map snd (sort_key fst keyed)))"

definition snapshot_version :: "SnapshotScopeType \<Rightarrow> uuid \<Rightarrow> TestCaseSnapshot list \<Rightarrow> int" where
  "snapshot_version scope_type scope_id existing =
     (let versions = map sn_version
        (filter (\<lambda>s. sn_scope_type s = scope_type \<and> sn_scope_id s = scope_id) existing)
      in 1 + (if versions = [] then 0 else Max (set versions)))"

text \<open>Scope type, scope identifier, scope name, and the allowed suites when they are limited.\<close>

definition snapshot_scope ::
  "TestCaseSnapshotCreate \<Rightarrow> Project \<Rightarrow> TestSuite list \<Rightarrow>
   (SnapshotScopeType \<times> uuid \<times> text_t \<times> uuid set option) service" where
  "snapshot_scope payload project suites =
     (case snc_suite_id payload of
        None \<Rightarrow> ret (ScopeProject, prj_id project, prj_name project, None)
      | Some raw \<Rightarrow>
          andThen (from_sum (parse_uuid (IdText raw) ''suite_id'')) (\<lambda>suite_id.
          case map_of (suites_by_id suites) suite_id of
            None \<Rightarrow>
              andThen (get_in TestSuites suite_id) (\<lambda>existing.
              andThen (from_option (NotFoundError ''test suite'' (str_of_uuid suite_id)) existing) (\<lambda>_.
              raise (ConflictError ''the suite must belong to the project of the snapshot'')))
          | Some suite \<Rightarrow>
              ret (ScopeSuite, ts_id suite, ts_name suite,
                   Some (suite_scope_ids (ts_id suite) suites (snc_include_descendants payload)))))"

definition in_scope :: "uuid set option \<Rightarrow> TestCase \<Rightarrow> bool" where
  "in_scope allowed c \<longleftrightarrow>
     (case allowed of None \<Rightarrow> True
      | Some ids \<Rightarrow> (case tc_suite_id c of None \<Rightarrow> False | Some k \<Rightarrow> k \<in> ids))"

definition snapshot_create :: "TestCaseSnapshotCreate \<Rightarrow> TestCaseSnapshot service" where
  "snapshot_create payload =
     andThen (from_sum (parse_uuid (IdText (snc_project_id payload)) ''project_id'')) (\<lambda>project_id.
     andThen (get_in Projects project_id) (\<lambda>found.
     andThen (from_option (NotFoundError ''project'' (str_of_uuid project_id)) found) (\<lambda>project.
     andThen (ensure (prj_status project = ProjectActive)
       (InvalidStateError ''an archived project cannot get new snapshots'')) (\<lambda>_.
     andThen (list_of TestSuites) (\<lambda>all_suites.
     let suites = filter (\<lambda>s. ts_project_id s = project_id) all_suites in
     andThen (snapshot_scope payload project suites) (\<lambda>scope.
     let scope_type = fst scope; scope_id = fst (snd scope); scope_name = fst (snd (snd scope));
         allowed = snd (snd (snd scope)) in
     andThen (list_of TestCases) (\<lambda>all_cases.
     let cases = filter (\<lambda>c. tc_project_id c = project_id \<and> in_scope allowed c) all_cases in
     andThen (ensure (cases \<noteq> []) (InvalidStateError ''the scope has no test cases'')) (\<lambda>_.
     andThen (from_sum (order_cases (suites_by_id suites) cases)) (\<lambda>ordered.
     andThen (from_sum (map_result (\<lambda>(position, c). snapshot_item c (int position) (suites_by_id suites))
        (enumerate 0 ordered))) (\<lambda>items.
     andThen (list_of Snapshots) (\<lambda>existing.
     andThen uuid4 (\<lambda>i.
     andThen utc_now (\<lambda>now.
     andThen (store Snapshots upd_snapshots (repo_create sn_id [])
       \<lparr>sn_id = i, sn_project_id = project_id, sn_scope_type = scope_type, sn_scope_id = scope_id,
        sn_scope_name = scope_name, sn_version = snapshot_version scope_type scope_id existing,
        sn_label = snc_label payload, sn_description = snc_description payload,
        sn_case_count = int (length items), sn_items = items, sn_created_at = now\<rparr>) (\<lambda>created.
     andThen (audit_record (Some (IdUuid project_id)) ''test_case_snapshot'' (IdUuid (sn_id created))
       SnapshotCreated
       [(''scope_type'', change JNull (JStr (scope_type_value (sn_scope_type created)))),
        (''scope_id'', change JNull (json_uuid (sn_scope_id created))),
        (''version'', change JNull (JInt (sn_version created))),
        (''case_count'', change JNull (JInt (sn_case_count created)))]
       ''create test case snapshot'' ''local-user'' None) (\<lambda>_.
     ret created)))))))))))))))"

definition snapshot_list ::
  "id_arg option \<Rightarrow> SnapshotScopeType option \<Rightarrow> id_arg option \<Rightarrow> TestCaseSnapshot list service" where
  "snapshot_list project_id scope_type scope_id =
     andThen (from_sum (parse_uuid_opt project_id ''project_id'')) (\<lambda>p.
     andThen (from_sum (parse_uuid_opt scope_id ''scope_id'')) (\<lambda>k.
     andThen (ensure ((scope_type = None) = (k = None))
       (ConflictError ''scope_type and scope_id must be given together'')) (\<lambda>_.
     andThen (list_of Snapshots) (\<lambda>items.
     let i1 = (case p of None \<Rightarrow> items | Some q \<Rightarrow> filter (\<lambda>x. sn_project_id x = q) items);
         i2 = (case scope_type of None \<Rightarrow> i1
               | Some st \<Rightarrow> filter (\<lambda>x. sn_scope_type x = st \<and> Some (sn_scope_id x) = k) i1)
     in ret (sorted_desc (\<lambda>x. (sn_created_at x, sn_version x)) i2)))))"

definition snapshot_get :: "id_arg \<Rightarrow> TestCaseSnapshot service" where
  "snapshot_get snapshot_id =
     andThen (from_sum (parse_uuid snapshot_id ''snapshot_id'')) (\<lambda>parsed_id.
     andThen (get_in Snapshots parsed_id) (\<lambda>snapshot.
     from_option (NotFoundError ''test case snapshot'' (str_of_uuid parsed_id)) snapshot))"

section \<open>What the parts establish\<close>

lemma order_cases_perm:
  assumes "order_cases by_id cases = Inr ordered"
  shows "mset ordered = mset cases"
proof -
  obtain keyed where k: "ordered = map snd (sort_key fst keyed)"
    "map_result (\<lambda>c. bind_sum (suite_path (tc_suite_id c) by_id)
         (\<lambda>path. Inr ((map py_casefold path, tc_created_at c, str_of_uuid (tc_id c)), c))) cases = Inr keyed"
    using assms by (auto simp: order_cases_def bind_sum_Inr)
  have "map snd keyed = cases"
    using k(2) by (induction cases arbitrary: keyed) (auto simp: bind_sum_Inr)
  then show ?thesis by (metis k(1) mset_map mset_sort)
qed

lemma snapshot_item_fields:
  assumes "snapshot_item c p d = Inr i"
  shows "si_source_case_id i = tc_id c \<and> si_position i = p \<and> si_title i = tc_title c \<and>
    si_steps i = tc_steps c \<and> si_status i = tc_status c \<and> si_tags i = tc_tags c \<and>
    si_preconditions i = tc_preconditions c \<and> si_priority i = tc_priority c \<and>
    si_case_type i = tc_case_type c \<and> si_source_suite_id i = tc_suite_id c \<and>
    si_source_created_at i = tc_created_at c \<and> si_source_updated_at i = tc_updated_at c \<and>
    suite_path (tc_suite_id c) d = Inr (si_suite_path i)"
  using assms by (auto simp: snapshot_item_def bind_sum_Inr)

lemma snapshot_items:
  assumes "map_result (\<lambda>(position, c). snapshot_item c (int position) d) (enumerate n ordered) = Inr items"
  shows "length items = length ordered" "map si_source_case_id items = map tc_id ordered"
    "map si_position items = map int [n..<n + length ordered]"
  using assms
proof (induction ordered arbitrary: n items)
  case (Cons c cs)
  {
    case 1 with Cons show ?case by (auto simp: bind_sum_Inr)
  next
    case 2 with Cons show ?case by (auto simp: bind_sum_Inr dest!: snapshot_item_fields)
  next
    case 3
    then obtain i rest where "snapshot_item c (int n) d = Inr i" "items = i # rest"
      "map_result (\<lambda>(position, c). snapshot_item c (int position) d) (enumerate (Suc n) cs) = Inr rest"
      by (auto simp: bind_sum_Inr)
    with Cons(3) [of "Suc n" rest] show ?case by (simp add: snapshot_item_fields upt_conv_Cons del: upt_Suc)
  }
qed simp_all

lemma snapshot_version_next:
  assumes "biz_ok b" "sn_scope_type s = t" "sn_scope_id s = k"
    "sn_version s = snapshot_version t k (repo_list (snapshots b))"
  shows "next_version (world_of b) s"
proof -
  define vs where "vs = map sn_version
    (filter (\<lambda>s. sn_scope_type s = t \<and> sn_scope_id s = k) (repo_list (snapshots b)))"
  have in_vs: "v \<in> set vs \<longleftrightarrow> (\<exists>j x. repo_get (snapshots b) j = Some x \<and> same_scope x s \<and> sn_version x = v)" for v
    using bex_lists(4) [OF assms(1), of "\<lambda>x. same_scope x s \<and> sn_version x = v"] assms(2,3)
    by (auto simp: same_scope_def vs_def)
  have v: "sn_version s = 1 + (if vs = [] then 0 else Max (set vs))"
    using assms(4) unfolding snapshot_version_def Let_def vs_def by simp
  show ?thesis
  proof (cases "vs = []")
    case True
    then have "\<not> same_scope x s" if "repo_get (snapshots b) j = Some x" for j x
      using in_vs that by auto
    then show ?thesis using True v by (auto simp: next_version_def)
  next
    case False
    then have "Max (set vs) \<in> set vs" by (intro Max_in) simp_all
    then obtain j y where "repo_get (snapshots b) j = Some y" "same_scope y s" "sn_version y = Max (set vs)"
      using in_vs by blast
    moreover have "sn_version x \<le> Max (set vs)" if "repo_get (snapshots b) j = Some x" "same_scope x s" for j x
      using in_vs that by (intro Max_ge) blast+
    ultimately show ?thesis using False v by (fastforce simp: next_version_def)
  qed
qed

section \<open>Simulation\<close>

lemma wp_snapshot_scope [wp_intros]:
  assumes "\<And>x. E x s" and "\<And>r. Q r s"
  shows "wp (snapshot_scope payload p suites) Q E s"
  unfolding snapshot_scope_def by (intro wp_intros assms)

lemma cases_distinct: "biz_ok b \<Longrightarrow> distinct (map tc_id (filter P (repo_list (test_cases b))))"
  by (simp add: distinct_map_filter mem.items_distinct biz_okD)

lemma built_snapshot_ok:
  assumes "biz_ok b" and "order_cases d (filter P (repo_list (test_cases b))) = Inr ordered"
    and "map_result (\<lambda>(position, c). snapshot_item c (int position) d) (enumerate 0 ordered) = Inr items"
    and "filter P (repo_list (test_cases b)) \<noteq> []"
    and "sn_items s = items" "sn_case_count s = int (length items)"
  shows "snapshot_ok s"
proof -
  have "mset (map tc_id ordered) = mset (map tc_id (filter P (repo_list (test_cases b))))"
    using order_cases_perm [OF assms(2)] by simp
  then have "distinct (map tc_id ordered)"
    using cases_distinct [OF assms(1), of P] by (metis mset_eq_imp_distinct_iff)
  moreover have "ordered \<noteq> []" using order_cases_perm [OF assms(2)] assms(4) by (metis mset_zero_iff)
  ultimately show ?thesis
    using snapshot_items [OF assms(3)] assms(5,6) by (auto simp: snapshot_ok_def)
qed

lemma snapshot_create_simulated: "simulated (snapshot_create payload)"
  unfolding snapshot_create_def
  apply (intro allI sim_audit wp_intros; simp add: refines_same)
  apply (rule refines_create_snapshot, assumption, simp)
  apply (rule qa_step.snapshot_create)
     apply simp
    apply (simp add: active_project_def)
   apply (rule snapshot_version_next, assumption, simp_all)
  by (rule built_snapshot_ok, assumption+, simp_all)

lemma snapshot_list_simulated: "simulated (snapshot_list p st k)"
  unfolding snapshot_list_def by (intro allI wp_intros; simp add: refines_same)

lemma snapshot_get_simulated: "simulated (snapshot_get i)"
  unfolding snapshot_get_def by (intro allI wp_intros; simp add: refines_same)

end
