(* ===== verification/Comments.thy ===== *)
theory Comments
  imports Snapshots
begin

text \<open>
  \<open>services/comments.py\<close> with \<open>services/collaboration_targets.py\<close>: comments on the entities of
  a project, writable while the project is active, by the author or a moderator. The
  comment table of \<open>repositories/collaboration.py\<close> is the repository \<open>comments\<close>; its foreign
  key to the accounts is the argument \<open>account\<close>, which says whether a user identifier is in
  the accounts table.
\<close>

section \<open>Targets\<close>

record ResolvedTarget =
  rt_project :: Project
  rt_entity_type :: CollaborationTargetType
  rt_entity_id :: uuid

text \<open>The project of the entity; None when there is no such entity.\<close>

fun target_project_id :: "qa \<Rightarrow> CollaborationTargetType \<Rightarrow> uuid \<Rightarrow> uuid option" where
  "target_project_id s TargetProject k = map_option prj_id (repo_get (Projects s) k)"
| "target_project_id s TargetTestCase k = map_option tc_project_id (repo_get (TestCases s) k)"
| "target_project_id s TargetTestSuite k = map_option ts_project_id (repo_get (TestSuites s) k)"
| "target_project_id s TargetSnapshot k = map_option sn_project_id (repo_get (Snapshots s) k)"
| "target_project_id s TargetTestPlan k = map_option tp_project_id (repo_get (TestPlans s) k)"
| "target_project_id s TargetExecution k = map_option ex_project_id (repo_get (Executions s) k)"
| "target_project_id s TargetDefect k = map_option df_project_id (repo_get (Defects s) k)"

definition resolve_target ::
  "CollaborationTargetType \<Rightarrow> uuid \<Rightarrow> uuid option \<Rightarrow> bool \<Rightarrow> ResolvedTarget service" where
  "resolve_target entity_type entity_id requested_project_id require_writable =
     andThen
       (if entity_type = TargetProject then
          andThen (get_in Projects entity_id)
            (from_option (NotFoundError ''collaboration target'' (str_of_uuid entity_id)))
        else
          andThen (reads (\<lambda>s. target_project_id s entity_type entity_id)) (\<lambda>owner.
          andThen (from_option (NotFoundError ''collaboration target'' (str_of_uuid entity_id)) owner) (\<lambda>project_id.
          andThen (get_in Projects project_id)
            (from_option (NotFoundError ''project'' (str_of_uuid project_id)))))) (\<lambda>project.
     andThen (ensure (requested_project_id = None \<or> requested_project_id = Some (prj_id project))
       (ConflictError ''project_id is not the project of the target'')) (\<lambda>_.
     andThen (ensure (\<not> (require_writable \<and> prj_status project \<noteq> ProjectActive))
       (InvalidStateError ''comments of an archived project cannot change'')) (\<lambda>_.
     ret \<lparr>rt_project = project, rt_entity_type = entity_type, rt_entity_id = entity_id\<rparr>)))"

section \<open>The comment table\<close>

definition comment_repo_create :: "(uuid \<Rightarrow> bool) \<Rightarrow> Comment \<Rightarrow> Comment repo \<Rightarrow> domain_error + Comment repo" where
  "comment_repo_create account c r =
     (if \<not> account (cm_author_id c) \<or> map_of r (cm_id c) \<noteq> None
        then Inl (ConflictError ''the comment refers to an invalid object'')
      else Inr (AList.update (cm_id c) c r))"

text \<open>\<open>update\<close> writes only the columns that a comment may change.\<close>

definition comment_repo_update :: "Comment \<Rightarrow> Comment repo \<Rightarrow> domain_error + Comment repo" where
  "comment_repo_update c r =
     (case map_of r (cm_id c) of
        None \<Rightarrow> Inl (NotFoundError ''comment'' (str_of_uuid (cm_id c)))
      | Some old \<Rightarrow> Inr (AList.update (cm_id c)
          (old\<lparr>cm_body := cm_body c, cm_updated_at := cm_updated_at c, cm_edited_at := cm_edited_at c,
               cm_deleted_at := cm_deleted_at c, cm_deleted_by_id := cm_deleted_by_id c\<rparr>) r))"

definition comments_for_target :: "CollaborationTargetType \<Rightarrow> uuid \<Rightarrow> Comment repo \<Rightarrow> Comment list" where
  "comments_for_target entity_type entity_id r =
     sort_key (\<lambda>c. (cm_created_at c, str_of_uuid (cm_id c)))
       (filter (\<lambda>c. cm_entity_type c = entity_type \<and> cm_entity_id c = entity_id) (repo_list r))"

section \<open>Operations\<close>

record CommentCreate =
  coc_project_id :: uuid
  coc_entity_type :: CollaborationTargetType
  coc_entity_id :: uuid
  coc_parent_id :: "uuid option"
  coc_body :: text_t

definition require_comment :: "uuid \<Rightarrow> Comment service" where
  "require_comment comment_id =
     andThen (get_in comments comment_id)
       (from_option (NotFoundError ''comment'' (str_of_uuid comment_id)))"

text \<open>\<open>_require_owner_or_moderator\<close>.\<close>

definition may_change :: "Comment \<Rightarrow> Principal \<Rightarrow> bool" where
  "may_change c p \<longleftrightarrow> cm_author_id c = pr_user_id p \<or> has_permission p ''comment.moderate''"

definition comment_audit ::
  "Comment \<Rightarrow> AuditAction \<Rightarrow> (text_t \<times> AuditChange) list \<Rightarrow> AuditEvent service" where
  "comment_audit c action changes =
     audit_record (Some (IdUuid (cm_project_id c))) ''comment'' (IdUuid (cm_id c)) action changes []
       ''local-user'' None"

definition comment_list :: "CollaborationTargetType \<Rightarrow> uuid \<Rightarrow> Comment list service" where
  "comment_list entity_type entity_id =
     andThen (resolve_target entity_type entity_id None False) (\<lambda>_.
     reads (\<lambda>s. comments_for_target entity_type entity_id (comments s)))"

definition comment_create :: "(uuid \<Rightarrow> bool) \<Rightarrow> CommentCreate \<Rightarrow> Principal \<Rightarrow> Comment service" where
  "comment_create account payload who =
     andThen (resolve_target (coc_entity_type payload) (coc_entity_id payload)
       (Some (coc_project_id payload)) True) (\<lambda>target.
     andThen
       (case coc_parent_id payload of None \<Rightarrow> ret ()
        | Some p \<Rightarrow>
            andThen (get_in comments p) (\<lambda>found.
            andThen (from_option (NotFoundError ''parent comment'' (str_of_uuid p)) found) (\<lambda>parent.
            ensure (cm_entity_type parent = coc_entity_type payload \<and>
                cm_entity_id parent = coc_entity_id payload \<and>
                cm_project_id parent = coc_project_id payload)
              (InvalidStateError ''the parent comment must belong to the same target'')))) (\<lambda>_.
     andThen uuid4 (\<lambda>i.
     andThen utc_now (\<lambda>t1.
     andThen utc_now (\<lambda>t2.
     andThen (store comments comments_update (comment_repo_create account)
       \<lparr>cm_id = i, cm_project_id = prj_id (rt_project target), cm_entity_type = coc_entity_type payload,
        cm_entity_id = coc_entity_id payload, cm_parent_id = coc_parent_id payload,
        cm_author_id = pr_user_id who, cm_author_name = pr_display_name who,
        cm_body = coc_body payload, cm_created_at = t1, cm_updated_at = t2, cm_edited_at = None,
        cm_deleted_at = None, cm_deleted_by_id = None\<rparr>) (\<lambda>created.
     andThen (comment_audit created Created
       [(''target'', change JNull (JStr (target_type_value (cm_entity_type created) @ '':'' @
            str_of_uuid (cm_entity_id created)))),
        (''body_length'', change JNull (JInt (int (length (cm_body created)))))]) (\<lambda>_.
     ret created)))))))"

definition comment_update :: "uuid \<Rightarrow> text_t \<Rightarrow> Principal \<Rightarrow> Comment service" where
  "comment_update comment_id body who =
     andThen (require_comment comment_id) (\<lambda>comment.
     andThen (resolve_target (cm_entity_type comment) (cm_entity_id comment)
       (Some (cm_project_id comment)) True) (\<lambda>_.
     andThen (ensure (may_change comment who)
       (AuthorizationError ''only your own comments can be changed'')) (\<lambda>_.
     andThen (ensure (cm_deleted_at comment = None)
       (InvalidStateError ''a deleted comment cannot be edited'')) (\<lambda>_.
     if cm_body comment = body then ret comment
     else
       andThen utc_now (\<lambda>now.
       andThen (store comments comments_update comment_repo_update
         (comment\<lparr>cm_body := body, cm_updated_at := now, cm_edited_at := Some now\<rparr>)) (\<lambda>saved.
       andThen (comment_audit saved Updated
         [(''body_length'', change (JInt (int (length (cm_body comment)))) (JInt (int (length (cm_body saved)))))]) (\<lambda>_.
       ret saved)))))))"

definition comment_delete :: "uuid \<Rightarrow> Principal \<Rightarrow> Comment service" where
  "comment_delete comment_id who =
     andThen (require_comment comment_id) (\<lambda>comment.
     andThen (resolve_target (cm_entity_type comment) (cm_entity_id comment)
       (Some (cm_project_id comment)) True) (\<lambda>_.
     andThen (ensure (may_change comment who)
       (AuthorizationError ''only your own comments can be changed'')) (\<lambda>_.
     if cm_deleted_at comment \<noteq> None then ret comment
     else
       andThen utc_now (\<lambda>now.
       andThen (store comments comments_update comment_repo_update
         (comment\<lparr>cm_body := [], cm_deleted_at := Some now, cm_deleted_by_id := Some (pr_user_id who),
                  cm_updated_at := now\<rparr>)) (\<lambda>saved.
       andThen (comment_audit saved Deleted [(''deleted_at'', change JNull (JStr (isoformat now)))]) (\<lambda>_.
       ret saved))))))"

section \<open>The comment table\<close>

lemma comment_repo_create_law:
  assumes "repo_ok cm_id r" "comment_repo_create account c r = Inr r'"
  shows "repo_ok cm_id r' \<and> repo_get r (cm_id c) = None \<and> repo_get r' = (repo_get r)(cm_id c \<mapsto> c)"
  using assms by (auto simp: comment_repo_create_def repo_ok_update repo_get_def update_conv' split: if_splits)

lemma comment_repo_update_law:
  assumes "repo_ok cm_id r" "comment_repo_update c r = Inr r'"
  shows "\<exists>old new. repo_get r (cm_id c) = Some old \<and> repo_ok cm_id r' \<and>
    repo_get r' = (repo_get r)(cm_id c \<mapsto> new) \<and> cm_id new = cm_id c \<and>
    cm_author_id new = cm_author_id old \<and> cm_project_id new = cm_project_id old \<and>
    cm_entity_type new = cm_entity_type old \<and> cm_entity_id new = cm_entity_id old \<and>
    cm_parent_id new = cm_parent_id old \<and> cm_created_at new = cm_created_at old \<and>
    cm_body new = cm_body c \<and> cm_deleted_at new = cm_deleted_at c"
proof -
  obtain old where old: "map_of r (cm_id c) = Some old" "cm_id old = cm_id c"
    using assms by (auto simp: comment_repo_update_def repo_ok_iff split: option.splits)
  define new where "new = old\<lparr>cm_body := cm_body c, cm_updated_at := cm_updated_at c,
    cm_edited_at := cm_edited_at c, cm_deleted_at := cm_deleted_at c, cm_deleted_by_id := cm_deleted_by_id c\<rparr>"
  have "r' = AList.update (cm_id new) new r" "cm_id new = cm_id c"
    using assms(2) old by (auto simp: comment_repo_update_def new_def)
  then show ?thesis
    using old repo_ok_update [OF assms(1), of new]
    by (rule_tac exI [of _ old], rule_tac exI [of _ new])
      (simp add: repo_get_def [abs_def] update_conv' new_def)
qed

section \<open>Simulation\<close>

lemmas comment_defs = resolve_target_def require_comment_def comment_audit_def

lemma comment_list_simulated: "simulated (comment_list t k)"
  unfolding comment_list_def comment_defs by (intro allI wp_intros; simp add: refines_same)

lemma comment_create_simulated: "simulated (comment_create acc payload p)"
  unfolding comment_create_def comment_defs
  by (intro allI sim_audit wp_intros; simp add: refines_same)

lemma comment_update_simulated: "simulated (comment_update k body p)"
  unfolding comment_update_def comment_defs
  by (intro allI sim_audit wp_intros; simp add: refines_same)

lemma comment_delete_simulated: "simulated (comment_delete k p)"
  unfolding comment_delete_def comment_defs
  by (intro allI sim_audit wp_intros; simp add: refines_same)

end
