(* ===== verification/Qa_Invariants.thy ===== *)
theory Qa_Invariants
  imports Qa_Spec
begin

text \<open>
  The invariants of the reachable worlds of the specification. Each of them is preserved by
  every step, given the others; \<open>qa_inv\<close> is their conjunction.
\<close>

inductive w_reachable :: "world \<Rightarrow> bool" where
  start: "w_reachable empty_world"
| step: "w_reachable w \<Longrightarrow> qa_step w w' \<Longrightarrow> w_reachable w'"

section \<open>The invariants\<close>

definition inv_ids :: "world \<Rightarrow> bool" where
  "inv_ids w \<longleftrightarrow>
     (\<forall>k x. w_projects w k = Some x \<longrightarrow> prj_id x = k) \<and> (\<forall>k x. w_suites w k = Some x \<longrightarrow> ts_id x = k) \<and>
     (\<forall>k x. w_cases w k = Some x \<longrightarrow> tc_id x = k) \<and> (\<forall>k x. w_snapshots w k = Some x \<longrightarrow> sn_id x = k) \<and>
     (\<forall>k x. w_plans w k = Some x \<longrightarrow> tp_id x = k) \<and> (\<forall>k x. w_executions w k = Some x \<longrightarrow> ex_id x = k) \<and>
     (\<forall>k x. w_defects w k = Some x \<longrightarrow> df_id x = k)"

definition inv_keys :: "world \<Rightarrow> bool" where
  "inv_keys w \<longleftrightarrow> (\<forall>j k x y. w_projects w j = Some x \<longrightarrow> w_projects w k = Some y \<longrightarrow>
     prj_key x = prj_key y \<longrightarrow> j = k)"

text \<open>Everything belongs to an existing project.\<close>

definition inv_owned :: "world \<Rightarrow> bool" where
  "inv_owned w \<longleftrightarrow>
     (\<forall>k x. w_suites w k = Some x \<longrightarrow> w_projects w (ts_project_id x) \<noteq> None) \<and>
     (\<forall>k x. w_cases w k = Some x \<longrightarrow> w_projects w (tc_project_id x) \<noteq> None) \<and>
     (\<forall>k x. w_snapshots w k = Some x \<longrightarrow> w_projects w (sn_project_id x) \<noteq> None) \<and>
     (\<forall>k x. w_plans w k = Some x \<longrightarrow> w_projects w (tp_project_id x) \<noteq> None) \<and>
     (\<forall>k x. w_defects w k = Some x \<longrightarrow> w_projects w (df_project_id x) \<noteq> None)"

definition inv_tree :: "world \<Rightarrow> bool" where
  "inv_tree w \<longleftrightarrow> acyclic (parent_rel w) \<and>
     (\<forall>k x. w_suites w k = Some x \<longrightarrow> suite_of_project w (ts_project_id x) (ts_parent_id x))"

definition inv_names :: "world \<Rightarrow> bool" where
  "inv_names w \<longleftrightarrow> (\<forall>k x. w_suites w k = Some x \<longrightarrow> name_free w x)"

definition inv_cases :: "world \<Rightarrow> bool" where
  "inv_cases w \<longleftrightarrow> (\<forall>k x. w_cases w k = Some x \<longrightarrow>
     suite_of_project w (tc_project_id x) (tc_suite_id x) \<and> tags_normal (tc_tags x) \<and>
     (tc_status x = CaseActive \<longrightarrow> tc_steps x \<noteq> []))"

definition inv_plans :: "world \<Rightarrow> bool" where
  "inv_plans w \<longleftrightarrow> (\<forall>k x. w_plans w k = Some x \<longrightarrow>
     plan_cases_ok w x \<and> (tp_status x \<noteq> PlanDraft \<longrightarrow> tp_case_ids x \<noteq> []))"

definition coupled :: "ExecutionStatus \<Rightarrow> TestPlanStatus" where
  "coupled st = (case st of ExecCreated \<Rightarrow> PlanReady | ExecRunning \<Rightarrow> PlanRunning
     | ExecCompleted \<Rightarrow> PlanCompleted | ExecCancelled \<Rightarrow> PlanCancelled)"

definition inv_executions :: "world \<Rightarrow> bool" where
  "inv_executions w \<longleftrightarrow>
     (\<forall>k x. w_executions w k = Some x \<longrightarrow> execution_ok x \<and>
        (\<exists>p. w_plans w (ex_plan_id x) = Some p \<and> tp_status p = coupled (ex_status x) \<and>
           tp_project_id p = ex_project_id x \<and> tp_case_ids p = map cr_case_id (ex_results x))) \<and>
     (\<forall>j k x y. w_executions w j = Some x \<longrightarrow> w_executions w k = Some y \<longrightarrow>
        ex_plan_id x = ex_plan_id y \<longrightarrow> j = k) \<and>
     (\<forall>k p. w_plans w k = Some p \<longrightarrow> tp_status p \<notin> {PlanDraft, PlanReady} \<longrightarrow>
        (\<exists>j x. w_executions w j = Some x \<and> ex_plan_id x = k))"

definition inv_defects :: "world \<Rightarrow> bool" where
  "inv_defects w \<longleftrightarrow> (\<forall>k x. w_defects w k = Some x \<longrightarrow> defect_links_ok w x \<and> defect_state_ok x)"

definition inv_snapshots :: "world \<Rightarrow> bool" where
  "inv_snapshots w \<longleftrightarrow>
     (\<forall>k x. w_snapshots w k = Some x \<longrightarrow> snapshot_ok x \<and> 1 \<le> sn_version x \<and>
        (\<forall>v. 1 \<le> v \<longrightarrow> v < sn_version x \<longrightarrow>
           (\<exists>j y. w_snapshots w j = Some y \<and> same_scope y x \<and> sn_version y = v))) \<and>
     (\<forall>j k x y. w_snapshots w j = Some x \<longrightarrow> w_snapshots w k = Some y \<longrightarrow> same_scope x y \<longrightarrow>
        sn_version x = sn_version y \<longrightarrow> j = k)"

text \<open>An archived project has no open work.\<close>

definition inv_quiet :: "world \<Rightarrow> bool" where
  "inv_quiet w \<longleftrightarrow>
     (\<forall>k x. w_plans w k = Some x \<longrightarrow> tp_status x \<in> {PlanDraft, PlanReady, PlanRunning} \<longrightarrow>
        active_project w (tp_project_id x)) \<and>
     (\<forall>k x. w_executions w k = Some x \<longrightarrow> ex_status x \<in> {ExecCreated, ExecRunning} \<longrightarrow>
        active_project w (ex_project_id x)) \<and>
     (\<forall>k x. w_defects w k = Some x \<longrightarrow> df_status x \<noteq> DefectClosed \<longrightarrow> active_project w (df_project_id x))"

definition qa_inv :: "world \<Rightarrow> bool" where
  "qa_inv w \<longleftrightarrow> inv_ids w \<and> inv_keys w \<and> inv_owned w \<and> inv_tree w \<and> inv_names w \<and> inv_cases w \<and>
     inv_plans w \<and> inv_executions w \<and> inv_defects w \<and> inv_snapshots w \<and> inv_quiet w"

section \<open>What a change leaves alone\<close>

text \<open>A guard does not see changes of the maps it does not read.\<close>

lemma active_project_frame [simp]:
  "active_project (w\<lparr>w_suites := m1\<rparr>) = active_project w"
  "active_project (w\<lparr>w_cases := m2\<rparr>) = active_project w"
  "active_project (w\<lparr>w_snapshots := m3\<rparr>) = active_project w"
  "active_project (w\<lparr>w_plans := m4\<rparr>) = active_project w"
  "active_project (w\<lparr>w_executions := m5\<rparr>) = active_project w"
  "active_project (w\<lparr>w_defects := m6\<rparr>) = active_project w"
  by (simp_all add: active_project_def fun_eq_iff)

lemma parent_rel_frame [simp]:
  "parent_rel (w\<lparr>w_projects := m0\<rparr>) = parent_rel w"
  "parent_rel (w\<lparr>w_cases := m2\<rparr>) = parent_rel w"
  "parent_rel (w\<lparr>w_snapshots := m3\<rparr>) = parent_rel w"
  "parent_rel (w\<lparr>w_plans := m4\<rparr>) = parent_rel w"
  "parent_rel (w\<lparr>w_executions := m5\<rparr>) = parent_rel w"
  "parent_rel (w\<lparr>w_defects := m6\<rparr>) = parent_rel w"
  by (simp_all add: parent_rel_def fun_eq_iff)

lemma suite_of_project_frame [simp]:
  "suite_of_project (w\<lparr>w_projects := m0\<rparr>) = suite_of_project w"
  "suite_of_project (w\<lparr>w_cases := m2\<rparr>) = suite_of_project w"
  "suite_of_project (w\<lparr>w_snapshots := m3\<rparr>) = suite_of_project w"
  "suite_of_project (w\<lparr>w_plans := m4\<rparr>) = suite_of_project w"
  "suite_of_project (w\<lparr>w_executions := m5\<rparr>) = suite_of_project w"
  "suite_of_project (w\<lparr>w_defects := m6\<rparr>) = suite_of_project w"
  by (simp_all add: suite_of_project_def fun_eq_iff)

lemma name_free_frame [simp]:
  "name_free (w\<lparr>w_projects := m0\<rparr>) = name_free w"
  "name_free (w\<lparr>w_cases := m2\<rparr>) = name_free w"
  "name_free (w\<lparr>w_snapshots := m3\<rparr>) = name_free w"
  "name_free (w\<lparr>w_plans := m4\<rparr>) = name_free w"
  "name_free (w\<lparr>w_executions := m5\<rparr>) = name_free w"
  "name_free (w\<lparr>w_defects := m6\<rparr>) = name_free w"
  by (simp_all add: name_free_def fun_eq_iff)

lemma plan_cases_ok_frame [simp]:
  "plan_cases_ok (w\<lparr>w_projects := m0\<rparr>) = plan_cases_ok w"
  "plan_cases_ok (w\<lparr>w_suites := m1\<rparr>) = plan_cases_ok w"
  "plan_cases_ok (w\<lparr>w_snapshots := m3\<rparr>) = plan_cases_ok w"
  "plan_cases_ok (w\<lparr>w_plans := m4\<rparr>) = plan_cases_ok w"
  "plan_cases_ok (w\<lparr>w_executions := m5\<rparr>) = plan_cases_ok w"
  "plan_cases_ok (w\<lparr>w_defects := m6\<rparr>) = plan_cases_ok w"
  by (simp_all add: plan_cases_ok_def fun_eq_iff)

lemma defect_links_ok_frame [simp]:
  "defect_links_ok (w\<lparr>w_projects := m0\<rparr>) = defect_links_ok w"
  "defect_links_ok (w\<lparr>w_suites := m1\<rparr>) = defect_links_ok w"
  "defect_links_ok (w\<lparr>w_snapshots := m3\<rparr>) = defect_links_ok w"
  "defect_links_ok (w\<lparr>w_plans := m4\<rparr>) = defect_links_ok w"
  "defect_links_ok (w\<lparr>w_defects := m6\<rparr>) = defect_links_ok w"
  by (simp_all add: defect_links_ok_def fun_eq_iff)

text \<open>A guard survives the changes that keep the attributes it reads.\<close>

lemma active_project_upd:
  "active_project w q \<Longrightarrow> (prj_id p = q \<Longrightarrow> prj_status p = ProjectActive) \<Longrightarrow>
   active_project (w\<lparr>w_projects := (w_projects w)(prj_id p \<mapsto> p)\<rparr>) q"
  by (auto simp: active_project_def)

lemma suite_of_project_upd:
  "suite_of_project w q k \<Longrightarrow> (\<And>t. w_suites w (ts_id s) = Some t \<Longrightarrow> ts_project_id s = ts_project_id t) \<Longrightarrow>
   suite_of_project (w\<lparr>w_suites := (w_suites w)(ts_id s \<mapsto> s)\<rparr>) q k"
  by (auto simp: suite_of_project_def)

lemma suite_of_project_del:
  "suite_of_project w q k \<Longrightarrow> k \<noteq> Some j \<Longrightarrow> suite_of_project (w\<lparr>w_suites := (w_suites w)(j := None)\<rparr>) q k"
  by (auto simp: suite_of_project_def)

lemma parent_allowed_owner: "parent_allowed w q i k \<Longrightarrow> suite_of_project w q k"
  by (auto simp: parent_allowed_def suite_of_project_def)

lemma plan_cases_ok_upd:
  "plan_cases_ok w p \<Longrightarrow> (\<And>d. w_cases w (tc_id c) = Some d \<Longrightarrow> tc_project_id c = tc_project_id d) \<Longrightarrow>
   plan_cases_ok (w\<lparr>w_cases := (w_cases w)(tc_id c \<mapsto> c)\<rparr>) p"
  by (auto simp: plan_cases_ok_def)

lemma plan_cases_ok_del:
  "plan_cases_ok w p \<Longrightarrow> k \<notin> set (tp_case_ids p) \<Longrightarrow>
   plan_cases_ok (w\<lparr>w_cases := (w_cases w)(k := None)\<rparr>) p"
  by (auto simp: plan_cases_ok_def)

lemma plan_cases_ok_same:
  "plan_cases_ok w q \<Longrightarrow> tp_project_id p = tp_project_id q \<Longrightarrow> tp_case_ids p = tp_case_ids q \<Longrightarrow> plan_cases_ok w p"
  by (simp add: plan_cases_ok_def)

lemma defect_links_case_upd:
  "defect_links_ok w d \<Longrightarrow> (\<And>b. w_cases w (tc_id c) = Some b \<Longrightarrow> tc_project_id c = tc_project_id b) \<Longrightarrow>
   defect_links_ok (w\<lparr>w_cases := (w_cases w)(tc_id c \<mapsto> c)\<rparr>) d"
  by (auto simp: defect_links_ok_def)

lemma defect_links_case_del:
  "defect_links_ok w d \<Longrightarrow> df_case_id d \<noteq> Some k \<Longrightarrow>
   defect_links_ok (w\<lparr>w_cases := (w_cases w)(k := None)\<rparr>) d"
  by (auto simp: defect_links_ok_def)

lemma defect_links_exec_upd:
  "defect_links_ok w d \<Longrightarrow>
   (\<And>b. w_executions w (ex_id e) = Some b \<Longrightarrow> ex_project_id e = ex_project_id b \<and> ex_status e \<noteq> ExecCreated \<and>
      cr_case_id ` set (ex_results e) = cr_case_id ` set (ex_results b)) \<Longrightarrow>
   defect_links_ok (w\<lparr>w_executions := (w_executions w)(ex_id e \<mapsto> e)\<rparr>) d"
  by (fastforce simp: defect_links_ok_def)

lemma defect_links_exec_del:
  "defect_links_ok w d \<Longrightarrow> df_execution_id d \<noteq> Some k \<Longrightarrow>
   defect_links_ok (w\<lparr>w_executions := (w_executions w)(k := None)\<rparr>) d"
  by (auto simp: defect_links_ok_def)

lemma defect_links_same:
  "defect_links_ok w c \<Longrightarrow> df_project_id d = df_project_id c \<Longrightarrow> df_case_id d = df_case_id c \<Longrightarrow>
   df_execution_id d = df_execution_id c \<Longrightarrow> defect_links_ok w d"
  by (simp add: defect_links_ok_def)

section \<open>Preservation\<close>

lemma step_ids: "qa_step w w' \<Longrightarrow> inv_ids w \<Longrightarrow> inv_ids w'"
  by (erule qa_step.cases) (simp_all add: inv_ids_def)

lemma step_keys: "qa_step w w' \<Longrightarrow> inv_keys w \<Longrightarrow> inv_keys w'"
  unfolding inv_keys_def by (erule qa_step.cases; simp) metis+

lemma step_owned: "qa_step w w' \<Longrightarrow> inv_owned w \<Longrightarrow> inv_owned w'"
  by (erule qa_step.cases) (auto simp: inv_owned_def active_project_def)

lemma tree_upd:
  assumes "inv_tree w" and "suite_of_project w (ts_project_id s) (ts_parent_id s)"
    and "\<And>t. w_suites w (ts_id s) = Some t \<Longrightarrow> ts_project_id s = ts_project_id t"
    and "(\<exists>t. w_suites w (ts_id s) = Some t \<and> ts_parent_id s = ts_parent_id t) \<or>
      (\<forall>p. ts_parent_id s = Some p \<longrightarrow> (p, ts_id s) \<notin> (parent_rel w)\<^sup>*)"
  shows "inv_tree (w\<lparr>w_suites := (w_suites w)(ts_id s \<mapsto> s)\<rparr>)" (is "inv_tree ?w")
proof -
  have "acyclic (parent_rel ?w)"
  proof (cases "\<exists>p. ts_parent_id s = Some p \<and> (p, ts_id s) \<notin> (parent_rel w)\<^sup>*")
    case True
    then obtain p where p: "ts_parent_id s = Some p" "(p, ts_id s) \<notin> (parent_rel w)\<^sup>*" by blast
    then have "acyclic (insert (ts_id s, p) (parent_rel w))"
      using assms(1) by (simp add: inv_tree_def acyclic_insert)
    moreover have "parent_rel ?w \<subseteq> insert (ts_id s, p) (parent_rel w)"
      using p by (auto simp: parent_rel_def split: if_splits)
    ultimately show ?thesis by (rule acyclic_subset)
  next
    case False
    then have "parent_rel ?w \<subseteq> parent_rel w"
      using assms(4) by (auto simp: parent_rel_def split: if_splits)
    then show ?thesis using assms(1) by (auto simp: inv_tree_def intro: acyclic_subset)
  qed
  moreover have "suite_of_project ?w (ts_project_id x) (ts_parent_id x)" if "w_suites ?w k = Some x" for k x
  proof (rule suite_of_project_upd [OF _ assms(3)])
    show "suite_of_project w (ts_project_id x) (ts_parent_id x)"
      using that assms(1,2) by (auto simp: inv_tree_def split: if_splits)
  qed
  ultimately show ?thesis by (simp add: inv_tree_def)
qed

lemma step_tree:
  assumes "qa_step w w'" "inv_tree w"
  shows "inv_tree w'"
  using assms(1)
proof cases
  case (suite_create s)
  have "(p, ts_id s) \<notin> (parent_rel w)\<^sup>*" if "ts_parent_id s = Some p" for p
    using suite_create that by (auto simp: parent_allowed_def)
  then show ?thesis
    using suite_create assms(2) by (auto intro!: tree_upd parent_allowed_owner)
next
  case (suite_edit s t)
  have "suite_of_project w (ts_project_id s) (ts_parent_id s)"
    using suite_edit assms(2) parent_allowed_owner by (auto simp: inv_tree_def)
  moreover have "(\<exists>t. w_suites w (ts_id s) = Some t \<and> ts_parent_id s = ts_parent_id t) \<or>
      (\<forall>p. ts_parent_id s = Some p \<longrightarrow> (p, ts_id s) \<notin> (parent_rel w)\<^sup>*)"
    using suite_edit by (auto simp: parent_allowed_def)
  ultimately show ?thesis using suite_edit assms(2) by (auto intro!: tree_upd)
next
  case (suite_status s t)
  have "suite_of_project w (ts_project_id s) (ts_parent_id s)"
    using suite_status assms(2) by (auto simp: inv_tree_def)
  then show ?thesis using suite_status assms(2) by (auto intro!: tree_upd)
next
  case (suite_delete k)
  have "parent_rel w' \<subseteq> parent_rel w" using suite_delete by (auto simp: parent_rel_def split: if_splits)
  then show ?thesis
    using assms(2) suite_delete by (auto simp: inv_tree_def intro: acyclic_subset intro!: suite_of_project_del)
qed (use assms(2) in \<open>simp_all add: inv_tree_def\<close>)

lemma names_upd:
  assumes "inv_names w" "inv_ids w" "name_free w s"
  shows "inv_names (w\<lparr>w_suites := (w_suites w)(ts_id s \<mapsto> s)\<rparr>)"
  using assms unfolding inv_names_def name_free_def inv_ids_def by (simp split: if_split) metis

lemma step_names:
  assumes "qa_step w w'" "inv_names w" "inv_ids w"
  shows "inv_names w'"
  using assms(1)
proof cases
  case (suite_status s t)
  have "name_free w s"
    using suite_status assms(2,3) by (simp add: inv_names_def name_free_def inv_ids_def)
  then show ?thesis using suite_status assms by (simp add: names_upd)
next
  case (suite_delete k)
  then show ?thesis using assms(2) by (auto simp: inv_names_def name_free_def)
qed (use assms in \<open>simp_all add: names_upd, simp_all add: inv_names_def\<close>)

lemma step_cases:
  assumes "qa_step w w'" "inv_cases w"
  shows "inv_cases w'"
  using assms
  by cases (auto simp: inv_cases_def intro!: suite_of_project_upd suite_of_project_del)


lemma plans_upd:
  assumes "inv_plans w" "plan_cases_ok w p" "tp_status p \<noteq> PlanDraft \<longrightarrow> tp_case_ids p \<noteq> []"
  shows "inv_plans (w\<lparr>w_plans := (w_plans w)(tp_id p \<mapsto> p)\<rparr>)"
  using assms by (simp add: inv_plans_def)

lemma executions_plan_nonempty:
  assumes "inv_plans w" "inv_executions w" "w_executions w k = Some d" "w_plans w (ex_plan_id d) = Some q"
  shows "tp_case_ids q \<noteq> [] \<and> plan_cases_ok w q"
proof -
  have "tp_status q = coupled (ex_status d)" using assms(2-4) by (force simp: inv_executions_def)
  then have "tp_status q \<noteq> PlanDraft" by (simp add: coupled_def split: ExecutionStatus.splits)
  then show ?thesis using assms(1,4) by (simp add: inv_plans_def)
qed

lemma inv_plans_frame [simp]:
  "inv_plans (w\<lparr>w_projects := m0\<rparr>) = inv_plans w"
  "inv_plans (w\<lparr>w_suites := m1\<rparr>) = inv_plans w"
  "inv_plans (w\<lparr>w_snapshots := m3\<rparr>) = inv_plans w"
  "inv_plans (w\<lparr>w_executions := m5\<rparr>) = inv_plans w"
  "inv_plans (w\<lparr>w_defects := m6\<rparr>) = inv_plans w"
  by (simp_all add: inv_plans_def)

lemma inv_plansD: "inv_plans w \<Longrightarrow> w_plans w k = Some p \<Longrightarrow>
    plan_cases_ok w p \<and> (tp_status p \<noteq> PlanDraft \<longrightarrow> tp_case_ids p \<noteq> [])"
  by (simp add: inv_plans_def)

lemma step_plans:
  assumes "qa_step w w'" "inv_plans w" "inv_executions w"
  shows "inv_plans w'"
  using assms(1)
proof cases
  case (case_create c)
  then show ?thesis using assms(2) by (auto simp: inv_plans_def intro!: plan_cases_ok_upd)
next
  case (case_edit c d)
  then show ?thesis using assms(2) by (auto simp: inv_plans_def intro!: plan_cases_ok_upd)
next
  case (case_status c d)
  then show ?thesis using assms(2) by (auto simp: inv_plans_def intro!: plan_cases_ok_upd)
next
  case (case_delete k)
  then show ?thesis using assms(2) by (auto simp: inv_plans_def intro!: plan_cases_ok_del)
next
  case (plan_create p)
  then show ?thesis using assms(2) by (simp add: plans_upd)
next
  case (plan_edit p q)
  then have "plan_cases_ok w p" using assms(2) by (metis inv_plansD plan_cases_ok_same)
  then show ?thesis using plan_edit assms(2) by (simp add: plans_upd)
next
  case (plan_ready p q)
  then have "plan_cases_ok w p" using assms(2) by (metis inv_plansD plan_cases_ok_same)
  then show ?thesis using plan_ready assms(2) by (simp add: plans_upd)
next
  case (plan_back p q)
  then have "plan_cases_ok w p" using assms(2) by (metis inv_plansD plan_cases_ok_same)
  then show ?thesis using plan_back assms(2) by (simp add: plans_upd)
next
  case (plan_delete k)
  then show ?thesis using assms(2) by (auto simp: inv_plans_def)
next
  case (exec_start e d q p)
  then have "plan_cases_ok w p \<and> tp_case_ids p \<noteq> []"
    using executions_plan_nonempty [OF assms(2,3), of "ex_id e" d q] plan_cases_ok_same [of w q p] by simp
  then show ?thesis using exec_start plans_upd [OF assms(2), of p] by simp
next
  case (exec_finish e d q p)
  then have "plan_cases_ok w p \<and> tp_case_ids p \<noteq> []"
    using executions_plan_nonempty [OF assms(2,3), of "ex_id e" d q] plan_cases_ok_same [of w q p] by simp
  then show ?thesis using exec_finish plans_upd [OF assms(2), of p] by simp
next
  case (exec_cancel e d q p)
  then have "plan_cases_ok w p \<and> tp_case_ids p \<noteq> []"
    using executions_plan_nonempty [OF assms(2,3), of "ex_id e" d q] plan_cases_ok_same [of w q p] by simp
  then show ?thesis using exec_cancel plans_upd [OF assms(2), of p] by simp
qed (use assms(2) in simp_all)

text \<open>An attribute that no two entries share, and one that some entry has, after an update.\<close>

lemma unshared_upd:
  assumes "\<And>j k x y. m j = Some x \<Longrightarrow> m k = Some y \<Longrightarrow> f x = f y \<Longrightarrow> j = k"
    and "\<And>j x. m j = Some x \<Longrightarrow> f x = f e \<Longrightarrow> j = i"
    and "(m(i \<mapsto> e)) j = Some x" "(m(i \<mapsto> e)) k = Some y" "f x = f y"
  shows "j = k"
proof (cases "j = i \<or> k = i")
  case True
  then show ?thesis using assms(2) [of j x] assms(2) [of k y] assms(3-5) by (auto split: if_splits)
next
  case False
  then show ?thesis using assms(1) [of j x k y] assms(3-5) by simp
qed

lemma present_upd:
  assumes "\<exists>j x. m j = Some x \<and> f x = v" "\<And>d. m i = Some d \<Longrightarrow> f d = f e"
  shows "\<exists>j x. (m(i \<mapsto> e)) j = Some x \<and> f x = v"
proof -
  obtain j x where j: "m j = Some x" "f x = v" using assms(1) by blast
  show ?thesis
  proof (cases "j = i")
    case True
    then show ?thesis using j assms(2) by (intro exI [of _ i] exI [of _ e]) simp
  next
    case False
    then show ?thesis using j by (intro exI [of _ j] exI [of _ x]) simp
  qed
qed

text \<open>The parts of the execution invariant.\<close>

lemma inv_executionsI:
  assumes "\<And>k x. w_executions w k = Some x \<Longrightarrow> execution_ok x \<and>
        (\<exists>p. w_plans w (ex_plan_id x) = Some p \<and> tp_status p = coupled (ex_status x) \<and>
           tp_project_id p = ex_project_id x \<and> tp_case_ids p = map cr_case_id (ex_results x))"
    and "\<And>j k x y. w_executions w j = Some x \<Longrightarrow> w_executions w k = Some y \<Longrightarrow>
        ex_plan_id x = ex_plan_id y \<Longrightarrow> j = k"
    and "\<And>k p. w_plans w k = Some p \<Longrightarrow> tp_status p \<notin> {PlanDraft, PlanReady} \<Longrightarrow>
        \<exists>j x. w_executions w j = Some x \<and> ex_plan_id x = k"
  shows "inv_executions w"
  unfolding inv_executions_def using assms by blast

lemma executed_plan:
  "inv_executions w \<Longrightarrow> w_plans w k = Some p \<Longrightarrow> tp_status p \<notin> {PlanDraft, PlanReady} \<Longrightarrow>
   \<exists>j x. w_executions w j = Some x \<and> ex_plan_id x = k"
  unfolding inv_executions_def by blast

lemma inv_executionsD:
  assumes "inv_executions w" "w_executions w k = Some x"
  shows "execution_ok x"
    and "\<exists>p. w_plans w (ex_plan_id x) = Some p \<and> tp_status p = coupled (ex_status x) \<and>
           tp_project_id p = ex_project_id x \<and> tp_case_ids p = map cr_case_id (ex_results x)"
    and "w_executions w j = Some y \<Longrightarrow> ex_plan_id y = ex_plan_id x \<Longrightarrow> j = k"
  using assms unfolding inv_executions_def by blast+

lemma inv_executions_frame [simp]:
  "inv_executions (w\<lparr>w_projects := m0\<rparr>) = inv_executions w"
  "inv_executions (w\<lparr>w_suites := m1\<rparr>) = inv_executions w"
  "inv_executions (w\<lparr>w_cases := m2\<rparr>) = inv_executions w"
  "inv_executions (w\<lparr>w_snapshots := m3\<rparr>) = inv_executions w"
  "inv_executions (w\<lparr>w_defects := m6\<rparr>) = inv_executions w"
  by (simp_all add: inv_executions_def)

text \<open>A change of a plan without executions, in a status that needs none.\<close>

lemma executions_plan_upd:
  assumes "inv_executions w" "\<forall>k x. w_executions w k = Some x \<longrightarrow> ex_plan_id x \<noteq> tp_id p"
    and "tp_status p \<in> {PlanDraft, PlanReady}"
  shows "inv_executions (w\<lparr>w_plans := (w_plans w)(tp_id p \<mapsto> p)\<rparr>)"
  using assms unfolding inv_executions_def by auto

text \<open>A change of an execution together with its plan.\<close>

lemma executions_both_upd:
  assumes inv: "inv_executions w" and d: "w_executions w (ex_id e) = Some d"
    and e: "ex_plan_id e = ex_plan_id d" "ex_project_id e = ex_project_id d" "ex_results e = ex_results d"
      "execution_ok e"
    and p: "w_plans w (ex_plan_id e) = Some q" "tp_id p = ex_plan_id e" "tp_project_id p = tp_project_id q"
      "tp_case_ids p = tp_case_ids q" "tp_status p = coupled (ex_status e)"
  shows "inv_executions (w\<lparr>w_plans := (w_plans w)(tp_id p \<mapsto> p), w_executions := (w_executions w)(ex_id e \<mapsto> e)\<rparr>)"
    (is "inv_executions ?w")
proof -
  have q: "tp_project_id q = ex_project_id d \<and> tp_case_ids q = map cr_case_id (ex_results d)"
    using inv_executionsD(2) [OF inv d] p(1) e(1) by auto
  have one: "execution_ok x \<and> (\<exists>p'. w_plans ?w (ex_plan_id x) = Some p' \<and> tp_status p' = coupled (ex_status x) \<and>
      tp_project_id p' = ex_project_id x \<and> tp_case_ids p' = map cr_case_id (ex_results x))"
    if x: "w_executions ?w k = Some x" for k x
  proof (cases "k = ex_id e")
    case True
    then show ?thesis using x e p q by simp
  next
    case False
    then have "w_executions w k = Some x" using x by simp
    moreover have "ex_plan_id x \<noteq> tp_id p"
      using inv_executionsD(3) [OF inv d calculation] False e(1) p(2) by auto
    ultimately show ?thesis using inv_executionsD(1,2) [OF inv] by fastforce
  qed
  show ?thesis
  proof (rule inv_executionsI)
    fix j k x y
    assume "w_executions ?w j = Some x" "w_executions ?w k = Some y" "ex_plan_id x = ex_plan_id y"
    then show "j = k"
      using unshared_upd [of "w_executions w" ex_plan_id e "ex_id e" j x k y] d e(1) inv_executionsD(3) [OF inv]
      by simp
  next
    fix k r
    assume r: "w_plans ?w k = Some r" "tp_status r \<notin> {PlanDraft, PlanReady}"
    have "\<exists>j x. w_executions w j = Some x \<and> ex_plan_id x = k"
      using r executed_plan [OF inv] d e(1) p(2) by (cases "k = tp_id p") auto
    then show "\<exists>j x. w_executions ?w j = Some x \<and> ex_plan_id x = k"
      using present_upd [of "w_executions w" ex_plan_id k "ex_id e" e] d e(1) by simp
  qed (rule one)
qed

text \<open>A change of one execution alone.\<close>

lemma executions_exec_upd:
  assumes inv: "inv_executions w" and "execution_ok e"
    and "\<exists>p. w_plans w (ex_plan_id e) = Some p \<and> tp_status p = coupled (ex_status e) \<and>
      tp_project_id p = ex_project_id e \<and> tp_case_ids p = map cr_case_id (ex_results e)"
    and "\<And>k x. w_executions w k = Some x \<Longrightarrow> ex_plan_id x = ex_plan_id e \<Longrightarrow> k = ex_id e"
    and "\<And>d. w_executions w (ex_id e) = Some d \<Longrightarrow> ex_plan_id d = ex_plan_id e"
  shows "inv_executions (w\<lparr>w_executions := (w_executions w)(ex_id e \<mapsto> e)\<rparr>)" (is "inv_executions ?w")
proof (rule inv_executionsI)
  fix k x
  assume "w_executions ?w k = Some x"
  then show "execution_ok x \<and> (\<exists>p. w_plans ?w (ex_plan_id x) = Some p \<and> tp_status p = coupled (ex_status x) \<and>
      tp_project_id p = ex_project_id x \<and> tp_case_ids p = map cr_case_id (ex_results x))"
    using assms(2,3) inv_executionsD(1,2) [OF inv, of k x] by (cases "k = ex_id e") simp_all
next
  fix j k x y
  assume "w_executions ?w j = Some x" "w_executions ?w k = Some y" "ex_plan_id x = ex_plan_id y"
  then show "j = k"
    using unshared_upd [of "w_executions w" ex_plan_id e "ex_id e" j x k y] assms(4) inv_executionsD(3) [OF inv]
    by simp
next
  fix k r
  assume "w_plans ?w k = Some r" "tp_status r \<notin> {PlanDraft, PlanReady}"
  then show "\<exists>j x. w_executions ?w j = Some x \<and> ex_plan_id x = k"
    using present_upd [of "w_executions w" ex_plan_id k "ex_id e" e] executed_plan [OF inv, of k r] assms(5)
    by simp
qed

lemma step_executions:
  assumes "qa_step w w'" "inv_executions w"
  shows "inv_executions w'"
  using assms(1)
proof cases
  case (plan_create p)
  have "ex_plan_id x \<noteq> tp_id p" if "w_executions w k = Some x" for k x
    using inv_executionsD(2) [OF assms(2) that] plan_create(2) by auto
  then show ?thesis using plan_create assms(2) by (simp add: executions_plan_upd)
next
  case (plan_edit p q)
  have "ex_plan_id x \<noteq> tp_id p" if "w_executions w k = Some x" for k x
    using inv_executionsD(2) [OF assms(2) that] plan_edit by (auto simp: coupled_def split: ExecutionStatus.splits)
  then show ?thesis using plan_edit assms(2) by (simp add: executions_plan_upd)
next
  case (plan_ready p q)
  have "ex_plan_id x \<noteq> tp_id p" if "w_executions w k = Some x" for k x
    using inv_executionsD(2) [OF assms(2) that] plan_ready by (auto simp: coupled_def split: ExecutionStatus.splits)
  then show ?thesis using plan_ready assms(2) by (simp add: executions_plan_upd)
next
  case (plan_back p q)
  then show ?thesis using assms(2) by (simp add: executions_plan_upd)
next
  case (plan_delete k)
  then show ?thesis using assms(2) unfolding inv_executions_def by auto
next
  case (exec_create e p)
  then have "inv_executions (w\<lparr>w_executions := (w_executions w)(ex_id e \<mapsto> e)\<rparr>)"
    by (intro executions_exec_upd assms(2)) (auto simp: coupled_def)
  then show ?thesis using exec_create by simp
next
  case (exec_start e d q p)
  then have "execution_ok e" using inv_executionsD(1) [OF assms(2)] by blast
  then show ?thesis using exec_start executions_both_upd [OF assms(2)] by (simp add: coupled_def)
next
  case (exec_finish e d q p)
  then have "execution_ok e" using inv_executionsD(1) [OF assms(2)] by blast
  then show ?thesis using exec_finish executions_both_upd [OF assms(2)] by (simp add: coupled_def)
next
  case (exec_cancel e d q p)
  then have "execution_ok e" using inv_executionsD(1) [OF assms(2)] by blast
  then show ?thesis using exec_cancel executions_both_upd [OF assms(2)] by (simp add: coupled_def)
next
  case (exec_record e d)
  then have ok: "execution_ok e" using inv_executionsD(1) [OF assms(2)] by blast
  have "inv_executions (w\<lparr>w_executions := (w_executions w)(ex_id e \<mapsto> e)\<rparr>)"
  proof (rule executions_exec_upd [OF assms(2) ok])
    show "\<exists>p. w_plans w (ex_plan_id e) = Some p \<and> tp_status p = coupled (ex_status e) \<and>
        tp_project_id p = ex_project_id e \<and> tp_case_ids p = map cr_case_id (ex_results e)"
      using inv_executionsD(2) [OF assms(2) exec_record(2)] exec_record by simp
  next
    fix k x
    assume "w_executions w k = Some x" "ex_plan_id x = ex_plan_id e"
    then show "k = ex_id e" using inv_executionsD(3) [OF assms(2) exec_record(2)] exec_record by simp
  qed (use exec_record in simp)
  then show ?thesis using exec_record by simp
next
  case (exec_delete k)
  show ?thesis
    unfolding exec_delete(1)
  proof (rule inv_executionsI, goal_cases)
    case (1 i x)
    then show ?case using inv_executionsD(1,2) [OF assms(2), of i x] by (simp split: if_splits)
  next
    case (2 i j x y)
    then show ?case using inv_executionsD(3) [OF assms(2), of j y i x] by (simp split: if_splits)
  next
    case (3 i r)
    then obtain j x where j: "w_executions w j = Some x" "ex_plan_id x = i"
      using executed_plan [OF assms(2), of i r] by auto
    have "j \<noteq> k"
      using j 3 exec_delete(2) inv_executionsD(2) [OF assms(2) j(1)] by (auto simp: coupled_def)
    then show ?case using j by (intro exI [of _ j] exI [of _ x]) simp
  qed
qed (use assms(2) in simp_all)


lemma inv_defects_frame [simp]:
  "inv_defects (w\<lparr>w_projects := m0\<rparr>) = inv_defects w"
  "inv_defects (w\<lparr>w_suites := m1\<rparr>) = inv_defects w"
  "inv_defects (w\<lparr>w_snapshots := m3\<rparr>) = inv_defects w"
  "inv_defects (w\<lparr>w_plans := m4\<rparr>) = inv_defects w"
  by (simp_all add: inv_defects_def)

lemma inv_defectsD: "inv_defects w \<Longrightarrow> w_defects w k = Some d \<Longrightarrow> defect_links_ok w d \<and> defect_state_ok d"
  by (simp add: inv_defects_def)

lemma defects_upd:
  "inv_defects w \<Longrightarrow> defect_links_ok w d \<Longrightarrow> defect_state_ok d \<Longrightarrow>
   inv_defects (w\<lparr>w_defects := (w_defects w)(df_id d \<mapsto> d)\<rparr>)"
  by (simp add: inv_defects_def)

lemma defects_case_upd:
  "inv_defects w \<Longrightarrow> (\<And>b. w_cases w (tc_id c) = Some b \<Longrightarrow> tc_project_id c = tc_project_id b) \<Longrightarrow>
   inv_defects (w\<lparr>w_cases := (w_cases w)(tc_id c \<mapsto> c)\<rparr>)"
  by (simp add: inv_defects_def defect_links_case_upd)

lemma defects_exec_upd:
  assumes "inv_defects w"
    and "\<And>b. w_executions w (ex_id e) = Some b \<Longrightarrow> ex_project_id e = ex_project_id b \<and>
      ex_status e \<noteq> ExecCreated \<and> map cr_case_id (ex_results e) = map cr_case_id (ex_results b)"
  shows "inv_defects (w\<lparr>w_executions := (w_executions w)(ex_id e \<mapsto> e)\<rparr>)"
proof -
  have "cr_case_id ` set (ex_results e) = cr_case_id ` set (ex_results b)"
    if "w_executions w (ex_id e) = Some b" for b
    using assms(2) [OF that] by (metis list.set_map)
  then have "defect_links_ok (w\<lparr>w_executions := (w_executions w)(ex_id e \<mapsto> e)\<rparr>) x" if "defect_links_ok w x" for x
    using assms(2) by (intro defect_links_exec_upd that) blast
  then show ?thesis using assms(1) by (simp add: inv_defects_def)
qed

lemma step_defects:
  assumes "qa_step w w'" "inv_defects w"
  shows "inv_defects w'"
  using assms(1)
proof cases
  case (exec_start e d q p)
  then show ?thesis
    using defects_exec_upd [of "w\<lparr>w_plans := (w_plans w)(tp_id p \<mapsto> p)\<rparr>" e] assms(2) by simp
next
  case (exec_finish e d q p)
  then show ?thesis
    using defects_exec_upd [of "w\<lparr>w_plans := (w_plans w)(tp_id p \<mapsto> p)\<rparr>" e] assms(2) by simp
next
  case (exec_cancel e d q p)
  then show ?thesis
    using defects_exec_upd [of "w\<lparr>w_plans := (w_plans w)(tp_id p \<mapsto> p)\<rparr>" e] assms(2) by simp
next
  case (exec_record e d)
  then show ?thesis using assms(2) by (auto intro!: defects_exec_upd)
next
  case (exec_create e p)
  then show ?thesis using assms(2) by (auto intro!: defects_exec_upd)
next
  case (exec_delete k)
  then show ?thesis using assms(2) by (auto simp: inv_defects_def intro!: defect_links_exec_del)
next
  case (case_create c)
  then show ?thesis using assms(2) by (auto intro!: defects_case_upd)
next
  case (case_edit c d)
  then show ?thesis using assms(2) by (auto intro!: defects_case_upd)
next
  case (case_status c d)
  then show ?thesis using assms(2) by (auto intro!: defects_case_upd)
next
  case (case_delete k)
  then show ?thesis using assms(2) by (auto simp: inv_defects_def intro!: defect_links_case_del)
next
  case (defect_create d)
  then show ?thesis using assms(2) by (auto intro!: defects_upd)
next
  case (defect_edit d c)
  then have "defect_links_ok w d \<and> defect_state_ok d"
    using inv_defectsD [OF assms(2), of "df_id d" c] defect_links_same [of w c d] by simp
  then show ?thesis using defect_edit assms(2) by (auto intro!: defects_upd)
next
  case (defect_status d c)
  then have "defect_links_ok w d \<and> defect_state_ok d"
    using inv_defectsD [OF assms(2), of "df_id d" c] defect_links_same [of w c d] by simp
  then show ?thesis using defect_status assms(2) by (auto intro!: defects_upd)
qed (use assms(2) in simp_all)

lemma inv_snapshotsD:
  assumes "inv_snapshots w" "w_snapshots w k = Some x"
  shows "snapshot_ok x \<and> 1 \<le> sn_version x"
    and "1 \<le> v \<Longrightarrow> v < sn_version x \<Longrightarrow> \<exists>j y. w_snapshots w j = Some y \<and> same_scope y x \<and> sn_version y = v"
    and "w_snapshots w j = Some y \<Longrightarrow> same_scope y x \<Longrightarrow> sn_version y = sn_version x \<Longrightarrow> j = k"
  using assms unfolding inv_snapshots_def by blast+

lemma same_scope_sym: "same_scope a b \<Longrightarrow> same_scope b a"
  by (simp add: same_scope_def)

lemma same_scope_trans: "same_scope a b \<Longrightarrow> same_scope b c \<Longrightarrow> same_scope a c"
  by (simp add: same_scope_def)

lemma snapshots_upd:
  assumes inv: "inv_snapshots w" and new: "w_snapshots w (sn_id s) = None" "next_version w s" "snapshot_ok s"
  shows "inv_snapshots (w\<lparr>w_snapshots := (w_snapshots w)(sn_id s \<mapsto> s)\<rparr>)" (is "inv_snapshots ?w")
proof -
  have below: "\<exists>j y. w_snapshots w j = Some y \<and> same_scope y s \<and> sn_version y = v"
    if "1 \<le> v" "v < sn_version s" for v
  proof -
    have "sn_version s \<noteq> 1" using that by simp
    then obtain k x where x: "w_snapshots w k = Some x" "same_scope x s" "sn_version x = sn_version s - 1"
      using new(2) unfolding next_version_def by blast
    show ?thesis
    proof (cases "v = sn_version x")
      case True
      then show ?thesis using x by blast
    next
      case False
      then have "v < sn_version x" using that x(3) by simp
      then obtain j y where "w_snapshots w j = Some y" "same_scope y x" "sn_version y = v"
        using inv_snapshotsD(2) [OF inv x(1) \<open>1 \<le> v\<close>] by blast
      then show ?thesis using x(2) same_scope_trans by blast
    qed
  qed
  have pos: "1 \<le> sn_version s"
  proof (cases "sn_version s = 1")
    case False
    then obtain k x where "w_snapshots w k = Some x" "sn_version x = sn_version s - 1"
      using new(2) unfolding next_version_def by blast
    then show ?thesis using inv_snapshotsD(1) [OF inv] by fastforce
  qed simp
  have keep: "\<exists>j y. w_snapshots ?w j = Some y \<and> same_scope y x \<and> sn_version y = v"
    if ex: "\<exists>j y. w_snapshots w j = Some y \<and> same_scope y x \<and> sn_version y = v" for x v
  proof -
    obtain j y where "w_snapshots w j = Some y" "same_scope y x" "sn_version y = v" using ex by blast
    then show ?thesis using new(1) by (intro exI [of _ j] exI [of _ y]) auto
  qed
  have one: "snapshot_ok x \<and> 1 \<le> sn_version x \<and> (\<forall>v. 1 \<le> v \<longrightarrow> v < sn_version x \<longrightarrow>
      (\<exists>j y. w_snapshots ?w j = Some y \<and> same_scope y x \<and> sn_version y = v))"
    if "w_snapshots ?w k = Some x" for k x
  proof (cases "k = sn_id s")
    case True
    then show ?thesis using that below pos new(3) keep by simp
  next
    case False
    then show ?thesis using that inv_snapshotsD(1,2) [OF inv, of k x] keep by simp
  qed
  have less: "sn_version x < sn_version s" if "w_snapshots w k = Some x" "same_scope x s" for k x
    using that new(2) unfolding next_version_def by blast
  have "j = k" if "w_snapshots ?w j = Some x" "w_snapshots ?w k = Some y" "same_scope x y"
    "sn_version x = sn_version y" for j k x y
    using that less [of j x] less [of k y] same_scope_sym [of s y] inv_snapshotsD(3) [OF inv, of k y j x]
    by (auto split: if_splits)
  then show ?thesis unfolding inv_snapshots_def using one by blast
qed

lemma step_snapshots: "qa_step w w' \<Longrightarrow> inv_snapshots w \<Longrightarrow> inv_snapshots w'"
  by (erule qa_step.cases) (simp_all add: snapshots_upd, simp_all add: inv_snapshots_def)

lemma inv_quietD:
  assumes "inv_quiet w"
  shows "w_plans w k = Some x \<Longrightarrow> tp_status x \<in> {PlanDraft, PlanReady, PlanRunning} \<Longrightarrow>
      active_project w (tp_project_id x)"
    and "w_executions w k = Some y \<Longrightarrow> ex_status y \<in> {ExecCreated, ExecRunning} \<Longrightarrow>
      active_project w (ex_project_id y)"
    and "w_defects w k = Some z \<Longrightarrow> df_status z \<noteq> DefectClosed \<Longrightarrow> active_project w (df_project_id z)"
  using assms unfolding inv_quiet_def by blast+

lemma quiet_plan_upd:
  "inv_quiet w \<Longrightarrow> (tp_status p \<in> {PlanDraft, PlanReady, PlanRunning} \<Longrightarrow> active_project w (tp_project_id p)) \<Longrightarrow>
   inv_quiet (w\<lparr>w_plans := (w_plans w)(tp_id p \<mapsto> p)\<rparr>)"
  by (simp add: inv_quiet_def)

lemma quiet_exec_upd:
  "inv_quiet w \<Longrightarrow> (ex_status e \<in> {ExecCreated, ExecRunning} \<Longrightarrow> active_project w (ex_project_id e)) \<Longrightarrow>
   inv_quiet (w\<lparr>w_executions := (w_executions w)(ex_id e \<mapsto> e)\<rparr>)"
  by (simp add: inv_quiet_def)

lemma quiet_defect_upd:
  "inv_quiet w \<Longrightarrow> (df_status d \<noteq> DefectClosed \<Longrightarrow> active_project w (df_project_id d)) \<Longrightarrow>
   inv_quiet (w\<lparr>w_defects := (w_defects w)(df_id d \<mapsto> d)\<rparr>)"
  by (simp add: inv_quiet_def)

lemma inv_quiet_frame [simp]:
  "inv_quiet (w\<lparr>w_suites := m1\<rparr>) = inv_quiet w"
  "inv_quiet (w\<lparr>w_cases := m2\<rparr>) = inv_quiet w"
  "inv_quiet (w\<lparr>w_snapshots := m3\<rparr>) = inv_quiet w"
  by (simp_all add: inv_quiet_def)

lemma quiet_active_upd:
  assumes "inv_quiet w" "prj_status p = ProjectActive \<or>
    (\<exists>q. w_projects w (prj_id p) = Some q \<and> prj_status p = prj_status q)"
  shows "inv_quiet (w\<lparr>w_projects := (w_projects w)(prj_id p \<mapsto> p)\<rparr>)"
proof -
  have "active_project (w\<lparr>w_projects := (w_projects w)(prj_id p \<mapsto> p)\<rparr>) q" if "active_project w q" for q
    using that assms(2) by (auto simp: active_project_def)
  then show ?thesis using assms(1) by (auto simp: inv_quiet_def)
qed

text \<open>A project that no plan, execution or defect needs active may change at will.\<close>

lemma quiet_idle:
  assumes "inv_quiet w" "\<And>q. q \<noteq> i \<Longrightarrow> active_project w' q = active_project w q"
    and "w_plans w' = w_plans w" "w_executions w' = w_executions w" "w_defects w' = w_defects w"
    and "\<And>k x. w_plans w k = Some x \<Longrightarrow> tp_project_id x = i \<Longrightarrow> tp_status x \<in> {PlanCompleted, PlanCancelled}"
    and "\<And>k x. w_executions w k = Some x \<Longrightarrow> ex_project_id x = i \<Longrightarrow> ex_status x \<in> {ExecCompleted, ExecCancelled}"
    and "\<And>k x. w_defects w k = Some x \<Longrightarrow> df_project_id x = i \<Longrightarrow> df_status x = DefectClosed"
  shows "inv_quiet w'"
proof -
  have "active_project w' (tp_project_id x)"
    if "w_plans w k = Some x" "tp_status x \<in> {PlanDraft, PlanReady, PlanRunning}" for k x
    using that inv_quietD(1) [OF assms(1) that] assms(2) assms(6) [OF that(1)] by (cases "tp_project_id x = i") auto
  moreover have "active_project w' (ex_project_id x)"
    if "w_executions w k = Some x" "ex_status x \<in> {ExecCreated, ExecRunning}" for k x
    using that inv_quietD(2) [OF assms(1) that] assms(2) assms(7) [OF that(1)] by (cases "ex_project_id x = i") auto
  moreover have "active_project w' (df_project_id x)"
    if "w_defects w k = Some x" "df_status x \<noteq> DefectClosed" for k x
    using that inv_quietD(3) [OF assms(1) that] assms(2) assms(8) [OF that(1)] by (cases "df_project_id x = i") auto
  ultimately show ?thesis unfolding inv_quiet_def assms(3-5) by blast
qed

lemma step_quiet:
  assumes "qa_step w w'" "inv_quiet w" "inv_executions w"
  shows "inv_quiet w'"
  using assms(1)
proof cases
  case (project_archive p q)
  then show ?thesis by (intro quiet_idle [OF assms(2), of "prj_id p"]) (auto simp: active_project_def)
next
  case (project_delete p)
  have "ex_project_id x \<noteq> p" if "w_executions w k = Some x" for k x
    using inv_executionsD(2) [OF assms(3) that] project_delete(3) by auto
  then show ?thesis
    using project_delete by (intro quiet_idle [OF assms(2), of p]) (auto simp: active_project_def)
next
  case (project_create p)
  then show ?thesis using assms(2) by (simp add: quiet_active_upd)
next
  case (project_edit p q)
  then show ?thesis using assms(2) by (simp add: quiet_active_upd)
next
  case (project_activate p q)
  then show ?thesis using assms(2) by (simp add: quiet_active_upd)
next
  case (plan_edit p q)
  then show ?thesis using assms(2) inv_quietD(1) [OF assms(2), of "tp_id p" q] by (simp add: quiet_plan_upd)
next
  case (plan_back p q)
  then show ?thesis using assms(2) inv_quietD(1) [OF assms(2), of "tp_id p" q] by (simp add: quiet_plan_upd)
next
  case (plan_create p)
  then show ?thesis using assms(2) by (simp add: quiet_plan_upd)
next
  case (plan_ready p q)
  then show ?thesis using assms(2) by (simp add: quiet_plan_upd)
next
  case (plan_delete k)
  then show ?thesis using assms(2) by (simp add: inv_quiet_def)
next
  case (exec_delete k)
  then show ?thesis using assms(2) by (simp add: inv_quiet_def)
next
  case (exec_create e p)
  then show ?thesis using assms(2) by (simp add: quiet_exec_upd)
next
  case (exec_record e d)
  then show ?thesis using assms(2) inv_quietD(2) [OF assms(2), of "ex_id e" d] by (simp add: quiet_exec_upd)
next
  case (exec_start e d q p)
  then have "active_project w (tp_project_id p)" using inv_executionsD(2) [OF assms(3) exec_start(2)] by auto
  then show ?thesis
    using exec_start quiet_exec_upd [OF quiet_plan_upd [OF assms(2), of p], of e] by simp
next
  case (exec_finish e d q p)
  then show ?thesis
    using quiet_exec_upd [OF quiet_plan_upd [OF assms(2), of p], of e] by simp
next
  case (exec_cancel e d q p)
  then show ?thesis
    using quiet_exec_upd [OF quiet_plan_upd [OF assms(2), of p], of e] by simp
next
  case (defect_create d)
  then show ?thesis using assms(2) by (simp add: quiet_defect_upd)
next
  case (defect_edit d c)
  then show ?thesis using assms(2) inv_quietD(3) [OF assms(2), of "df_id d" c] by (simp add: quiet_defect_upd)
next
  case (defect_status d c)
  then show ?thesis using assms(2) by (simp add: quiet_defect_upd)
qed (use assms(2) in simp_all)

lemma qa_inv_start: "qa_inv empty_world"
  by (simp add: qa_inv_def empty_world_def inv_ids_def inv_keys_def inv_owned_def inv_tree_def inv_names_def
      inv_cases_def inv_plans_def inv_executions_def inv_defects_def inv_snapshots_def inv_quiet_def
      parent_rel_def acyclic_def)

lemma qa_inv_step: "qa_step w w' \<Longrightarrow> qa_inv w \<Longrightarrow> qa_inv w'"
  unfolding qa_inv_def
  by (blast intro: step_ids step_keys step_owned step_tree step_names step_cases step_plans step_executions
      step_defects step_snapshots step_quiet)

lemma reachable_inv: "w_reachable w \<Longrightarrow> qa_inv w"
  by (induction rule: w_reachable.induct) (auto intro: qa_inv_start qa_inv_step)

end
