(* ===== verification/Qa_System.thy ===== *)
theory Qa_System
  imports Comments Qa_Invariants
begin

text \<open>
  The QA core as a whole: the requests its services accept, the handler that dispatches them,
  and the states that sequences of requests reach. The business lock serialises the
  requests, so a history is a list of them.
\<close>

datatype qa_request =
    SetActor ActorIdentity
  | ResetActor "ActorIdentity option"
  | ProjectCreateR ProjectCreate
  | ProjectUpdateR id_arg ProjectUpdate
  | ProjectTransitionR id_arg ProjectStatus
  | ProjectDeleteR id_arg
  | SuiteCreateR TestSuiteCreate
  | SuiteUpdateR id_arg TestSuiteUpdate
  | SuiteTransitionR id_arg TestSuiteStatus
  | SuiteDeleteR id_arg
  | CaseCreateR TestCaseCreate
  | CaseUpdateR id_arg TestCaseUpdate
  | CaseTransitionR id_arg TestCaseStatus
  | CaseDeleteR id_arg
  | PlanCreateR TestPlanCreate
  | PlanUpdateR id_arg TestPlanUpdate
  | PlanTransitionR id_arg TestPlanStatus
  | PlanDeleteR id_arg
  | ExecCreateR id_arg
  | ExecTransitionR id_arg ExecutionStatus
  | ExecResultR id_arg id_arg CaseResultStatus text_t text_t
  | ExecDeleteR id_arg
  | DefectCreateR DefectCreate
  | DefectUpdateR id_arg DefectUpdate
  | DefectTransitionR id_arg DefectTransition
  | SnapshotCreateR TestCaseSnapshotCreate
  | CommentCreateR CommentCreate Principal
  | CommentUpdateR uuid text_t Principal
  | CommentDeleteR uuid Principal

definition discard :: "'a service \<Rightarrow> unit service" where
  "discard m = andThen m (\<lambda>_. ret ())"

text \<open>\<open>account\<close> says which user identifiers are accounts.\<close>

fun handle :: "(uuid \<Rightarrow> bool) \<Rightarrow> qa_request \<Rightarrow> unit service" where
  "handle account (SetActor a) = discard (set_current_actor a)"
| "handle account (ResetActor a) = reset_current_actor a"
| "handle account (ProjectCreateR p) = discard (project_create p)"
| "handle account (ProjectUpdateR i p) = discard (project_update i p)"
| "handle account (ProjectTransitionR i st) = discard (project_transition i st)"
| "handle account (ProjectDeleteR i) = discard (project_delete i)"
| "handle account (SuiteCreateR p) = discard (suite_create p)"
| "handle account (SuiteUpdateR i p) = discard (suite_update i p)"
| "handle account (SuiteTransitionR i st) = discard (suite_transition i st)"
| "handle account (SuiteDeleteR i) = discard (suite_delete i)"
| "handle account (CaseCreateR p) = discard (case_create p)"
| "handle account (CaseUpdateR i p) = discard (case_update i p)"
| "handle account (CaseTransitionR i st) = discard (case_transition i st)"
| "handle account (CaseDeleteR i) = discard (case_delete i)"
| "handle account (PlanCreateR p) = discard (plan_create p)"
| "handle account (PlanUpdateR i p) = discard (plan_update i p)"
| "handle account (PlanTransitionR i st) = discard (plan_transition i st)"
| "handle account (PlanDeleteR i) = discard (plan_delete i)"
| "handle account (ExecCreateR i) = discard (exec_create i)"
| "handle account (ExecTransitionR i st) = discard (exec_transition i st)"
| "handle account (ExecResultR i c st a k) = discard (update_case_result i c st a k)"
| "handle account (ExecDeleteR i) = discard (exec_delete i)"
| "handle account (DefectCreateR p) = discard (defect_create p)"
| "handle account (DefectUpdateR i p) = discard (defect_update i p)"
| "handle account (DefectTransitionR i p) = discard (defect_transition i p)"
| "handle account (SnapshotCreateR p) = discard (snapshot_create p)"
| "handle account (CommentCreateR p who) = discard (comment_create account p who)"
| "handle account (CommentUpdateR k body who) = discard (comment_update k body who)"
| "handle account (CommentDeleteR k who) = discard (comment_delete k who)"

text \<open>A history of requests; a request that raises leaves the state it raised in.\<close>

primrec run_requests :: "(uuid \<Rightarrow> bool) \<Rightarrow> qa_request list \<Rightarrow> qa \<Rightarrow> qa" where
  "run_requests account [] s = s"
| "run_requests account (r # rs) s = run_requests account rs (snd (handle account r s))"

definition initial_qa :: "(nat \<Rightarrow> instant) \<Rightarrow> (nat \<Rightarrow> uuid) \<Rightarrow> qa" where
  "initial_qa instants ids =
     \<lparr>biz = empty_biz, audit_events = [], comments = [], current_actor = None,
      clock = instants, ticks = 0, id_source = ids, ids_drawn = 0\<rparr>"

lemma discard_final [simp]: "snd (discard m s) = snd (m s)"
  by (simp add: discard_def andThen_def ret_def split: prod.split sum.split)

lemmas operations_simulated =
  project_create_simulated project_update_simulated project_transition_simulated project_delete_simulated
  suite_create_simulated suite_update_simulated suite_transition_simulated suite_delete_simulated
  case_create_simulated case_update_simulated case_transition_simulated case_delete_simulated
  plan_create_simulated plan_update_simulated plan_transition_simulated plan_delete_simulated
  exec_create_simulated exec_transition_simulated update_case_result_simulated exec_delete_simulated
  defect_create_simulated defect_update_simulated defect_transition_simulated
  snapshot_create_simulated comment_create_simulated comment_update_simulated comment_delete_simulated

lemma actor_refines: "refines s (snd (set_current_actor a s))" "refines s (snd (reset_current_actor t s))"
  by (simp_all add: set_current_actor_def reset_current_actor_def get_current_actor_def run_simps refines_same)

lemma handle_refines: "refines s (snd (handle account r s))"
  by (cases r) (simp_all add: simulated_run operations_simulated actor_refines)

lemma handle_inv:
  assumes "biz_ok (biz s)" "w_reachable (world_of (biz s))"
  shows "biz_ok (biz (snd (handle account r s))) \<and> w_reachable (world_of (biz (snd (handle account r s))))"
  using handle_refines [of s account r] assms
  by (auto simp: refines_def intro: w_reachable.step)

lemma run_reachable:
  assumes "biz_ok (biz s)" "w_reachable (world_of (biz s))"
  shows "biz_ok (biz (run_requests account rs s)) \<and> w_reachable (world_of (biz (run_requests account rs s)))"
  using assms by (induction rs arbitrary: s) (simp_all add: handle_inv)

lemma empty_biz_start: "biz_ok empty_biz" "world_of empty_biz = empty_world"
  by (simp_all add: biz_ok_def empty_biz_def repo_ok_def world_of_def empty_world_def repo_get_def [abs_def])

lemma run_from_start:
  "biz_ok (biz (run_requests account rs (initial_qa instants ids))) \<and>
   qa_inv (world_of (biz (run_requests account rs (initial_qa instants ids))))"
  using run_reachable [of "initial_qa instants ids" account rs] empty_biz_start
  by (simp add: initial_qa_def w_reachable.start reachable_inv)

end
