(* ===== verification/Qa_Properties.thy ===== *)
theory Qa_Properties
  imports Qa_System
begin

text \<open>
  What the QA core guarantees to its users: the invariants of every reachable state, the
  append-only logs, and the exact behaviour of the operations that carry the life cycles.
\<close>

section \<open>Append-only logs\<close>

definition appends :: "qa \<Rightarrow> qa \<Rightarrow> bool" where
  "appends s t \<longleftrightarrow>
     (\<exists>new. length new \<le> 1 \<and> repo_list (audit_events t) = repo_list (audit_events s) @ new) \<and>
     (\<exists>new. length new \<le> 1 \<and> repo_list (Snapshots t) = repo_list (Snapshots s) @ new)"

lemma appends_same:
  "audit_events t = audit_events s \<Longrightarrow> snapshots (biz t) = snapshots (biz s) \<Longrightarrow> appends s t"
  by (auto simp: appends_def intro!: exI [of _ "[]"])

lemma appends_audit:
  "audit_frame t u \<Longrightarrow> audit_events t = audit_events s \<Longrightarrow> snapshots (biz t) = snapshots (biz s) \<Longrightarrow>
   appends s u"
  by (auto simp: appends_def audit_frame_def)

lemma appends_snapshot:
  "audit_frame t u \<Longrightarrow> audit_events t = audit_events s \<Longrightarrow>
   repo_list (snapshots (biz t)) = repo_list (Snapshots s) @ [x] \<Longrightarrow> appends s u"
  by (auto simp: appends_def audit_frame_def)

lemmas operation_defs =
  project_create_def project_update_def project_transition_def project_delete_def
  project_get_unlocked_def ensure_project_has_no_active_work_def
  suite_create_def suite_update_def suite_transition_def suite_delete_def suite_defs
  case_create_def case_update_def case_transition_def case_delete_def case_defs
  plan_create_def plan_update_def plan_transition_def plan_delete_def plan_defs
  exec_create_def exec_transition_def update_case_result_def exec_delete_def exec_defs
  defect_create_def defect_update_def defect_transition_def defect_defs
  comment_create_def comment_update_def comment_delete_def comment_defs

abbreviation "appending op s \<equiv> wp op (\<lambda>_. appends s) (\<lambda>_. appends s) s"

lemma operations_append:
  "appending (project_create a1) s" "appending (project_update i a2) s"
  "appending (project_transition i a3) s" "appending (project_delete i) s"
  "appending (suite_create a4) s" "appending (suite_update i a5) s"
  "appending (suite_transition i a6) s" "appending (suite_delete i) s"
  "appending (case_create a7) s" "appending (case_update i a8) s"
  "appending (case_transition i a9) s" "appending (case_delete i) s"
  "appending (plan_create a10) s" "appending (plan_update i a11) s"
  "appending (plan_transition i a12) s" "appending (plan_delete i) s"
  "appending (exec_create i) s" "appending (exec_transition i a13) s" "appending (exec_delete i) s"
  "appending (defect_create a14) s" "appending (defect_update i a15) s"
  "appending (defect_transition i a16) s"
  "appending (comment_create acc a17 who) s" "appending (comment_update k body who) s"
  "appending (comment_delete k who) s"
  unfolding operation_defs
  by (intro wp_intros; ((rule appends_same; simp; fail) | (erule appends_audit; simp; fail)))+

lemma wp_record_results_frame:
  assumes "\<And>rs t. audit_events t = audit_events s \<Longrightarrow> biz t = biz s \<Longrightarrow> Q rs t"
  shows "wp (map_each (record_result c st a k) xs) Q E s"
  unfolding record_result_def
  by (intro wp_intros wp_map_each [where I = "\<lambda>t. audit_events t = audit_events s \<and> biz t = biz s"
        and R = "\<lambda>_ _. True"]) (auto intro!: assms)

lemma case_result_appends: "appending (update_case_result i c st a k) s"
  unfolding update_case_result_def exec_defs
  by (intro wp_record_results_frame wp_intros; (rule appends_same; simp; fail))

lemma snapshot_appends: "appending (snapshot_create p) s"
  unfolding snapshot_create_def
  by (intro wp_intros; ((rule appends_same; simp; fail) |
      (erule appends_snapshot, simp, drule repo_create_appends, simp; fail)))

lemma handle_appends: "appends s (snd (handle account r s))"
  using operations_append case_result_appends snapshot_appends
  by (cases r) (simp_all add: wp_final set_current_actor_def reset_current_actor_def get_current_actor_def
      run_simps appends_same)


section \<open>Reachable states\<close>

abbreviation "reached account rs instants ids \<equiv> run_requests account rs (initial_qa instants ids)"

text \<open>C2: The services refine the life cycles of the specification: in every reachable state, a request,
  whether it succeeds or raises, leaves the world of projects, suites, cases, snapshots, plans,
  executions and defects as it is or makes exactly one step that \<open>qa_step\<close> permits.\<close>

theorem requests_refine_lifecycles:
  "world_of (biz (snd (handle account r (reached account rs instants ids)))) = world_of (biz (reached account rs instants ids)) \<or>
   qa_step (world_of (biz (reached account rs instants ids))) (world_of (biz (snd (handle account r (reached account rs instants ids)))))"
  using handle_refines [of "reached account rs instants ids" account r]
    run_from_start [of account rs instants ids] by (simp add: refines_def)

text \<open>C1: Whatever requests the QA services receive, in whatever order, and whether they succeed or
  raise, the repositories stay well formed and the world satisfies all invariants: identifiers
  and project keys are unique, everything belongs to an existing project, the suite hierarchy
  is a forest inside one project with case-insensitively unique sibling names, cases lie in suites of
  their project with normal tags and active ones have steps, plans hold distinct existing cases
  of their project, executions and plans agree, defects refer to existing things and carry
  consistent status fields, snapshot versions are numbered without gaps, and archived projects
  have no open work.\<close>

theorem reachable_states_sound:
  "biz_ok (biz (reached account rs instants ids)) \<and> qa_inv (world_of (biz (reached account rs instants ids)))"
  by (rule run_from_start)

lemma reached_ok: "biz_ok (biz (reached account rs instants ids))"
  and reached_inv: "qa_inv (world_of (biz (reached account rs instants ids)))"
  using run_from_start by blast+






text \<open>C11: No request changes or removes an audit event or a test case snapshot: it appends at most one
  of each to the log, also when it raises.\<close>

theorem logs_append_only: "appends s (snd (handle account r s))"
  by (rule handle_appends)

section \<open>Life cycles\<close>

lemma audit_accepts_frame [simp]:
  "audit_accepts (s\<lparr>ticks := n\<rparr>) c = audit_accepts s c"
  "audit_accepts (biz_update f s) c = audit_accepts s c"
  by (simp_all add: audit_accepts_def audit_actor_def)

definition defect_transition_allowed :: "qa \<Rightarrow> uuid \<Rightarrow> DefectTransition \<Rightarrow> bool" where
  "defect_transition_allowed s k p =
     (case repo_get (Defects s) k of
        None \<Rightarrow> False
      | Some d \<Rightarrow> df_status d = dt_status p \<or>
          (defect_move (df_status d) (dt_status p) \<and>
           active_project (world_of (biz s)) (df_project_id d) \<and>
           (dt_status p \<noteq> InProgress \<or> py_strip (df_assignee d) \<noteq> []) \<and>
           (dt_status p \<noteq> Resolved \<or> (dt_resolution p \<noteq> None \<and> dt_resolution p \<noteq> Some [])) \<and>
           (dt_status p \<noteq> Reopened \<or> dt_comment p \<noteq> []) \<and>
           audit_accepts s (dt_comment p)))"

text \<open>C7: A defect transition is accepted exactly when the defect exists and already has the target
  status, or the life cycle has this move, the project is active, the data the target needs is
  there (an assignee, a resolution, a reason), and the audit trail accepts the event.\<close>

theorem defect_transition_accepted:
  "succeeds (defect_transition (IdUuid k) p) (reached account rs instants ids) =
     defect_transition_allowed (reached account rs instants ids) k p"
proof -
  define s where "s = reached account rs instants ids"
  have ok: "biz_ok (biz s)" unfolding s_def by (rule reached_ok)
  show ?thesis
  proof (cases "repo_get (Defects s) k")
    case None
    then show ?thesis
      unfolding s_def [symmetric]
      by (simp add: defect_transition_allowed_def defect_transition_def defect_get_unlocked_def succeeds_wp wp_simps)
  next
    case (Some d)
    then have id: "df_id d = k" by (rule stored_ids(7) [OF ok])
    have upd: "repo_update df_id [] (apply_defect_transition p n d) (Defects s) =
        Inr (AList.update k (apply_defect_transition p n d) (Defects s))" for n
      using Some id by (simp add: repo_update_def repo_get_def)
    show ?thesis
      unfolding s_def [symmetric] 
      using Some id upd audit_record_succeeds [OF entity_types_normal(1)]
      by (simp add: defect_transition_allowed_def defect_transition_def defect_defs require_active_project_def
          defect_transitions_iff succeeds_wp wp_simps wp_ret [abs_def] active_project_def Let_def split: option.split)
        auto
  qed
qed

text \<open>C8: An accepted execution transition leaves the execution with the target status and its plan
  with the status coupled to it; a refused one changes no repository.\<close>

theorem execution_transition_effect:
  "wp (exec_transition (IdUuid k) target)
     (\<lambda>e t. ex_status e = target \<and> repo_get (Executions t) k = Some e \<and>
        map_option tp_status (repo_get (TestPlans t) (ex_plan_id e)) = Some (coupled target))
     (\<lambda>_ t. biz t = biz (reached account rs instants ids))
     (reached account rs instants ids)"
proof -
  define s where "s = reached account rs instants ids"
  have ok: "biz_ok (biz s)" unfolding s_def by (rule reached_ok)
  have inv: "inv_executions (world_of (biz s))" using reached_inv unfolding s_def qa_inv_def by blast
  have same: "map_option tp_status (repo_get (TestPlans s) (ex_plan_id e)) = Some (coupled (ex_status e))"
    if "repo_get (Executions s) j = Some e" for j e
    using inv_executionsD(2) [OF inv, of j e] that by auto
  have both: "repo_get r2 j = Some e' \<and> map_option tp_status (repo_get r1 (ex_plan_id e')) = Some (tp_status p)"
    if "repo_get (Executions s) j = Some e" "repo_update ex_id [] e' (Executions s) = Inr r2"
      "ex_id e' = ex_id e" "ex_plan_id e' = ex_plan_id e"
      "repo_get (TestPlans s) (ex_plan_id e) = Some q" "repo_update tp_id [] p (TestPlans s) = Inr r1"
      "tp_id p = tp_id q" for j e e' q p r1 r2
    using mem.update_law [OF biz_okD(6) [OF ok] that(2)] mem.update_law [OF biz_okD(5) [OF ok] that(6)]
      stored_ids(5,6) [OF ok] that by auto
  have no: False if "repo_get (Executions s) j = Some e" "repo_update ex_id [] e' (Executions s) = Inl x"
      "ex_id e' = ex_id e" for j e e' x
    using repo_update_fails [OF that(2)] stored_ids(6) [OF ok] that by simp
  show ?thesis
    unfolding s_def [symmetric] exec_transition_def exec_defs
    apply (intro wp_intros; simp add: same)
         apply (rule FalseE, erule (1) no, simp)
        apply (frule both, assumption, simp, simp, simp, assumption, simp, simp add: coupled_def)
       apply (rule FalseE, erule (1) no, simp)
      apply (frule both, assumption, simp, simp, simp, assumption, simp, simp add: coupled_def)
     apply (rule FalseE, erule (1) no, simp)
    apply (frule both, assumption, simp, simp, simp, assumption, simp, simp add: coupled_def)
    done
qed

end
