(* ===== verification/Qa_Structure.thy ===== *)
theory Qa_Structure
  imports Qa_Properties
begin

text \<open>
  The structural guarantees of the QA core: the walks over the suite hierarchy decide what they
  are meant to decide, snapshots are complete and faithful copies of their scope, and the
  operations on projects, results and comments do exactly what their guards say.
\<close>

section \<open>The suite hierarchy\<close>

lemma walk_parents_complete:
  assumes "acyclic (parent_rel (world_of b))" "parent_allowed (world_of b) project_id suite_id start"
    and "\<And>v c. v \<in> set visited \<Longrightarrow> start = Some c \<Longrightarrow> (c, v) \<notin> (parent_rel (world_of b))\<^sup>*"
  shows "walk_parents (test_suites b) project_id suite_id visited start = Inr ()"
  using assms(2,3)
proof (induction "test_suites b" project_id suite_id visited start rule: walk_parents.induct)
  case (1 project_id suite_id visited)
  then show ?case by simp
next
  case (2 project_id suite_id visited c)
  have "(c, c) \<in> (parent_rel (world_of b))\<^sup>*" by simp
  then obtain s where s: "repo_get (test_suites b) c = Some s" "ts_project_id s = project_id"
    "ts_status s = SuiteActive" "Some c \<noteq> suite_id"
    using 2(2) unfolding parent_allowed_def by (auto simp del: rtrancl.rtrancl_refl)
  have up: "(c, q) \<in> parent_rel (world_of b)" if "ts_parent_id s = Some q" for q
    using s(1) that by (simp add: parent_rel_def)
  have fresh: "c \<notin> set visited" using 2(3) by blast
  have "walk_parents (test_suites b) project_id suite_id (c # visited) (ts_parent_id s) = Inr ()"
  proof (rule 2(1))
    show "parent_allowed (world_of b) project_id suite_id (ts_parent_id s)"
      unfolding parent_allowed_def
    proof (intro allI impI)
      fix p a
      assume "ts_parent_id s = Some p" "(p, a) \<in> (parent_rel (world_of b))\<^sup>*"
      then have "(c, a) \<in> (parent_rel (world_of b))\<^sup>*" using up converse_rtrancl_into_rtrancl by metis
      then show "Some a \<noteq> suite_id \<and> (\<exists>s. w_suites (world_of b) a = Some s \<and>
          ts_project_id s = project_id \<and> ts_status s = SuiteActive)"
        using 2(2) unfolding parent_allowed_def by blast
    qed
  next
    fix v q
    assume v: "v \<in> set (c # visited)" and q: "ts_parent_id s = Some q"
    show "(q, v) \<notin> (parent_rel (world_of b))\<^sup>*"
    proof
      assume path: "(q, v) \<in> (parent_rel (world_of b))\<^sup>*"
      then have "(c, v) \<in> (parent_rel (world_of b))\<^sup>+" using up [OF q] by (rule rtrancl_into_trancl2 [rotated])
      then show False
        using v 2(3) [of v c] assms(1) by (auto simp: acyclic_def dest: trancl_into_rtrancl)
    qed
  qed (use s fresh in auto)
  then show ?case using s fresh by simp
qed

text \<open>C6: In every reachable state \<open>_validate_parent\<close> ends, and it accepts exactly the parents under which
  the suite may hang: the parent and all its ancestors exist in the project, are active, and are
  not the suite itself. It never reports a cycle that is not there.\<close>

theorem validate_parent_exact:
  "succeeds (validate_parent project_id suite_id parent_id) (reached account rs instants ids) =
     parent_allowed (world_of (biz (reached account rs instants ids))) project_id suite_id parent_id"
proof -
  have "acyclic (parent_rel (world_of (biz (reached account rs instants ids))))"
    using reached_inv by (simp add: qa_inv_def inv_tree_def)
  then have "walk_parents (test_suites (biz (reached account rs instants ids))) project_id suite_id [] parent_id = Inr ()
      \<longleftrightarrow> parent_allowed (world_of (biz (reached account rs instants ids))) project_id suite_id parent_id"
    using walk_parents_sound walk_parents_complete by fastforce
  then show ?thesis
    by (auto simp: validate_parent_def succeeds_wp wp_simps split: sum.split)
qed

definition child_rel :: "TestSuite list \<Rightarrow> (uuid \<times> uuid) set" where
  "child_rel suites = {(a, p). \<exists>s \<in> set suites. ts_id s = a \<and> ts_parent_id s = Some p}"

lemma children_of_iff: "a \<in> children_of suites A \<longleftrightarrow> (\<exists>p \<in> A. (a, p) \<in> child_rel suites)"
  by (force simp: children_of_def child_rel_def split: option.splits)

lemma grow_scope_closure: "grow_scope suites A = {a. \<exists>r \<in> A. (a, r) \<in> (child_rel suites)\<^sup>*}"
proof (induction suites A rule: grow_scope.induct)
  case (1 suites A)
  let ?E = "A \<union> children_of suites A"
  show ?case
  proof (cases "?E = A")
    case True
    have "a \<in> A" if "(a, r) \<in> (child_rel suites)\<^sup>*" "r \<in> A" for a r
      using that
    proof (induction rule: converse_rtrancl_induct)
      case (step y z)
      then have "y \<in> children_of suites A" using children_of_iff by blast
      then show ?case using True by blast
    qed
    then show ?thesis using True by (subst grow_scope.simps) auto
  next
    case False
    then have "grow_scope suites A = {a. \<exists>r \<in> ?E. (a, r) \<in> (child_rel suites)\<^sup>*}"
      using 1 [OF refl False] by (subst grow_scope.simps) (simp add: Let_def)
    also have "\<dots> = {a. \<exists>r \<in> A. (a, r) \<in> (child_rel suites)\<^sup>*}"
      using children_of_iff by (blast intro: rtrancl.rtrancl_into_rtrancl)
    finally show ?thesis .
  qed
qed

text \<open>C13: The loop of \<open>_suite_scope_ids\<close> ends with exactly the suite and its descendants, whatever the
  parent references are.\<close>

theorem suite_scope_is_subtree:
  "suite_scope_ids root suites True = {a. (a, root) \<in> (child_rel suites)\<^sup>*}"
  by (simp add: suite_scope_ids_def grow_scope_closure)

section \<open>Snapshots\<close>

definition copy_of :: "TestCaseSnapshotItem \<Rightarrow> TestCase \<Rightarrow> bool" where
  "copy_of i c \<longleftrightarrow> si_source_case_id i = tc_id c \<and> si_title i = tc_title c \<and>
    si_steps i = tc_steps c \<and> si_status i = tc_status c \<and> si_tags i = tc_tags c \<and>
    si_preconditions i = tc_preconditions c \<and> si_priority i = tc_priority c \<and>
    si_case_type i = tc_case_type c \<and> si_source_suite_id i = tc_suite_id c \<and>
    si_source_created_at i = tc_created_at c \<and> si_source_updated_at i = tc_updated_at c"

text \<open>The cases that the scope of a snapshot takes in.\<close>

definition snapshot_cases :: "biz \<Rightarrow> bool \<Rightarrow> TestCaseSnapshot \<Rightarrow> TestCase set" where
  "snapshot_cases b descendants s =
     {c \<in> set (repo_list (test_cases b)). tc_project_id c = sn_project_id s \<and>
        (sn_scope_type s = ScopeProject \<or>
         (\<exists>k. tc_suite_id c = Some k \<and>
            (k = sn_scope_id s \<or> (descendants \<and> (k, sn_scope_id s) \<in>
               (child_rel (filter (\<lambda>x. ts_project_id x = sn_project_id s) (repo_list (test_suites b))))\<^sup>*))))}"

definition faithful_snapshot :: "biz \<Rightarrow> bool \<Rightarrow> TestCaseSnapshot \<Rightarrow> bool" where
  "faithful_snapshot b descendants s \<longleftrightarrow>
     (\<exists>ordered. set ordered = snapshot_cases b descendants s \<and> distinct ordered \<and>
        list_all2 copy_of (sn_items s) ordered)"

lemma items_copy:
  assumes "map_result (\<lambda>(position, c). snapshot_item c (int position) d) (enumerate n ordered) = Inr items"
  shows "list_all2 copy_of items ordered"
  using assms
proof (induction ordered arbitrary: n items)
  case (Cons c cs)
  then obtain i rest where "snapshot_item c (int n) d = Inr i" "items = i # rest"
    "map_result (\<lambda>(position, c). snapshot_item c (int position) d) (enumerate (Suc n) cs) = Inr rest"
    by (auto simp: bind_sum_Inr)
  then show ?case using Cons.IH snapshot_item_fields by (auto simp: copy_of_def)
qed simp

lemma ordered_copies:
  assumes "biz_ok b" "order_cases d (filter P (repo_list (test_cases b))) = Inr ordered"
  shows "set ordered = {c \<in> set (repo_list (test_cases b)). P c} \<and> distinct ordered"
proof -
  have m: "mset ordered = mset (filter P (repo_list (test_cases b)))" using assms(2) by (rule order_cases_perm)
  have "distinct (filter P (repo_list (test_cases b)))"
    using cases_distinct [OF assms(1), of P] by (simp add: distinct_map)
  then show ?thesis using m mset_eq_setD [OF m] mset_eq_imp_distinct_iff [OF m] by simp
qed

lemma in_scope_closure:
  "in_scope (Some (suite_scope_ids r suites inc)) c \<longleftrightarrow>
     (\<exists>k. tc_suite_id c = Some k \<and> (k = r \<or> (inc \<and> (k, r) \<in> (child_rel suites)\<^sup>*)))"
  by (auto simp: in_scope_def suite_scope_ids_def grow_scope_closure split: option.split)

definition snapshot_scope_ok :: "TestCaseSnapshotCreate \<Rightarrow> TestSuite list \<Rightarrow>
    SnapshotScopeType \<times> uuid \<times> text_t \<times> uuid set option \<Rightarrow> bool" where
  "snapshot_scope_ok payload suites r \<longleftrightarrow>
     (fst r = ScopeProject \<and> snd (snd (snd r)) = None) \<or>
     (fst r = ScopeSuite \<and>
        snd (snd (snd r)) = Some (suite_scope_ids (fst (snd r)) suites (snc_include_descendants payload)))"

lemma wp_snapshot_scope_exact:
  assumes "\<And>x. E x s" and "\<And>r. snapshot_scope_ok payload suites r \<Longrightarrow> Q r s"
  shows "wp (snapshot_scope payload p suites) Q E s"
  unfolding snapshot_scope_def by (intro wp_intros assms) (simp_all add: snapshot_scope_ok_def)

lemma wp_audit_after:
  assumes "\<And>x t. E x t" "\<And>t. Q y t"
  shows "wp (andThen (audit_record p ty i a ch co ac us) (\<lambda>_. ret y)) Q E s"
  by (intro wp_intros assms)

text \<open>C5: A snapshot that \<open>create\<close> returns lists, each once and copied field by field, exactly the cases
  of its scope: all cases of the project, or those in the suite and, when asked for, in its
  descendants.\<close>

theorem snapshot_faithful:
  "wp (snapshot_create payload)
     (\<lambda>sn _. faithful_snapshot (biz (reached account rs instants ids)) (snc_include_descendants payload) sn)
     (\<lambda>_ _. True) (reached account rs instants ids)"
proof -
  define s where "s = reached account rs instants ids"
  have ok: "biz_ok (biz s)" unfolding s_def by (rule reached_ok)
  have step: "faithful_snapshot (biz s) (snc_include_descendants payload) sn"
    if ord: "order_cases d (filter (\<lambda>c. tc_project_id c = sn_project_id sn \<and> in_scope allowed c)
        (repo_list (TestCases s))) = Inr ordered"
      and items: "map_result (\<lambda>(position, c). snapshot_item c (int position) d) (enumerate 0 ordered) = Inr (sn_items sn)"
      and scope: "snapshot_scope_ok payload (filter (\<lambda>x. ts_project_id x = sn_project_id sn) (repo_list (TestSuites s)))
        (sn_scope_type sn, sn_scope_id sn, nm, allowed)"
    for sn nm allowed d ordered
  proof -
    have "{c \<in> set (repo_list (TestCases s)). tc_project_id c = sn_project_id sn \<and> in_scope allowed c} =
        snapshot_cases (biz s) (snc_include_descendants payload) sn"
      using scope unfolding snapshot_cases_def snapshot_scope_ok_def
      by (auto simp: in_scope_closure) (simp_all add: in_scope_def)
    then show ?thesis
      using ordered_copies [OF ok ord] items_copy [OF items] unfolding faithful_snapshot_def by auto
  qed
  show ?thesis
    unfolding s_def [symmetric] snapshot_create_def
    apply (intro wp_audit_after wp_snapshot_scope_exact wp_intros; simp?)
    apply (rule step)
      apply simp
     apply simp
    apply (simp add: snapshot_scope_ok_def)
    done
qed

section \<open>Operations\<close>

definition archive_allowed :: "qa \<Rightarrow> uuid \<Rightarrow> bool" where
  "archive_allowed s k =
     (case repo_get (Projects s) k of
        None \<Rightarrow> False
      | Some p \<Rightarrow> prj_status p = ProjectArchived \<or>
          (list_all (\<lambda>x. tp_project_id x \<noteq> k \<or> tp_status x = PlanCompleted \<or> tp_status x = PlanCancelled)
             (repo_list (TestPlans s)) \<and>
           list_all (\<lambda>x. ex_project_id x \<noteq> k \<or> ex_status x = ExecCompleted \<or> ex_status x = ExecCancelled)
             (repo_list (Executions s)) \<and>
           list_all (\<lambda>x. df_project_id x \<noteq> k \<or> df_status x = DefectClosed) (repo_list (Defects s))))"

lemma same_key_update:
  assumes "biz_ok b" "inv_keys (world_of b)" "repo_get (projects b) k = Some p"
    "prj_key q = prj_key p" "prj_id q = k"
  shows "\<exists>r. repo_update prj_id [same_key] q (projects b) = Inr r"
proof -
  have "j = k" if "(j, x) \<in> set (projects b)" "same_key x q" for j x
  proof -
    have "repo_get (projects b) j = Some x"
      using that(1) biz_okD(1) [OF assms(1)] by (simp add: repo_get_def repo_ok_def)
    then show ?thesis using that(2) assms(2-4) by (simp add: same_key_def inv_keys_def)
  qed
  then have "ensure_unique q [same_key] (Some k) (projects b)" by (auto simp: ensure_unique_def)
  then show ?thesis using assms(3,5) by (auto simp: repo_update_def repo_get_def)
qed

text \<open>C10: Archiving a project is accepted exactly when the project exists and is archived already, or no
  plan, execution or defect of it is open; nothing else can refuse it.\<close>

theorem archive_exact:
  "succeeds (project_transition (IdUuid k) ProjectArchived) (reached account rs instants ids) =
     archive_allowed (reached account rs instants ids) k"
proof -
  define s where "s = reached account rs instants ids"
  have ok: "biz_ok (biz s)" unfolding s_def by (rule reached_ok)
  have keys: "inv_keys (world_of (biz s))" using reached_inv unfolding s_def qa_inv_def by blast
  show ?thesis
  proof (cases "repo_get (Projects s) k")
    case None
    then show ?thesis
      unfolding s_def [symmetric]
      by (simp add: archive_allowed_def project_transition_def project_get_unlocked_def succeeds_wp wp_simps)
  next
    case (Some p)
    then have id: "prj_id p = k" by (rule stored_ids(1) [OF ok])
    obtain r where r: "repo_update prj_id [same_key] (p\<lparr>prj_status := ProjectArchived, prj_updated_at := clock s (ticks s)\<rparr>)
        (Projects s) = Inr r"
      using same_key_update [OF ok keys Some] id by fastforce
    have statuses: "(st = PlanCompleted \<or> st = PlanCancelled) = (st \<noteq> PlanDraft \<and> st \<noteq> PlanReady \<and> st \<noteq> PlanRunning)"
      "(es = ExecCompleted \<or> es = ExecCancelled) = (es \<noteq> ExecCreated \<and> es \<noteq> ExecRunning)" for st es
      by (cases st; simp) (cases es; simp)
    show ?thesis
      unfolding s_def [symmetric] archive_allowed_def list_all_iff statuses
      using Some id r
      by (simp add: project_transition_def project_get_unlocked_def ensure_project_has_no_active_work_def
          succeeds_wp wp_simps)
  qed
qed

definition result_after ::
  "uuid \<Rightarrow> CaseResultStatus \<Rightarrow> text_t \<Rightarrow> text_t \<Rightarrow> CaseExecutionResult \<Rightarrow> CaseExecutionResult \<Rightarrow> bool" where
  "result_after c st a k r r' \<longleftrightarrow>
     (if cr_case_id r = c
      then (\<exists>t. r' = r\<lparr>cr_status := st, cr_actual_result := a, cr_comment := k, cr_executed_at := Some t\<rparr>)
      else r' = r)"

lemma wp_results_after:
  assumes "\<And>rs t. list_all2 (result_after c st a k) xs rs \<Longrightarrow> biz t = biz s \<Longrightarrow> Q rs t"
  shows "wp (map_each (record_result c st a k) xs) Q E s"
  unfolding record_result_def
  by (intro wp_intros wp_map_each [where I = "\<lambda>t. biz t = biz s" and R = "result_after c st a k"])
    (auto simp: result_after_def intro!: assms)

text \<open>C9: Recording a result succeeds only on a running execution, with a status other than not_run and a
  case that the execution has; it then replaces exactly the results of that case and nothing
  else of the world. A refused call changes no repository.\<close>

theorem case_result_exact:
  "wp (update_case_result (IdUuid k) (IdUuid c) st a m)
     (\<lambda>e t. st \<noteq> NotRun \<and> c \<in> cr_case_id ` set (ex_results e) \<and>
        (\<exists>d. repo_get (Executions (reached account rs instants ids)) k = Some d \<and> ex_status d = ExecRunning \<and>
           ex_status e = ExecRunning \<and> list_all2 (result_after c st a m) (ex_results d) (ex_results e)) \<and>
        world_of (biz t) = (world_of (biz (reached account rs instants ids)))
          \<lparr>w_executions := (repo_get (Executions (reached account rs instants ids)))(k \<mapsto> e)\<rparr>)
     (\<lambda>_ t. biz t = biz (reached account rs instants ids))
     (reached account rs instants ids)"
proof -
  define s where "s = reached account rs instants ids"
  have ok: "biz_ok (biz s)" unfolding s_def by (rule reached_ok)
  have ids: "c \<in> cr_case_id ` set ys" if "list_all2 (result_after c st a m) xs ys" "\<exists>r \<in> set xs. cr_case_id r = c" for xs ys
    using that
    by (induction rule: list_all2_induct) (auto simp: result_after_def)
  have stored: "world_of (executions_update (\<lambda>_. r) (biz s)) =
      (world_of (biz s))\<lparr>w_executions := (repo_get (Executions s))(k \<mapsto> e)\<rparr>"
    if "repo_update ex_id [] e (Executions s) = Inr r" "ex_id e = k" for e r
    using mem.update_law [OF biz_okD(6) [OF ok] that(1)] that(2) by simp
  show ?thesis
    unfolding s_def [symmetric] update_case_result_def exec_defs
    apply (intro wp_results_after wp_intros; simp?)
    using stored_ids(6) [OF ok] ids stored by auto
qed




end
