(* ===== verification/Automation_Models.thy ===== *)
theory Automation_Models
  imports Complex_Main Calendar
begin

text \<open>
  \<open>automation/models.py\<close> and \<open>automation/errors.py\<close>: the values of the task queue, the device
  manager and the scheduler, and the environment their calls draw from: instants
  (\<open>utc_now\<close>), identifiers (\<open>uuid4\<close>), lease tokens (\<open>secrets.token_urlsafe\<close>) and entropy
  (\<open>random.random\<close>). SHA-256 is the argument \<open>digest\<close> of the operations that hash; nothing
  but its being a function is used.
\<close>

datatype automation_error =
    AutomationNotFoundError text_t
  | AutomationConflictError text_t
  | AutomationLeaseError text_t
  | AutomationValidationError text_t
  | ModelValidationError text_t  \<comment> \<open>pydantic's rejection of a field\<close>
  | PyKeyError text_t

section \<open>Tasks\<close>

datatype TaskStatus = Queued | Running | RetryWait | Succeeded | Failed | Cancelled | DeadLetter

definition is_terminal :: "TaskStatus \<Rightarrow> bool" where
  "is_terminal st \<longleftrightarrow> st \<in> {Succeeded, Failed, Cancelled, DeadLetter}"

definition is_active :: "TaskStatus \<Rightarrow> bool" where
  "is_active st \<longleftrightarrow> st \<in> {Queued, Running, RetryWait}"

record AutomationTask =
  tk_id :: text_t
  tk_task_type :: text_t
  tk_payload :: json
  tk_queue :: text_t
  tk_priority :: int
  tk_status :: TaskStatus
  tk_idempotency_key :: "text_t option"
  tk_request_fingerprint :: text_t
  tk_source_schedule_id :: "text_t option"
  tk_attempts :: int
  tk_max_attempts :: int
  tk_available_at :: instant
  tk_lease_owner :: "text_t option"
  tk_lease_token_hash :: "text_t option"
  tk_lease_expires_at :: "instant option"
  tk_heartbeat_at :: "instant option"
  tk_cancel_requested :: bool
  tk_result :: "json option"
  tk_error_code :: "text_t option"
  tk_created_at :: instant
  tk_started_at :: "instant option"
  tk_finished_at :: "instant option"

record EnqueueResult =
  er_task :: AutomationTask
  er_replayed :: bool

record ClaimedTask =
  ct_task :: AutomationTask
  ct_lease_token :: text_t

text \<open>The declared bounds of the fields of \<open>AutomationTask\<close> that a caller chooses.\<close>

definition task_fields_valid :: "AutomationTask \<Rightarrow> bool" where
  "task_fields_valid t \<longleftrightarrow>
     1 \<le> length (tk_task_type t) \<and> length (tk_task_type t) \<le> 100 \<and>
     1 \<le> length (tk_queue t) \<and> length (tk_queue t) \<le> 100 \<and>
     0 \<le> tk_priority t \<and> tk_priority t \<le> 100 \<and>
     (case tk_idempotency_key t of None \<Rightarrow> True | Some k \<Rightarrow> 1 \<le> length k \<and> length k \<le> 200) \<and>
     1 \<le> tk_max_attempts t \<and> tk_max_attempts t \<le> 100"

section \<open>Devices\<close>

datatype DeviceStatus = Offline | Idle | Reserved | Busy | Maintenance

datatype DeviceLeaseStatus = LeaseActive | LeaseReleased | LeaseExpired

record Device =
  dv_id :: text_t
  dv_name :: text_t
  dv_kind :: text_t
  dv_platform :: text_t
  dv_capabilities :: "text_t list"
  dv_agent_id :: text_t
  dv_enabled :: bool
  dv_status :: DeviceStatus
  dv_last_heartbeat_at :: "instant option"
  dv_active_lease_id :: "text_t option"
  dv_version :: int
  dv_created_at :: instant
  dv_updated_at :: instant

record DeviceLease =
  dl_id :: text_t
  dl_device_id :: text_t
  dl_task_id :: text_t
  dl_owner :: text_t
  dl_token_hash :: text_t
  dl_status :: DeviceLeaseStatus
  dl_acquired_at :: instant
  dl_expires_at :: instant
  dl_released_at :: "instant option"
  dl_version :: int

record ClaimedDeviceLease =
  cl_device :: Device
  cl_lease :: DeviceLease
  cl_lease_token :: text_t

definition device_fields_valid :: "Device \<Rightarrow> bool" where
  "device_fields_valid d \<longleftrightarrow>
     1 \<le> length (dv_name d) \<and> length (dv_name d) \<le> 150 \<and>
     1 \<le> length (dv_kind d) \<and> length (dv_kind d) \<le> 50 \<and>
     1 \<le> length (dv_platform d) \<and> length (dv_platform d) \<le> 100 \<and>
     1 \<le> length (dv_agent_id d) \<and> length (dv_agent_id d) \<le> 200 \<and>
     length (remdups (dv_capabilities d)) \<le> 100 \<and>
     list_all (\<lambda>c. c \<noteq> [] \<and> length c \<le> 100) (dv_capabilities d)"

section \<open>Schedules\<close>

datatype MisfirePolicy = SkipMisfire | FireOnce | CatchUpLimited

datatype OverlapPolicy = Forbid | Allow | Replace

datatype ScheduleFireStatus = Enqueued | SkippedMisfire | SkippedOverlap

text \<open>The instants of a schedule are aware; a caller's \<open>next_run_at\<close>, which need not be, is an argument of \<open>add\<close>.\<close>

record AutomationSchedule =
  sd_id :: text_t
  sd_name :: text_t
  sd_task_type :: text_t
  sd_payload :: json
  sd_queue :: text_t
  sd_priority :: int
  sd_max_attempts :: int
  sd_cron :: text_t
  sd_timezone :: text_t
  sd_misfire_policy :: MisfirePolicy
  sd_overlap_policy :: OverlapPolicy
  sd_misfire_grace_seconds :: int
  sd_catch_up_limit :: nat
  sd_enabled :: bool
  sd_next_run_at :: "instant option"
  sd_last_run_at :: "instant option"
  sd_version :: int
  sd_created_at :: instant
  sd_updated_at :: instant

record ScheduleFire =
  sf_id :: text_t
  sf_schedule_id :: text_t
  sf_scheduled_for :: instant
  sf_status :: ScheduleFireStatus
  sf_task_id :: "text_t option"
  sf_created_at :: instant

section \<open>The environment\<close>

record aenv =
  now_at :: "nat \<Rightarrow> instant"
  now_count :: nat
  id_at :: "nat \<Rightarrow> uuid"
  id_count :: nat
  token_at :: "nat \<Rightarrow> text_t"
  token_count :: nat
  entropy_at :: "nat \<Rightarrow> rat"
  entropy_count :: nat

text \<open>\<open>_as_utc\<close>: a naive timestamp is refused.\<close>

fun as_utc :: "text_t \<Rightarrow> dt \<Rightarrow> automation_error + instant" where
  "as_utc message (Aware t) = Inr t"
| "as_utc message (Naive t) = Inl (AutomationValidationError message)"

definition seconds :: "int \<Rightarrow> int" where
  "seconds n = n * second_us"

text \<open>\<open>timedelta(seconds=x)\<close> rounds to the nearest microsecond, halves to even.\<close>

definition round_half_even :: "rat \<Rightarrow> int" where
  "round_half_even x =
     (let f = \<lfloor>x\<rfloor>; r = x - of_int f
      in if r < 1/2 then f else if r > 1/2 then f + 1 else if even f then f else f + 1)"

definition microseconds :: "rat \<Rightarrow> int" where
  "microseconds s = round_half_even (s * 1000000)"

lemma seconds_pos: "1 \<le> n \<Longrightarrow> 0 < seconds n"
  by (simp add: seconds_def second_us_def)

lemma microseconds_nonneg: "0 \<le> s \<Longrightarrow> 0 \<le> microseconds s"
  by (auto simp: microseconds_def round_half_even_def Let_def)

section \<open>Promises of the environment\<close>

text \<open>
  What the guarantees need of the environment of a finished run: the identifiers drawn are
  distinct and the entropy drawn lies in the unit interval, as \<open>uuid4\<close> and \<open>random.random\<close>
  document.
\<close>

definition env_ok :: "aenv \<Rightarrow> bool" where
  "env_ok e \<longleftrightarrow> distinct (map (id_at e) [0..<id_count e]) \<and>
     list_all (\<lambda>n. 0 \<le> entropy_at e n \<and> entropy_at e n \<le> 1) [0..<entropy_count e]"

definition env_le :: "aenv \<Rightarrow> aenv \<Rightarrow> bool" where
  "env_le e f \<longleftrightarrow> now_at f = now_at e \<and> id_at f = id_at e \<and> token_at f = token_at e \<and> entropy_at f = entropy_at e \<and>
     now_count e \<le> now_count f \<and> id_count e \<le> id_count f \<and> token_count e \<le> token_count f \<and>
     entropy_count e \<le> entropy_count f"

lemma env_le_refl [simp]: "env_le e e"
  by (simp add: env_le_def)

lemma env_le_trans: "env_le e f \<Longrightarrow> env_le f g \<Longrightarrow> env_le e g"
  by (auto simp: env_le_def)

lemma env_le_draw [simp]:
  "env_le e (e\<lparr>now_count := Suc (now_count e)\<rparr>)"
  "env_le e (e\<lparr>id_count := Suc (id_count e)\<rparr>)"
  "env_le e (e\<lparr>token_count := Suc (token_count e)\<rparr>)"
  "env_le e (e\<lparr>entropy_count := Suc (entropy_count e)\<rparr>)"
  by (simp_all add: env_le_def)

lemma env_ok_mono: "env_ok f \<Longrightarrow> env_le e f \<Longrightarrow> env_ok e"
  unfolding env_ok_def env_le_def distinct_map list_all_iff
  by (auto intro: inj_on_subset)

lemma env_ok_entropy: "env_ok e \<Longrightarrow> n < entropy_count e \<Longrightarrow> 0 \<le> entropy_at e n \<and> entropy_at e n \<le> 1"
  by (simp add: env_ok_def list_all_iff)

definition drawn_ids :: "aenv \<Rightarrow> text_t set" where
  "drawn_ids e = (\<lambda>n. str_of_uuid (id_at e n)) ` {..<id_count e}"

lemma drawn_mono: "env_le e f \<Longrightarrow> drawn_ids e \<subseteq> drawn_ids f"
  by (auto simp: drawn_ids_def env_le_def)

lemma fresh_id:
  assumes "env_ok (e\<lparr>id_count := Suc (id_count e)\<rparr>)"
  shows "str_of_uuid (id_at e (id_count e)) \<notin> drawn_ids e"
proof
  assume "str_of_uuid (id_at e (id_count e)) \<in> drawn_ids e"
  then obtain n where n: "n < id_count e" "id_at e n = id_at e (id_count e)"
    by (auto simp: drawn_ids_def)
  have "inj_on (id_at e) (set [0..<Suc (id_count e)])"
    using assms by (simp add: env_ok_def distinct_map del: upt_Suc)
  from inj_onD [OF this n(2)] n(1) show False by simp
qed

end
