(* ===== verification/Task_Queue.thy ===== *)
theory Task_Queue
  imports Automation_Models
begin

text \<open>
  \<open>automation/tasks.py\<close>: the in-memory task queue with leases, retries and idempotent enqueue.
  Every method runs under the queue's lock, so it is one atomic program. Tasks live in a
  dict and are changed in place; callers get copies.
\<close>

section \<open>Retry delays\<close>

text \<open>The floating-point fields are exact rationals here.\<close>

record RetryPolicy =
  base_seconds :: rat
  maximum_seconds :: rat
  jitter_ratio :: rat

definition default_retry_policy :: RetryPolicy where
  "default_retry_policy = \<lparr>base_seconds = 1, maximum_seconds = 300, jitter_ratio = 1/5\<rparr>"

definition retry_delay :: "RetryPolicy \<Rightarrow> int \<Rightarrow> rat \<Rightarrow> automation_error + rat" where
  "retry_delay policy attempt entropy =
     (if attempt < 1 \<or> \<not> (0 \<le> entropy \<and> entropy \<le> 1)
        then Inl (AutomationValidationError ''retry policy input is invalid'')
      else
        let base = min (maximum_seconds policy) (base_seconds policy * 2 ^ nat (attempt - 1));
            jitter = base * jitter_ratio policy * (2 * entropy - 1)
        in Inr (max 0 (base + jitter)))"

section \<open>State\<close>

record task_queue =
  q_env :: aenv
  q_policy :: RetryPolicy
  q_tasks :: "(text_t \<times> AutomationTask) list"
  q_idempotency :: "((text_t \<times> text_t) \<times> (text_t \<times> text_t)) list"

type_synonym 'a queue_op = "(task_queue, automation_error, 'a) prog"

definition q_now :: "instant queue_op" where
  "q_now = (\<lambda>s. (Inr (now_at (q_env s) (now_count (q_env s))), s\<lparr>q_env := (q_env s)\<lparr>now_count := Suc (now_count (q_env s))\<rparr>\<rparr>))"

definition q_new_id :: "text_t queue_op" where
  "q_new_id = (\<lambda>s. (Inr (str_of_uuid (id_at (q_env s) (id_count (q_env s)))),
     s\<lparr>q_env := (q_env s)\<lparr>id_count := Suc (id_count (q_env s))\<rparr>\<rparr>))"

definition q_token :: "text_t queue_op" where
  "q_token = (\<lambda>s. (Inr (token_at (q_env s) (token_count (q_env s))),
     s\<lparr>q_env := (q_env s)\<lparr>token_count := Suc (token_count (q_env s))\<rparr>\<rparr>))"

definition q_entropy :: "rat queue_op" where
  "q_entropy = (\<lambda>s. (Inr (entropy_at (q_env s) (entropy_count (q_env s))),
     s\<lparr>q_env := (q_env s)\<lparr>entropy_count := Suc (entropy_count (q_env s))\<rparr>\<rparr>))"

definition tz_message :: text_t where
  "tz_message = ''automation timestamps must be timezone-aware''"

text \<open>\<open>_as_utc(now or utc_now())\<close>\<close>

definition q_current :: "dt option \<Rightarrow> instant queue_op" where
  "q_current now = (case now of None \<Rightarrow> q_now | Some d \<Rightarrow> from_sum (as_utc tz_message d))"

text \<open>Assignments to the fields of a stored task.\<close>

definition put_task :: "AutomationTask \<Rightarrow> unit queue_op" where
  "put_task t = writes (q_tasks_update (AList.update (tk_id t) t))"

definition clear_lease :: "AutomationTask \<Rightarrow> AutomationTask" where
  "clear_lease t = t\<lparr>tk_lease_owner := None, tk_lease_token_hash := None, tk_lease_expires_at := None,
                     tk_heartbeat_at := None\<rparr>"

definition require_task :: "text_t \<Rightarrow> AutomationTask queue_op" where
  "require_task task_id =
     andThen (reads (\<lambda>s. map_of (q_tasks s) task_id))
       (from_option (AutomationNotFoundError ''automation task was not found''))"

section \<open>Fingerprints\<close>

definition fingerprint :: "(text_t \<Rightarrow> text_t) \<Rightarrow> json \<Rightarrow> automation_error + text_t" where
  "fingerprint digest value =
     (let encoded = json_dumps value
      in if utf8_length encoded > 262144 then Inl (AutomationValidationError ''task payload exceeds 256 KiB'')
         else Inr (digest encoded))"

text \<open>The value whose fingerprint identifies an enqueue request.\<close>

definition request_value ::
  "text_t \<Rightarrow> json \<Rightarrow> text_t \<Rightarrow> int \<Rightarrow> int \<Rightarrow> text_t option \<Rightarrow> instant option \<Rightarrow> json" where
  "request_value task_type payload queue priority max_attempts source_schedule_id available_at =
     JObj [(''task_type'', JStr task_type), (''payload'', payload), (''queue'', JStr queue),
           (''priority'', JInt priority), (''max_attempts'', JInt max_attempts),
           (''source_schedule_id'', json_opt JStr source_schedule_id),
           (''available_at'', json_opt (\<lambda>t. JStr (isoformat t)) available_at)]"

section \<open>Operations\<close>

record enqueue_args =
  ea_task_type :: text_t
  ea_payload :: json
  ea_queue :: text_t
  ea_priority :: int
  ea_max_attempts :: int
  ea_idempotency_key :: "text_t option"
  ea_source_schedule_id :: "text_t option"
  ea_available_at :: "dt option"

text \<open>Creating the task and its idempotency entry.\<close>

definition insert_task :: "enqueue_args \<Rightarrow> text_t \<Rightarrow> instant \<Rightarrow> instant \<Rightarrow> EnqueueResult queue_op" where
  "insert_task a fp due_at now =
     andThen q_new_id (\<lambda>i.
     let task = \<lparr>tk_id = i, tk_task_type = ea_task_type a, tk_payload = ea_payload a, tk_queue = ea_queue a,
           tk_priority = ea_priority a, tk_status = Queued, tk_idempotency_key = ea_idempotency_key a,
           tk_request_fingerprint = fp, tk_source_schedule_id = ea_source_schedule_id a, tk_attempts = 0,
           tk_max_attempts = ea_max_attempts a, tk_available_at = due_at, tk_lease_owner = None,
           tk_lease_token_hash = None, tk_lease_expires_at = None, tk_heartbeat_at = None,
           tk_cancel_requested = False, tk_result = None, tk_error_code = None, tk_created_at = now,
           tk_started_at = None, tk_finished_at = None\<rparr> in
     andThen (ensure (task_fields_valid task) (ModelValidationError ''AutomationTask'')) (\<lambda>_.
     andThen (put_task task) (\<lambda>_.
     andThen
       (case ea_idempotency_key a of
          None \<Rightarrow> ret ()
        | Some key \<Rightarrow> writes (q_idempotency_update (AList.update (ea_task_type a, key) (i, fp)))) (\<lambda>_.
     ret \<lparr>er_task = task, er_replayed = False\<rparr>))))"

definition enqueue :: "(text_t \<Rightarrow> text_t) \<Rightarrow> enqueue_args \<Rightarrow> EnqueueResult queue_op" where
  "enqueue digest a =
     andThen q_now (\<lambda>now.
     andThen (from_sum (case ea_available_at a of None \<Rightarrow> Inr now | Some d \<Rightarrow> as_utc tz_message d)) (\<lambda>due_at.
     andThen (from_sum (fingerprint digest (request_value (ea_task_type a) (ea_payload a) (ea_queue a)
        (ea_priority a) (ea_max_attempts a) (ea_source_schedule_id a)
        (if ea_available_at a = None then None else Some due_at)))) (\<lambda>fp.
     andThen (reads (\<lambda>s. case ea_idempotency_key a of None \<Rightarrow> None
        | Some key \<Rightarrow> map_of (q_idempotency s) (ea_task_type a, key))) (\<lambda>previous.
     case previous of
       None \<Rightarrow> insert_task a fp due_at now
     | Some entry \<Rightarrow>
         andThen (ensure (fp = snd entry)
           (AutomationConflictError ''task idempotency key was reused with different input'')) (\<lambda>_.
         andThen (require_task (fst entry)) (\<lambda>task.
         ret \<lparr>er_task = task, er_replayed = True\<rparr>))))))"

definition queue_get :: "text_t \<Rightarrow> AutomationTask queue_op" where
  "queue_get task_id = require_task task_id"

definition list_tasks :: "AutomationTask list queue_op" where
  "list_tasks = reads (\<lambda>s. sort_key (\<lambda>t. (tk_created_at t, tk_id t)) (map snd (q_tasks s)))"

text \<open>The body of the loop of \<open>_recover_expired_locked\<close>: whether the task was changed.\<close>

definition lease_expired :: "instant \<Rightarrow> AutomationTask \<Rightarrow> bool" where
  "lease_expired now t \<longleftrightarrow> tk_status t = Running \<and>
     (case tk_lease_expires_at t of None \<Rightarrow> False | Some e \<Rightarrow> e \<le> now)"

definition recover_task :: "instant \<Rightarrow> text_t \<Rightarrow> AutomationTask list queue_op" where
  "recover_task now task_id =
     andThen (require_task task_id) (\<lambda>t.
     if \<not> lease_expired now t then ret []
     else
       let t = t\<lparr>tk_error_code := Some ''lease_expired''\<rparr> in
       andThen
         (if tk_cancel_requested t then ret (t\<lparr>tk_status := Cancelled, tk_finished_at := Some now\<rparr>)
          else if tk_attempts t < tk_max_attempts t then
            andThen (put_task (t\<lparr>tk_status := RetryWait\<rparr>)) (\<lambda>_.
            andThen q_entropy (\<lambda>entropy.
            andThen (reads q_policy) (\<lambda>policy.
            andThen (from_sum (retry_delay policy (tk_attempts t) entropy)) (\<lambda>delay.
            ret (t\<lparr>tk_status := RetryWait, tk_available_at := now + microseconds delay\<rparr>)))))
          else ret (t\<lparr>tk_status := DeadLetter, tk_finished_at := Some now\<rparr>)) (\<lambda>u.
       andThen (put_task (clear_lease u)) (\<lambda>_.
       ret [clear_lease u])))"

definition recover_expired_locked :: "instant \<Rightarrow> AutomationTask list queue_op" where
  "recover_expired_locked now =
     andThen (reads (\<lambda>s. map fst (q_tasks s))) (\<lambda>ids.
     andThen (map_each (recover_task now) ids) (\<lambda>changed.
     ret (concat changed)))"

definition claimable :: "text_t list \<Rightarrow> instant \<Rightarrow> AutomationTask \<Rightarrow> bool" where
  "claimable queues now t \<longleftrightarrow> tk_queue t \<in> set queues \<and> tk_status t \<in> {Queued, RetryWait} \<and>
     tk_available_at t \<le> now \<and> \<not> tk_cancel_requested t"

definition claim_order :: "AutomationTask \<Rightarrow> int \<times> instant \<times> instant \<times> text_t" where
  "claim_order t = (- tk_priority t, tk_available_at t, tk_created_at t, tk_id t)"

text \<open>The part of \<open>claim\<close> after the recovery.\<close>

definition grant ::
  "(text_t \<Rightarrow> text_t) \<Rightarrow> text_t \<Rightarrow> text_t list \<Rightarrow> int \<Rightarrow> instant \<Rightarrow> ClaimedTask option queue_op" where
  "grant digest worker_id queues lease_seconds current =
     andThen (reads (\<lambda>s. first_min claim_order (filter (claimable queues current) (map snd (q_tasks s))))) (\<lambda>best.
     case best of
       None \<Rightarrow> ret None
     | Some t \<Rightarrow>
         andThen q_token (\<lambda>token.
         let u = t\<lparr>tk_status := Running, tk_attempts := tk_attempts t + 1, tk_lease_owner := Some worker_id,
               tk_lease_token_hash := Some (digest token),
               tk_lease_expires_at := Some (current + seconds lease_seconds),
               tk_heartbeat_at := Some current,
               tk_started_at := (case tk_started_at t of None \<Rightarrow> Some current | Some x \<Rightarrow> Some x)\<rparr> in
         andThen (put_task u) (\<lambda>_.
         ret (Some \<lparr>ct_task = u, ct_lease_token = token\<rparr>))))"

definition claim ::
  "(text_t \<Rightarrow> text_t) \<Rightarrow> text_t \<Rightarrow> text_t list \<Rightarrow> int \<Rightarrow> dt option \<Rightarrow> ClaimedTask option queue_op" where
  "claim digest worker_id queues lease_seconds now =
     andThen (ensure (worker_id \<noteq> [] \<and> 1 \<le> lease_seconds)
       (AutomationValidationError ''worker id and lease duration are required'')) (\<lambda>_.
     andThen (q_current now) (\<lambda>current.
     andThen (ensure (queues \<noteq> [])
       (AutomationValidationError ''worker must subscribe to at least one queue'')) (\<lambda>_.
     andThen (recover_expired_locked current) (\<lambda>_.
     grant digest worker_id queues lease_seconds current))))"

definition lease_valid :: "(text_t \<Rightarrow> text_t) \<Rightarrow> text_t \<Rightarrow> text_t \<Rightarrow> instant \<Rightarrow> AutomationTask \<Rightarrow> bool" where
  "lease_valid digest worker_id lease_token now t \<longleftrightarrow>
     tk_status t = Running \<and> tk_lease_owner t = Some worker_id \<and>
     tk_lease_token_hash t = Some (digest lease_token) \<and>
     (case tk_lease_expires_at t of None \<Rightarrow> False | Some e \<Rightarrow> now < e)"

definition require_valid_lease ::
  "(text_t \<Rightarrow> text_t) \<Rightarrow> text_t \<Rightarrow> text_t \<Rightarrow> text_t \<Rightarrow> instant \<Rightarrow> AutomationTask queue_op" where
  "require_valid_lease digest task_id worker_id lease_token now =
     andThen (require_task task_id) (\<lambda>t.
     andThen (ensure (lease_valid digest worker_id lease_token now t)
       (AutomationLeaseError ''task lease is invalid or expired'')) (\<lambda>_.
     ret t))"

definition task_heartbeat ::
  "(text_t \<Rightarrow> text_t) \<Rightarrow> text_t \<Rightarrow> text_t \<Rightarrow> text_t \<Rightarrow> int \<Rightarrow> dt option \<Rightarrow> AutomationTask queue_op" where
  "task_heartbeat digest task_id worker_id lease_token lease_seconds now =
     andThen (ensure (1 \<le> lease_seconds)
       (AutomationValidationError ''task lease duration must be positive'')) (\<lambda>_.
     andThen (q_current now) (\<lambda>current.
     andThen (require_valid_lease digest task_id worker_id lease_token current) (\<lambda>t.
     let u = t\<lparr>tk_heartbeat_at := Some current,
               tk_lease_expires_at := Some (current + seconds lease_seconds)\<rparr> in
     andThen (put_task u) (\<lambda>_.
     ret u))))"

text \<open>\<open>result or {}\<close>: None and the empty dict are falsy.\<close>

definition or_empty :: "json option \<Rightarrow> json" where
  "or_empty r = (case r of None \<Rightarrow> JObj [] | Some v \<Rightarrow> v)"

definition complete ::
  "(text_t \<Rightarrow> text_t) \<Rightarrow> text_t \<Rightarrow> text_t \<Rightarrow> text_t \<Rightarrow> json option \<Rightarrow> dt option \<Rightarrow> AutomationTask queue_op" where
  "complete digest task_id worker_id lease_token result now =
     andThen (q_current now) (\<lambda>current.
     andThen (from_sum (fingerprint digest (or_empty result))) (\<lambda>_.
     andThen (require_valid_lease digest task_id worker_id lease_token current) (\<lambda>t.
     let u = (if tk_cancel_requested t then t\<lparr>tk_status := Cancelled, tk_result := None\<rparr>
              else t\<lparr>tk_status := Succeeded, tk_result := Some (or_empty result)\<rparr>);
         v = clear_lease (u\<lparr>tk_finished_at := Some current\<rparr>) in
     andThen (put_task v) (\<lambda>_.
     ret v))))"

definition fail_task ::
  "(text_t \<Rightarrow> text_t) \<Rightarrow> text_t \<Rightarrow> text_t \<Rightarrow> text_t \<Rightarrow> text_t \<Rightarrow> bool \<Rightarrow> dt option \<Rightarrow> AutomationTask queue_op" where
  "fail_task digest task_id worker_id lease_token error_code retryable now =
     andThen (q_current now) (\<lambda>current.
     andThen (ensure (error_code \<noteq> [] \<and> length error_code \<le> 100)
       (AutomationValidationError ''task error code is invalid'')) (\<lambda>_.
     andThen (require_valid_lease digest task_id worker_id lease_token current) (\<lambda>t.
     let t = t\<lparr>tk_error_code := Some error_code\<rparr> in
     andThen
       (if tk_cancel_requested t then ret (t\<lparr>tk_status := Cancelled, tk_finished_at := Some current\<rparr>)
        else if retryable \<and> tk_attempts t < tk_max_attempts t then
          andThen (put_task (t\<lparr>tk_status := RetryWait\<rparr>)) (\<lambda>_.
          andThen q_entropy (\<lambda>entropy.
          andThen (reads q_policy) (\<lambda>policy.
          andThen (from_sum (retry_delay policy (tk_attempts t) entropy)) (\<lambda>delay.
          ret (t\<lparr>tk_status := RetryWait, tk_available_at := current + microseconds delay\<rparr>)))))
        else if retryable then ret (t\<lparr>tk_status := DeadLetter, tk_finished_at := Some current\<rparr>)
        else ret (t\<lparr>tk_status := Failed, tk_finished_at := Some current\<rparr>)) (\<lambda>u.
     andThen (put_task (clear_lease u)) (\<lambda>_.
     ret (clear_lease u))))))"

definition request_cancel :: "text_t \<Rightarrow> dt option \<Rightarrow> AutomationTask queue_op" where
  "request_cancel task_id now =
     andThen (q_current now) (\<lambda>current.
     andThen (require_task task_id) (\<lambda>t.
     let u = (if tk_status t \<in> {Queued, RetryWait}
              then clear_lease (t\<lparr>tk_status := Cancelled, tk_cancel_requested := True,
                     tk_finished_at := Some current\<rparr>)
              else if tk_status t = Running then t\<lparr>tk_cancel_requested := True\<rparr> else t) in
     andThen (put_task u) (\<lambda>_.
     ret u)))"

definition acknowledge_cancel ::
  "(text_t \<Rightarrow> text_t) \<Rightarrow> text_t \<Rightarrow> text_t \<Rightarrow> text_t \<Rightarrow> dt option \<Rightarrow> AutomationTask queue_op" where
  "acknowledge_cancel digest task_id worker_id lease_token now =
     andThen (q_current now) (\<lambda>current.
     andThen (require_valid_lease digest task_id worker_id lease_token current) (\<lambda>t.
     andThen (ensure (tk_cancel_requested t)
       (AutomationConflictError ''task cancellation was not requested'')) (\<lambda>_.
     let u = clear_lease (t\<lparr>tk_status := Cancelled, tk_finished_at := Some current\<rparr>) in
     andThen (put_task u) (\<lambda>_.
     ret u))))"

definition recover_expired :: "dt option \<Rightarrow> AutomationTask list queue_op" where
  "recover_expired now = andThen (q_current now) recover_expired_locked"

definition active_for_schedule :: "text_t \<Rightarrow> AutomationTask list queue_op" where
  "active_for_schedule schedule_id =
     reads (\<lambda>s. filter (\<lambda>t. tk_source_schedule_id t = Some schedule_id \<and> is_active (tk_status t))
       (map snd (q_tasks s)))"

end
