(* ===== verification/Task_Lifecycle.thy ===== *)
theory Task_Lifecycle
  imports Task_Queue
begin

text \<open>
  What the operations of the task queue keep: each task satisfies the conditions of its status,
  the idempotency index names exactly the keyed tasks, and from one state to the next every task
  only moves along the life cycle. \<open>after M s t\<close> says that of two states; the lemmas
  \<open>*_after\<close> give it for every operation, with the moves \<open>M\<close> the operation can make, whether
  it returns or raises.
\<close>

section \<open>Rules for the calls\<close>

abbreviation tick :: "task_queue \<Rightarrow> task_queue" where
  "tick s \<equiv> s\<lparr>q_env := (q_env s)\<lparr>now_count := Suc (now_count (q_env s))\<rparr>\<rparr>"

abbreviation next_id :: "task_queue \<Rightarrow> task_queue" where
  "next_id s \<equiv> s\<lparr>q_env := (q_env s)\<lparr>id_count := Suc (id_count (q_env s))\<rparr>\<rparr>"

abbreviation next_token :: "task_queue \<Rightarrow> task_queue" where
  "next_token s \<equiv> s\<lparr>q_env := (q_env s)\<lparr>token_count := Suc (token_count (q_env s))\<rparr>\<rparr>"

abbreviation next_entropy :: "task_queue \<Rightarrow> task_queue" where
  "next_entropy s \<equiv> s\<lparr>q_env := (q_env s)\<lparr>entropy_count := Suc (entropy_count (q_env s))\<rparr>\<rparr>"

lemma wp_q_now [wp_simps]: "wp q_now Q E s = Q (now_at (q_env s) (now_count (q_env s))) (tick s)"
  by (simp add: wp_def q_now_def)

lemma wp_q_new_id [wp_simps]:
  "wp q_new_id Q E s = Q (str_of_uuid (id_at (q_env s) (id_count (q_env s)))) (next_id s)"
  by (simp add: wp_def q_new_id_def)

lemma wp_q_token [wp_simps]: "wp q_token Q E s = Q (token_at (q_env s) (token_count (q_env s))) (next_token s)"
  by (simp add: wp_def q_token_def)

lemma wp_q_entropy [wp_simps]:
  "wp q_entropy Q E s = Q (entropy_at (q_env s) (entropy_count (q_env s))) (next_entropy s)"
  by (simp add: wp_def q_entropy_def)

lemma wp_put_task [wp_simps]: "wp (put_task t) Q E s = Q () (s\<lparr>q_tasks := AList.update (tk_id t) t (q_tasks s)\<rparr>)"
  by (cases s) (simp add: put_task_def wp_simps)

lemma wp_require_task [wp_simps]:
  "wp (require_task k) Q E s =
     (case map_of (q_tasks s) k of
        None \<Rightarrow> E (AutomationNotFoundError ''automation task was not found'') s
      | Some t \<Rightarrow> Q t s)"
  by (simp add: require_task_def wp_simps split: option.split)

lemma wp_q_nowI [wp_intros]: "Q (now_at (q_env s) (now_count (q_env s))) (tick s) \<Longrightarrow> wp q_now Q E s"
  by (simp add: wp_simps)

lemma wp_q_new_idI [wp_intros]:
  "Q (str_of_uuid (id_at (q_env s) (id_count (q_env s)))) (next_id s) \<Longrightarrow> wp q_new_id Q E s"
  by (simp add: wp_simps)

lemma wp_q_tokenI [wp_intros]:
  "Q (token_at (q_env s) (token_count (q_env s))) (next_token s) \<Longrightarrow> wp q_token Q E s"
  by (simp add: wp_simps)

lemma wp_q_entropyI [wp_intros]:
  "Q (entropy_at (q_env s) (entropy_count (q_env s))) (next_entropy s) \<Longrightarrow> wp q_entropy Q E s"
  by (simp add: wp_simps)

lemma wp_put_taskI [wp_intros]:
  "Q () (s\<lparr>q_tasks := AList.update (tk_id t) t (q_tasks s)\<rparr>) \<Longrightarrow> wp (put_task t) Q E s"
  by (simp add: wp_simps)

lemma wp_require_taskI [wp_intros]:
  "(\<And>e. map_of (q_tasks s) k = None \<Longrightarrow> E e s) \<Longrightarrow> (\<And>t. map_of (q_tasks s) k = Some t \<Longrightarrow> Q t s) \<Longrightarrow>
   wp (require_task k) Q E s"
  by (simp add: wp_simps split: option.split)

section \<open>Tasks and the index\<close>

definition lease_free :: "AutomationTask \<Rightarrow> bool" where
  "lease_free t \<longleftrightarrow> tk_lease_owner t = None \<and> tk_lease_token_hash t = None \<and>
     tk_lease_expires_at t = None \<and> tk_heartbeat_at t = None"

definition lease_held :: "AutomationTask \<Rightarrow> bool" where
  "lease_held t \<longleftrightarrow> tk_lease_owner t \<noteq> None \<and> tk_lease_token_hash t \<noteq> None \<and>
     tk_lease_expires_at t \<noteq> None \<and> tk_heartbeat_at t \<noteq> None"

text \<open>The condition of each status.\<close>

definition status_ok :: "AutomationTask \<Rightarrow> bool" where
  "status_ok t \<longleftrightarrow>
     (case tk_status t of
        Queued \<Rightarrow> tk_attempts t = 0 \<and> \<not> tk_cancel_requested t
      | Running \<Rightarrow> 1 \<le> tk_attempts t
      | RetryWait \<Rightarrow> 1 \<le> tk_attempts t \<and> tk_attempts t < tk_max_attempts t \<and> \<not> tk_cancel_requested t \<and>
          tk_error_code t \<noteq> None
      | Succeeded \<Rightarrow> 1 \<le> tk_attempts t \<and> \<not> tk_cancel_requested t
      | Failed \<Rightarrow> 1 \<le> tk_attempts t \<and> \<not> tk_cancel_requested t \<and> tk_error_code t \<noteq> None
      | Cancelled \<Rightarrow> tk_cancel_requested t
      | DeadLetter \<Rightarrow> tk_attempts t = tk_max_attempts t \<and> \<not> tk_cancel_requested t \<and> tk_error_code t \<noteq> None)"

definition task_ok :: "AutomationTask \<Rightarrow> bool" where
  "task_ok t \<longleftrightarrow> task_fields_valid t \<and> status_ok t \<and> 0 \<le> tk_attempts t \<and> tk_attempts t \<le> tk_max_attempts t \<and>
     (if tk_status t = Running then lease_held t else lease_free t) \<and>
     (tk_finished_at t \<noteq> None) = is_terminal (tk_status t) \<and>
     (tk_result t \<noteq> None) = (tk_status t = Succeeded) \<and>
     (tk_started_at t \<noteq> None) = (1 \<le> tk_attempts t)"

text \<open>
  The state of the queue: unique keys, sound tasks under drawn identifiers, index entries that
  name a task with this type, key and fingerprint, and an entry for each keyed task.
\<close>

definition queue_inv :: "task_queue \<Rightarrow> bool" where
  "queue_inv s \<longleftrightarrow>
     distinct (map fst (q_tasks s)) \<and>
     (\<forall>k t. map_of (q_tasks s) k = Some t \<longrightarrow> tk_id t = k \<and> task_ok t \<and> k \<in> drawn_ids (q_env s)) \<and>
     (\<forall>e i fp. map_of (q_idempotency s) e = Some (i, fp) \<longrightarrow>
        (\<exists>t. map_of (q_tasks s) i = Some t \<and> tk_task_type t = fst e \<and> tk_idempotency_key t = Some (snd e) \<and>
             tk_request_fingerprint t = fp)) \<and>
     (\<forall>k t key. map_of (q_tasks s) k = Some t \<longrightarrow> tk_idempotency_key t = Some key \<longrightarrow>
        map_of (q_idempotency s) (tk_task_type t, key) = Some (k, tk_request_fingerprint t))"

lemma queue_invD:
  assumes "queue_inv s"
  shows "distinct (map fst (q_tasks s))"
    and "\<And>k t. map_of (q_tasks s) k = Some t \<Longrightarrow> tk_id t = k"
    and "\<And>k t. map_of (q_tasks s) k = Some t \<Longrightarrow> task_ok t"
    and "\<And>k t. map_of (q_tasks s) k = Some t \<Longrightarrow> k \<in> drawn_ids (q_env s)"
    and "\<And>e i fp. map_of (q_idempotency s) e = Some (i, fp) \<Longrightarrow>
        \<exists>t. map_of (q_tasks s) i = Some t \<and> tk_task_type t = fst e \<and> tk_idempotency_key t = Some (snd e) \<and>
             tk_request_fingerprint t = fp"
    and "\<And>k t key. map_of (q_tasks s) k = Some t \<Longrightarrow> tk_idempotency_key t = Some key \<Longrightarrow>
        map_of (q_idempotency s) (tk_task_type t, key) = Some (k, tk_request_fingerprint t)"
  using assms unfolding queue_inv_def by blast+

text \<open>How one task may change.\<close>

definition same_request :: "AutomationTask \<Rightarrow> AutomationTask \<Rightarrow> bool" where
  "same_request x y \<longleftrightarrow> tk_id y = tk_id x \<and> tk_task_type y = tk_task_type x \<and> tk_payload y = tk_payload x \<and>
     tk_queue y = tk_queue x \<and> tk_priority y = tk_priority x \<and> tk_idempotency_key y = tk_idempotency_key x \<and>
     tk_request_fingerprint y = tk_request_fingerprint x \<and>
     tk_source_schedule_id y = tk_source_schedule_id x \<and> tk_max_attempts y = tk_max_attempts x \<and>
     tk_created_at y = tk_created_at x"

type_synonym moves = "(TaskStatus \<times> TaskStatus) set"

definition evolves :: "moves \<Rightarrow> AutomationTask \<Rightarrow> AutomationTask \<Rightarrow> bool" where
  "evolves M x y \<longleftrightarrow> same_request x y \<and> (if is_terminal (tk_status x) then y = x else True) \<and>
     (tk_status y = tk_status x \<or> (tk_status x, tk_status y) \<in> M) \<and>
     tk_attempts x \<le> tk_attempts y"

lemma evolves_refl [simp]: "evolves M x x"
  by (simp add: evolves_def same_request_def)

lemma evolves_trans:
  "evolves M x y \<Longrightarrow> evolves N y z \<Longrightarrow> evolves (M \<union> N \<union> M O N) x z"
  unfolding evolves_def same_request_def by (auto split: if_splits)

lemma evolves_mono: "evolves M x y \<Longrightarrow> M \<subseteq> N \<Longrightarrow> evolves N x y"
  unfolding evolves_def by auto

definition evolution :: "moves \<Rightarrow> task_queue \<Rightarrow> task_queue \<Rightarrow> bool" where
  "evolution M s t \<longleftrightarrow>
     (\<forall>k x. map_of (q_tasks s) k = Some x \<longrightarrow> (\<exists>y. map_of (q_tasks t) k = Some y \<and> evolves M x y))"

definition after :: "moves \<Rightarrow> task_queue \<Rightarrow> task_queue \<Rightarrow> bool" where
  "after M s t \<longleftrightarrow> env_le (q_env s) (q_env t) \<and> q_policy t = q_policy s \<and>
     (queue_inv s \<longrightarrow> env_ok (q_env t) \<longrightarrow> queue_inv t \<and> evolution M s t)"

lemma evolution_refl [simp]: "evolution M s s"
  by (simp add: evolution_def)

lemma evolution_trans: "evolution M s t \<Longrightarrow> evolution N t u \<Longrightarrow> evolution (M \<union> N \<union> M O N) s u"
  unfolding evolution_def using evolves_trans by blast

lemma evolution_mono: "evolution M s t \<Longrightarrow> M \<subseteq> N \<Longrightarrow> evolution N s t"
  unfolding evolution_def using evolves_mono by blast

lemma after_trans: "after M s t \<Longrightarrow> after N t u \<Longrightarrow> after (M \<union> N \<union> M O N) s u"
  unfolding after_def by (auto intro: env_le_trans evolution_trans dest: env_ok_mono)

lemma after_mono: "after M s t \<Longrightarrow> M \<subseteq> N \<Longrightarrow> after N s t"
  unfolding after_def using evolution_mono by blast

text \<open>Nothing but the environment changed.\<close>

lemma after_idle:
  assumes "env_le (q_env s) (q_env t)"
    and "q_policy t = q_policy s" "q_tasks t = q_tasks s" "q_idempotency t = q_idempotency s"
  shows "after M s t"
proof -
  have "queue_inv t" if "queue_inv s"
    using that drawn_mono [OF assms(1)] unfolding queue_inv_def assms(3,4) by blast
  moreover have "evolution M s t" unfolding evolution_def assms(3) by simp
  ultimately show ?thesis using assms by (simp add: after_def)
qed

text \<open>The environment broke its promise.\<close>

lemma after_bad: "env_le (q_env s) (q_env t) \<Longrightarrow> q_policy t = q_policy s \<Longrightarrow>
    (queue_inv s \<Longrightarrow> \<not> env_ok (q_env t)) \<Longrightarrow> after M s t"
  by (auto simp: after_def)

text \<open>One task was changed.\<close>

lemma put_sound:
  assumes inv: "queue_inv s" and env: "env_le (q_env s) (q_env t)"
    and rest: "q_idempotency t = q_idempotency s"
    and put: "q_tasks t = AList.update (tk_id y) y (q_tasks s)"
    and old: "map_of (q_tasks s) (tk_id x) = Some x"
    and ok: "evolves M x y" "task_ok y"
  shows "queue_inv t \<and> evolution M s t"
proof -
  have new: "map_of (q_tasks t) = (map_of (q_tasks s))(tk_id x \<mapsto> y)"
    and same: "tk_id y = tk_id x" "tk_task_type y = tk_task_type x" "tk_idempotency_key y = tk_idempotency_key x"
      "tk_request_fingerprint y = tk_request_fingerprint x"
    using ok put by (simp_all add: evolves_def same_request_def update_conv')
  have "queue_inv t"
    unfolding queue_inv_def new rest
  proof (intro conjI allI impI)
    show "distinct (map fst (q_tasks t))" using queue_invD(1) [OF inv] put by (simp add: distinct_update)
  next
    fix k u assume "((map_of (q_tasks s))(tk_id x \<mapsto> y)) k = Some u"
    then show "tk_id u = k" "task_ok u" "k \<in> drawn_ids (q_env t)"
      using queue_invD(2-4) [OF inv, of k u] queue_invD(4) [OF inv old] same ok subsetD [OF drawn_mono [OF env]]
      by (cases "k = tk_id x"; simp)+
  next
    fix e i fp assume "map_of (q_idempotency s) e = Some (i, fp)"
    from queue_invD(5) [OF inv this]
    show "\<exists>u. ((map_of (q_tasks s))(tk_id x \<mapsto> y)) i = Some u \<and> tk_task_type u = fst e \<and>
        tk_idempotency_key u = Some (snd e) \<and> tk_request_fingerprint u = fp"
      using old same by (cases "i = tk_id x") simp_all
  next
    fix k u key assume "((map_of (q_tasks s))(tk_id x \<mapsto> y)) k = Some u" "tk_idempotency_key u = Some key"
    then show "map_of (q_idempotency s) (tk_task_type u, key) = Some (k, tk_request_fingerprint u)"
      using queue_invD(6) [OF inv, of k u key] queue_invD(6) [OF inv old, of key] same
      by (cases "k = tk_id x") simp_all
  qed
  moreover have "evolution M s t" unfolding evolution_def new using old ok by auto
  ultimately show ?thesis ..
qed

text \<open>The same as rules for the shapes of state that the operations leave.\<close>

lemma put_rule:
  assumes "map_of (q_tasks s) k = Some x"
    and "tk_id x = k \<Longrightarrow> task_ok x \<Longrightarrow> evolves M x y"
    and "tk_id x = k \<Longrightarrow> task_ok x \<Longrightarrow> task_ok y"
  shows "after M s (s\<lparr>q_tasks := AList.update (tk_id x) y (q_tasks s)\<rparr>)"
    and "env_le (q_env s) (f (q_env s)) \<Longrightarrow>
      after M s (q_env_update f s\<lparr>q_tasks := AList.update (tk_id x) y (q_tasks s)\<rparr>)"
proof -
  have *: "queue_inv t \<and> evolution M s t"
    if inv: "queue_inv s" and t: "env_le (q_env s) (q_env t)" "q_idempotency t = q_idempotency s"
      "q_tasks t = AList.update (tk_id x) y (q_tasks s)" for t
  proof -
    have x: "tk_id x = k" "task_ok x" using queue_invD(2,3) [OF inv assms(1)] by simp_all
    then have y: "evolves M x y" "task_ok y" using assms(2,3) by blast+
    then have "tk_id y = tk_id x" by (simp add: evolves_def same_request_def)
    then show ?thesis using assms(1) x t by (intro put_sound [OF inv _ _ _ _ y]) simp_all
  qed
  show "after M s (s\<lparr>q_tasks := AList.update (tk_id x) y (q_tasks s)\<rparr>)"
    using * by (simp add: after_def)
  show "after M s (q_env_update f s\<lparr>q_tasks := AList.update (tk_id x) y (q_tasks s)\<rparr>)"
    if "env_le (q_env s) (f (q_env s))"
    using * that by (simp add: after_def)
qed

lemma after_insert:
  assumes env: "env_le (q_env s) (q_env t)" and policy: "q_policy t = q_policy s"
    and drawn: "id_count (q_env t) = Suc (id_count (q_env s))"
      "tk_id y = str_of_uuid (id_at (q_env s) (id_count (q_env s)))"
    and put: "q_tasks t = AList.update (tk_id y) y (q_tasks s)"
    and index: "q_idempotency t = (case tk_idempotency_key y of None \<Rightarrow> q_idempotency s
      | Some key \<Rightarrow> AList.update (tk_task_type y, key) (tk_id y, tk_request_fingerprint y) (q_idempotency s))"
    and new: "\<And>key. tk_idempotency_key y = Some key \<Longrightarrow> map_of (q_idempotency s) (tk_task_type y, key) = None"
    and ok: "task_ok y"
  shows "after M s t"
proof -
  have *: "queue_inv t \<and> evolution M s t" if inv: "queue_inv s" and good: "env_ok (q_env t)"
  proof -
    have le: "env_le ((q_env s)\<lparr>id_count := Suc (id_count (q_env s))\<rparr>) (q_env t)"
      using env drawn(1) by (simp add: env_le_def)
    have fresh: "map_of (q_tasks s) (tk_id y) = None"
      using fresh_id [OF env_ok_mono [OF good le]] queue_invD(4) [OF inv] drawn(2)
      by (cases "map_of (q_tasks s) (tk_id y)") auto
    have tasks: "map_of (q_tasks t) = (map_of (q_tasks s))(tk_id y \<mapsto> y)"
      using put by (simp add: update_conv')
    have entries: "map_of (q_idempotency t) = (case tk_idempotency_key y of None \<Rightarrow> map_of (q_idempotency s)
      | Some key \<Rightarrow> (map_of (q_idempotency s))((tk_task_type y, key) \<mapsto> (tk_id y, tk_request_fingerprint y)))"
      using index by (simp add: update_conv' split: option.split)
    have keep: "map_of (q_idempotency t) e = map_of (q_idempotency s) e"
      if "tk_idempotency_key y = None \<or> e \<noteq> (tk_task_type y, the (tk_idempotency_key y))" for e
      using that unfolding entries by (cases "tk_idempotency_key y") simp_all
    have mem: "tk_id y \<in> drawn_ids (q_env t)"
      using drawn env by (auto simp: drawn_ids_def env_le_def)
    have "queue_inv t"
      unfolding queue_inv_def tasks
    proof (intro conjI allI impI)
      show "distinct (map fst (q_tasks t))" using queue_invD(1) [OF inv] put by (simp add: distinct_update)
    next
      fix k u assume "((map_of (q_tasks s))(tk_id y \<mapsto> y)) k = Some u"
      then show "tk_id u = k" "task_ok u" "k \<in> drawn_ids (q_env t)"
        using queue_invD(2-4) [OF inv, of k u] mem ok subsetD [OF drawn_mono [OF env], of k]
        by (auto split: if_splits)
    next
      fix e i fp assume e: "map_of (q_idempotency t) e = Some (i, fp)"
      show "\<exists>u. ((map_of (q_tasks s))(tk_id y \<mapsto> y)) i = Some u \<and> tk_task_type u = fst e \<and>
          tk_idempotency_key u = Some (snd e) \<and> tk_request_fingerprint u = fp"
      proof (cases "tk_idempotency_key y \<noteq> None \<and> e = (tk_task_type y, the (tk_idempotency_key y))")
        case True
        then show ?thesis using e entries by auto
      next
        case False
        then have "map_of (q_idempotency s) e = Some (i, fp)"
          using e keep [of e] by auto
        from queue_invD(5) [OF inv this] fresh show ?thesis by (cases "i = tk_id y") simp_all
      qed
    next
      fix k u key assume u: "((map_of (q_tasks s))(tk_id y \<mapsto> y)) k = Some u" "tk_idempotency_key u = Some key"
      show "map_of (q_idempotency t) (tk_task_type u, key) = Some (k, tk_request_fingerprint u)"
      proof (cases "k = tk_id y")
        case True
        then show ?thesis using u entries by simp
      next
        case False
        then have "map_of (q_idempotency s) (tk_task_type u, key) = Some (k, tk_request_fingerprint u)"
          using u queue_invD(6) [OF inv, of k u key] by simp
        moreover have "tk_idempotency_key y = None \<or>
            (tk_task_type u, key) \<noteq> (tk_task_type y, the (tk_idempotency_key y))"
          using calculation new by (cases "tk_idempotency_key y") (simp, metis option.distinct(1) option.sel prod.inject)
        ultimately show ?thesis using keep [of "(tk_task_type u, key)"] by simp
      qed
    qed
    moreover have "evolution M s t" unfolding evolution_def tasks using fresh by auto
    ultimately show ?thesis ..
  qed
  then show ?thesis using env policy by (simp add: after_def)
qed

lemma clear_lease_sel [simp]:
  "tk_id (clear_lease t) = tk_id t" "tk_task_type (clear_lease t) = tk_task_type t"
  "tk_payload (clear_lease t) = tk_payload t" "tk_queue (clear_lease t) = tk_queue t"
  "tk_priority (clear_lease t) = tk_priority t" "tk_status (clear_lease t) = tk_status t"
  "tk_idempotency_key (clear_lease t) = tk_idempotency_key t"
  "tk_request_fingerprint (clear_lease t) = tk_request_fingerprint t"
  "tk_source_schedule_id (clear_lease t) = tk_source_schedule_id t" "tk_attempts (clear_lease t) = tk_attempts t"
  "tk_max_attempts (clear_lease t) = tk_max_attempts t" "tk_available_at (clear_lease t) = tk_available_at t"
  "tk_cancel_requested (clear_lease t) = tk_cancel_requested t" "tk_result (clear_lease t) = tk_result t"
  "tk_error_code (clear_lease t) = tk_error_code t" "tk_created_at (clear_lease t) = tk_created_at t"
  "tk_started_at (clear_lease t) = tk_started_at t" "tk_finished_at (clear_lease t) = tk_finished_at t"
  "lease_free (clear_lease t)"
  by (simp_all add: clear_lease_def lease_free_def)

lemma clear_free [simp]: "lease_free t \<Longrightarrow> clear_lease t = t"
  by (cases t) (simp add: clear_lease_def lease_free_def)

lemmas task_defs = task_ok_def status_ok_def task_fields_valid_def is_terminal_def
lemmas change_defs = evolves_def same_request_def

text \<open>A delay is refused only when the environment breaks its promise.\<close>

lemma delay_refused:
  assumes "retry_delay p (tk_attempts t) (entropy_at e (entropy_count e)) = Inl x"
    and "task_ok t" "tk_status t = Running"
  shows "\<not> env_ok (e\<lparr>entropy_count := Suc (entropy_count e)\<rparr>)"
proof
  assume "env_ok (e\<lparr>entropy_count := Suc (entropy_count e)\<rparr>)"
  from env_ok_entropy [OF this, of "entropy_count e"] show False
    using assms by (auto simp: retry_delay_def Let_def task_ok_def status_ok_def split: if_splits)
qed

lemma held_free:
  "task_ok t \<Longrightarrow> tk_status t \<noteq> Running \<Longrightarrow> lease_free t"
  "task_ok t \<Longrightarrow> tk_status t = Running \<Longrightarrow> lease_held t"
  by (simp_all add: task_ok_def)

definition recover_moves :: moves where
  "recover_moves = {(Running, RetryWait), (Running, Cancelled), (Running, DeadLetter)}"

lemmas exit_simps = change_defs task_defs recover_moves_def lease_expired_def

lemma recover_task_after: "wp (recover_task now k) (\<lambda>_. after recover_moves s) (\<lambda>_. after recover_moves s) s"
  unfolding recover_task_def
  apply (intro wp_intros; simp add: after_idle)
  subgoal by (rule put_rule, assumption) (auto simp: exit_simps)
  subgoal for t
    by (rule after_bad) (auto simp: lease_expired_def env_le_def dest: delay_refused dest: queue_invD(3))
  subgoal by (rule put_rule, assumption) (auto simp: exit_simps)
  subgoal by (rule put_rule, assumption) (auto simp: exit_simps)
  done

text \<open>Programs run one after the other.\<close>

lemma after_compose:
  assumes "wp m (\<lambda>_. after M s) (\<lambda>_. after M s) s"
    and "\<And>x t. wp (k x) (\<lambda>_. after N t) (\<lambda>_. after N t) t"
    and "M \<union> N \<union> M O N \<subseteq> L"
  shows "wp (andThen m k) (\<lambda>_. after L s) (\<lambda>_. after L s) s"
proof -
  have "M \<subseteq> L" and trans: "after L s u" if "after M s t" "after N t u" for t u
    using assms(3) after_mono [OF after_trans [OF that]] by auto
  moreover have "wp (k x) (\<lambda>_. after L s) (\<lambda>_. after L s) t" if "after M s t" for x t
    using assms(2) [of x t] trans [OF that] by (auto elim: wp_mono)
  ultimately show ?thesis
    unfolding wp_andThen using assms(1,3) by (auto elim!: wp_mono intro: after_mono)
qed

lemma after_refl [simp]: "after M s s"
  by (simp add: after_idle)

lemma after_loop:
  assumes "\<And>x t. wp (f x) (\<lambda>_. after M t) (\<lambda>_. after M t) t" and "M O M \<subseteq> M"
  shows "wp (map_each f xs) (\<lambda>_. after M s) (\<lambda>_. after M s) s"
proof -
  have "after M s u" if "after M s t" "after M t u" for t u
    using after_mono [OF after_trans [OF that]] assms(2) by simp
  then have "wp (f x) (\<lambda>_ u. True \<and> after M s u) (\<lambda>_. after M s) t" if "after M s t" for x t
    using assms(1) [of x t] that by (auto elim!: wp_mono)
  then show ?thesis
    by (intro wp_map_each [where I = "after M s" and R = "\<lambda>_ _. True"]) simp_all
qed

lemma recover_expired_after:
  "wp (recover_expired_locked now) (\<lambda>_. after recover_moves s) (\<lambda>_. after recover_moves s) s"
  unfolding recover_expired_locked_def
  by (intro wp_intros wp_mono [OF after_loop [OF recover_task_after]]) (auto simp: recover_moves_def wp_ret)

definition claim_moves :: moves where
  "claim_moves = recover_moves \<union> {(Queued, Running), (RetryWait, Running), (Running, Running)}"

lemma best_task:
  assumes "first_min claim_order (filter (claimable queues now) (map snd (q_tasks s))) = Some t"
    and "queue_inv s"
  shows "map_of (q_tasks s) (tk_id t) = Some t" "claimable queues now t"
proof -
  have "t \<in> set (filter (claimable queues now) (map snd (q_tasks s)))" using first_min_mem [OF assms(1)] .
  then obtain k where k: "(k, t) \<in> set (q_tasks s)" and c: "claimable queues now t" by auto
  then have "map_of (q_tasks s) k = Some t" using queue_invD(1) [OF assms(2)] by simp
  then show "map_of (q_tasks s) (tk_id t) = Some t" using queue_invD(2) [OF assms(2)] by simp
  show "claimable queues now t" by (rule c)
qed

lemmas best_stored = best_task(1) and best_claimable = best_task(2)

lemma after_invI:
  "env_le (q_env s) (q_env t) \<Longrightarrow> q_policy t = q_policy s \<Longrightarrow> (queue_inv s \<Longrightarrow> after M s t) \<Longrightarrow> after M s t"
  by (simp add: after_def)

lemma claimable_ok:
  assumes "task_ok t" "claimable queues now t"
  shows "task_fields_valid t" "0 \<le> tk_attempts t" "tk_attempts t < tk_max_attempts t"
    "tk_finished_at t = None" "tk_result t = None" "\<not> is_terminal (tk_status t)" "lease_free t"
proof -
  have st: "tk_status t = Queued \<or> tk_status t = RetryWait" using assms(2) by (simp add: claimable_def)
  show "task_fields_valid t" "0 \<le> tk_attempts t" using assms(1) by (simp_all add: task_ok_def)
  show "\<not> is_terminal (tk_status t)" using st by (auto simp: is_terminal_def)
  then show "tk_finished_at t = None" "tk_result t = None" "lease_free t"
    using assms(1) st by (auto simp: task_ok_def)
  show "tk_attempts t < tk_max_attempts t"
    using assms(1) st by (auto simp: task_ok_def status_ok_def task_fields_valid_def)
qed

lemma granted_ok:
  assumes "task_ok t" "claimable queues now t"
  shows "task_ok (t\<lparr>tk_status := Running, tk_attempts := tk_attempts t + 1, tk_lease_owner := Some w,
      tk_lease_token_hash := Some h, tk_lease_expires_at := Some e, tk_heartbeat_at := Some b,
      tk_started_at := case tk_started_at t of None \<Rightarrow> Some b | Some x \<Rightarrow> Some x\<rparr>)"
  using claimable_ok(1-5) [OF assms]
  by (simp add: task_ok_def status_ok_def lease_held_def is_terminal_def task_fields_valid_def split: option.split)

definition grant_moves :: moves where
  "grant_moves = {(Queued, Running), (RetryWait, Running)}"

lemma grant_after:
  "wp (grant digest w queues n now) (\<lambda>_. after grant_moves s) (\<lambda>_. after grant_moves s) s"
  unfolding grant_def
  apply (intro wp_intros; simp add: after_idle)
  apply (rule after_invI; simp?)
  apply (frule (1) best_stored)
  apply (frule (1) best_claimable)
  apply (rule put_rule(2), assumption)
  subgoal for t using claimable_ok(6) [of t queues now] by (auto simp: change_defs grant_moves_def claimable_def)
    apply (erule (1) granted_ok)
  apply simp
  done

lemma q_current_after: "wp (q_current now) (\<lambda>_. after M s) (\<lambda>_. after M s) s"
  unfolding q_current_def by (intro wp_intros; simp add: after_idle)

lemma ensure_after: "wp (ensure b e) (\<lambda>_. after M s) (\<lambda>_. after M s) s"
  by (simp add: wp_ensure)

lemma after_current:
  assumes "\<And>x t. wp (k x) (\<lambda>_. after L t) (\<lambda>_. after L t) t"
  shows "wp (andThen (q_current now) k) (\<lambda>_. after L s) (\<lambda>_. after L s) s"
  by (rule after_compose [OF q_current_after [where M = "{}"] assms]) simp

lemma after_ensure:
  assumes "\<And>x t. wp (k x) (\<lambda>_. after L t) (\<lambda>_. after L t) t"
  shows "wp (andThen (ensure b e) k) (\<lambda>_. after L s) (\<lambda>_. after L s) s"
  by (rule after_compose [OF ensure_after [where M = "{}"] assms]) simp

lemma claim_after:
  "wp (claim digest w queues n now) (\<lambda>_. after claim_moves s) (\<lambda>_. after claim_moves s) s"
  unfolding claim_def
  by (intro after_ensure after_current after_compose [OF recover_expired_after grant_after])
    (auto simp: recover_moves_def grant_moves_def claim_moves_def)

lemma insert_task_after:
  assumes "\<And>key. ea_idempotency_key a = Some key \<Longrightarrow> map_of (q_idempotency s) (ea_task_type a, key) = None"
  shows "wp (insert_task a fp due now) (\<lambda>_. after {} s) (\<lambda>_. after {} s) s"
  unfolding insert_task_def
  apply (intro wp_intros)
  subgoal by (simp add: after_idle)
  subgoal for x
    by (rule after_insert [where y = x])
      (simp_all add: task_ok_def status_ok_def lease_free_def is_terminal_def task_fields_valid_def)
  subgoal for x key
    by (rule after_insert [where y = x])
      (simp_all add: task_ok_def status_ok_def lease_free_def is_terminal_def task_fields_valid_def assms)
  done

lemma wp_lease:
  assumes "\<And>e. E e s"
    and "\<And>t. map_of (q_tasks s) k = Some t \<Longrightarrow> lease_valid digest w token now t \<Longrightarrow> Q t s"
  shows "wp (require_valid_lease digest k w token now) Q E s"
  unfolding require_valid_lease_def by (intro wp_intros assms)

lemmas lease_exit = exit_simps lease_valid_def

lemma heartbeat_after:
  "wp (task_heartbeat digest k w token n now) (\<lambda>_. after {} s) (\<lambda>_. after {} s) s"
  unfolding task_heartbeat_def
  apply (intro after_ensure after_current)
  apply (intro wp_lease wp_intros; simp add: after_idle)
  apply (rule put_rule(1), assumption; auto simp: lease_exit lease_held_def)
  done

lemma enqueue_after: "wp (enqueue digest a) (\<lambda>_. after {} s) (\<lambda>_. after {} s) s"
proof -
  have start: "after {} (tick s) t \<Longrightarrow> after {} s t" for t
    using after_trans [of "{}" s "tick s" "{}" t] by (simp add: after_idle)
  show ?thesis
    unfolding enqueue_def
    apply (intro wp_intros; (simp add: after_idle)?)
    subgoal
      by (rule wp_mono [OF insert_task_after]) (auto intro: start split: option.splits)
    done
qed

lemma complete_after:
  "wp (complete digest k w token r now) (\<lambda>_. after {(Running, Succeeded), (Running, Cancelled)} s)
     (\<lambda>_. after {(Running, Succeeded), (Running, Cancelled)} s) s"
  unfolding complete_def
  apply (intro after_current)
  apply (intro wp_lease wp_intros; simp add: after_idle)
  apply (intro conjI impI)
   apply (rule put_rule(1), assumption; auto simp: lease_exit)
  apply (rule put_rule(1), assumption; auto simp: lease_exit)
  done

lemma fail_after:
  "wp (fail_task digest k w token code retryable now) (\<lambda>_. after (insert (Running, Failed) recover_moves) s)
     (\<lambda>_. after (insert (Running, Failed) recover_moves) s) s"
  unfolding fail_task_def
  apply (intro after_current)
  apply (intro wp_lease wp_intros; simp add: after_idle)
  subgoal by (rule put_rule(1), assumption; auto simp: lease_exit)
  subgoal for now t
    by (rule after_bad) (auto simp: lease_valid_def env_le_def dest: delay_refused dest: queue_invD(3))
  subgoal by (rule put_rule(2), assumption; auto simp: lease_exit)
  subgoal by (rule put_rule(1), assumption; auto simp: lease_exit)
  subgoal by (rule put_rule(1), assumption; auto simp: lease_exit)
  done

lemma request_cancel_after:
  "wp (request_cancel k now) (\<lambda>_. after {(Queued, Cancelled), (RetryWait, Cancelled)} s)
     (\<lambda>_. after {(Queued, Cancelled), (RetryWait, Cancelled)} s) s"
  unfolding request_cancel_def
  apply (intro after_current)
  apply (intro wp_lease wp_intros; simp add: after_idle)
  apply (intro conjI impI)
  subgoal by (rule put_rule(1), assumption; auto simp: exit_simps lease_held_def)
  subgoal by (rule put_rule(1), assumption; auto simp: exit_simps)
  subgoal by (rule put_rule(1), assumption; auto simp: exit_simps)
  subgoal by (rule put_rule(1), assumption; simp)
  done

lemma acknowledge_cancel_after:
  "wp (acknowledge_cancel digest k w token now) (\<lambda>_. after {(Running, Cancelled)} s)
     (\<lambda>_. after {(Running, Cancelled)} s) s"
  unfolding acknowledge_cancel_def
  apply (intro after_current)
  apply (intro wp_lease wp_intros; simp add: after_idle)
  apply (rule put_rule(1), assumption; auto simp: lease_exit)
  done

end
