(* ===== verification/Task_Properties.thy ===== *)
theory Task_Properties
  imports Task_Lifecycle
begin

text \<open>
  Histories of calls on the task queue and the properties of the queue over them.
\<close>

section \<open>Histories\<close>

datatype queue_request =
    EnqueueRequest enqueue_args
  | GetRequest text_t
  | ListRequest
  | ClaimRequest text_t "text_t list" int "dt option"
  | HeartbeatRequest text_t text_t text_t int "dt option"
  | CompleteRequest text_t text_t text_t "json option" "dt option"
  | FailRequest text_t text_t text_t text_t bool "dt option"
  | CancelRequest text_t "dt option"
  | AcknowledgeRequest text_t text_t text_t "dt option"
  | RecoverRequest "dt option"
  | ActiveRequest text_t

fun serve :: "(text_t \<Rightarrow> text_t) \<Rightarrow> queue_request \<Rightarrow> task_queue \<Rightarrow> task_queue" where
  "serve digest (EnqueueRequest a) s = snd (enqueue digest a s)"
| "serve digest (GetRequest k) s = snd (queue_get k s)"
| "serve digest ListRequest s = snd (list_tasks s)"
| "serve digest (ClaimRequest w queues n now) s = snd (claim digest w queues n now s)"
| "serve digest (HeartbeatRequest k w token n now) s = snd (task_heartbeat digest k w token n now s)"
| "serve digest (CompleteRequest k w token r now) s = snd (complete digest k w token r now s)"
| "serve digest (FailRequest k w token code retryable now) s =
     snd (fail_task digest k w token code retryable now s)"
| "serve digest (CancelRequest k now) s = snd (request_cancel k now s)"
| "serve digest (AcknowledgeRequest k w token now) s = snd (acknowledge_cancel digest k w token now s)"
| "serve digest (RecoverRequest now) s = snd (recover_expired now s)"
| "serve digest (ActiveRequest k) s = snd (active_for_schedule k s)"

definition serve_all :: "(text_t \<Rightarrow> text_t) \<Rightarrow> queue_request list \<Rightarrow> task_queue \<Rightarrow> task_queue" where
  "serve_all digest rs s = fold (serve digest) rs s"

definition start_queue :: "aenv \<Rightarrow> RetryPolicy option \<Rightarrow> task_queue" where
  "start_queue e policy = \<lparr>q_env = e,
     q_policy = (case policy of None \<Rightarrow> default_retry_policy | Some p \<Rightarrow> p),
     q_tasks = [], q_idempotency = []\<rparr>"

text \<open>The status changes that a call may make.\<close>

fun request_moves :: "queue_request \<Rightarrow> moves" where
  "request_moves (ClaimRequest _ _ _ _) = claim_moves"
| "request_moves (CompleteRequest _ _ _ _ _) = {(Running, Succeeded), (Running, Cancelled)}"
| "request_moves (FailRequest _ _ _ _ _ _) = insert (Running, Failed) recover_moves"
| "request_moves (CancelRequest _ _) = {(Queued, Cancelled), (RetryWait, Cancelled)}"
| "request_moves (AcknowledgeRequest _ _ _ _) = {(Running, Cancelled)}"
| "request_moves (RecoverRequest _) = recover_moves"
| "request_moves _ = {}"

lemma recover_after: "wp (recover_expired now) (\<lambda>_. after recover_moves s) (\<lambda>_. after recover_moves s) s"
  unfolding recover_expired_def by (intro after_current recover_expired_after)

lemma reading_after:
  "wp (queue_get k) (\<lambda>_. after M s) (\<lambda>_. after M s) s"
  "wp list_tasks (\<lambda>_. after M s) (\<lambda>_. after M s) s"
  "wp (active_for_schedule k) (\<lambda>_. after M s) (\<lambda>_. after M s) s"
  by (simp_all add: queue_get_def list_tasks_def active_for_schedule_def wp_simps split: option.split)

lemmas operation_after = reading_after enqueue_after claim_after heartbeat_after complete_after fail_after
  request_cancel_after acknowledge_cancel_after recover_after

lemma serve_after: "after (request_moves r) s (serve digest r s)"
  by (cases r) (simp_all add: operation_after [unfolded wp_final])

lemma serve_all_after: "after UNIV s (serve_all digest rs s)"
proof (induction rs arbitrary: s)
  case Nil
  then show ?case by (simp add: serve_all_def)
next
  case (Cons r rs)
  from after_trans [OF serve_after Cons.IH] show ?case
    unfolding serve_all_def by (auto elim: after_mono)
qed

lemma start_queue_inv: "queue_inv (start_queue e policy)"
  by (simp add: queue_inv_def start_queue_def)

lemma history_inv:
  "env_ok (q_env (serve_all digest rs (start_queue e policy))) \<Longrightarrow> queue_inv (serve_all digest rs (start_queue e policy))"
  using serve_all_after [of "start_queue e policy" digest rs] start_queue_inv by (simp add: after_def)

text \<open>At most one identifier is drawn per call, so a fair environment stays fair for long.\<close>

definition few_ids :: "task_queue \<Rightarrow> task_queue \<Rightarrow> bool" where
  "few_ids s t \<longleftrightarrow> id_count (q_env t) \<le> Suc (id_count (q_env s))"

lemma recover_few: "wp (recover_expired_locked now) (\<lambda>_ t. id_count (q_env t) = id_count (q_env s))
    (\<lambda>_ t. id_count (q_env t) = id_count (q_env s)) s"
proof -
  let ?I = "\<lambda>t. id_count (q_env t) = id_count (q_env s)"
  have "wp (recover_task now k) (\<lambda>_ u. True \<and> ?I u) (\<lambda>_. ?I) t" if "?I t" for k t
    unfolding recover_task_def using that by (intro wp_intros; simp)
  then show ?thesis
    unfolding recover_expired_locked_def
    by (intro wp_intros wp_map_each [where I = ?I and R = "\<lambda>_ _. True"]) simp_all
qed

lemma current_few: "(\<And>x t. id_count (q_env t) = id_count (q_env s) \<Longrightarrow> Q x t) \<Longrightarrow> (\<And>e. E e s) \<Longrightarrow> wp (q_current now) Q E s"
  unfolding q_current_def by (intro wp_intros) auto

lemma operations_few:
  "wp (enqueue digest a) (\<lambda>_. few_ids s) (\<lambda>_. few_ids s) s"
  "wp (claim digest w queues n now) (\<lambda>_. few_ids s) (\<lambda>_. few_ids s) s"
  "wp (task_heartbeat digest k w token n now) (\<lambda>_. few_ids s) (\<lambda>_. few_ids s) s"
  "wp (complete digest k w token r now) (\<lambda>_. few_ids s) (\<lambda>_. few_ids s) s"
  "wp (fail_task digest k w token code retryable now) (\<lambda>_. few_ids s) (\<lambda>_. few_ids s) s"
  "wp (request_cancel k now) (\<lambda>_. few_ids s) (\<lambda>_. few_ids s) s"
  "wp (acknowledge_cancel digest k w token now) (\<lambda>_. few_ids s) (\<lambda>_. few_ids s) s"
  "wp (recover_expired now) (\<lambda>_. few_ids s) (\<lambda>_. few_ids s) s"
  "wp (queue_get k) (\<lambda>_. few_ids s) (\<lambda>_. few_ids s) s"
  "wp list_tasks (\<lambda>_. few_ids s) (\<lambda>_. few_ids s) s"
  "wp (active_for_schedule k) (\<lambda>_. few_ids s) (\<lambda>_. few_ids s) s"
  unfolding enqueue_def insert_task_def claim_def grant_def task_heartbeat_def complete_def fail_task_def
    request_cancel_def acknowledge_cancel_def recover_expired_def queue_get_def list_tasks_def active_for_schedule_def
    few_ids_def
  by (intro current_few wp_lease wp_mono [OF recover_few] wp_intros; simp)+

lemma serve_few: "id_count (q_env (serve_all digest rs s)) \<le> id_count (q_env s) + length rs"
proof (induction rs arbitrary: s)
  case Nil
  then show ?case by (simp add: serve_all_def)
next
  case (Cons r rs)
  have "few_ids s (serve digest r s)"
    by (cases r) (simp_all add: operations_few [unfolded wp_final])
  with Cons.IH [of "serve digest r s"] show ?case by (simp add: serve_all_def few_ids_def)
qed

section \<open>A sample history\<close>

definition demo_env :: aenv where
  "demo_env = \<lparr>now_at = (\<lambda>n. int n * minute_us), now_count = 0, id_at = word_of_nat, id_count = 0,
     token_at = (\<lambda>n. replicate (Suc n) CHR ''t''), token_count = 0, entropy_at = (\<lambda>_. 1/2), entropy_count = 0\<rparr>"

definition demo_task :: enqueue_args where
  "demo_task = \<lparr>ea_task_type = ''run'', ea_payload = JObj [], ea_queue = ''default'', ea_priority = 50,
     ea_max_attempts = 2, ea_idempotency_key = Some ''k'', ea_source_schedule_id = None, ea_available_at = None\<rparr>"

definition demo_requests :: "queue_request list" where
  "demo_requests = [EnqueueRequest demo_task, ClaimRequest ''w1'' [''default''] 30 None,
     RecoverRequest (Some (Aware (15 * minute_us))),
     ClaimRequest ''w2'' [''default''] 30 (Some (Aware (16 * minute_us)))]"

lemma demo_fair:
  assumes "env_le demo_env e" "id_count e < 1000"
  shows "env_ok e"
proof -
  have e: "id_at e = word_of_nat" "entropy_at e = (\<lambda>_. 1/2)" using assms by (simp_all add: env_le_def demo_env_def)
  have unat: "unat (word_of_nat n :: uuid) = n" if "n < 1000" for n
  proof -
    have "n < 2 ^ 128" using that by (rule less_trans) simp
    then show ?thesis by (simp add: unat_of_nat)
  qed
  have "a = b" if "(word_of_nat a :: uuid) = word_of_nat b" "a < 1000" "b < 1000" for a b
    using unat [OF that(2), symmetric] unat [OF that(3)] unfolding that(1) by (rule trans)
  then have "inj_on (word_of_nat :: nat \<Rightarrow> uuid) {..<1000}" by (auto intro: inj_onI)
  then have "inj_on (word_of_nat :: nat \<Rightarrow> uuid) (set [0..<id_count e])"
    using assms(2) by (auto elim: inj_on_subset)
  then show ?thesis by (simp add: env_ok_def e distinct_map list_all_iff)
qed

lemma demo_history_fair:
  "length rs < 1000 \<Longrightarrow> env_ok (q_env (serve_all digest rs (start_queue demo_env policy)))"
  using serve_few [of digest rs "start_queue demo_env policy"] serve_all_after [of "start_queue demo_env policy" digest rs]
  unfolding after_def by (intro demo_fair) (simp_all add: start_queue_def demo_env_def)

section \<open>Properties\<close>



text \<open>C15: A call moves tasks only along the edges its kind allows, keeps what the task was enqueued with,
  never lowers the attempt count, and leaves a finished task exactly as it is.\<close>

theorem tasks_evolve:
  "env_ok (q_env (serve_all digest (rs @ [r]) (start_queue e policy))) \<Longrightarrow>
   evolution (request_moves r) (serve_all digest rs (start_queue e policy))
     (serve_all digest (rs @ [r]) (start_queue e policy))"
proof -
  let ?s = "serve_all digest rs (start_queue e policy)"
  assume ok: "env_ok (q_env (serve_all digest (rs @ [r]) (start_queue e policy)))"
  have last: "serve_all digest (rs @ [r]) (start_queue e policy) = serve digest r ?s" by (simp add: serve_all_def)
  have step: "after (request_moves r) ?s (serve digest r ?s)" by (rule serve_after)
  then have "env_ok (q_env ?s)" using ok unfolding last by (auto simp: after_def dest: env_ok_mono)
  then have "queue_inv ?s" by (rule history_inv)
  then show ?thesis using step ok unfolding last by (simp add: after_def)
qed

theorem tasks_evolve_witness:
  "evolution (request_moves (RecoverRequest None)) (serve_all (\<lambda>_. ''d'') demo_requests (start_queue demo_env None))
     (serve_all (\<lambda>_. ''d'') (demo_requests @ [RecoverRequest None]) (start_queue demo_env None))"
  by (rule tasks_evolve [OF demo_history_fair]) (simp add: demo_requests_def)









lemma q_current_aware: "q_current (Some (Aware now)) = ret now"
  by (simp add: q_current_def fun_eq_iff run_simps)















lemma delay_nonneg: "retry_delay p a x = Inr d \<Longrightarrow> 0 \<le> microseconds d"
  by (rule microseconds_nonneg) (auto simp: retry_delay_def Let_def split: if_splits)

definition fail_settles :: "bool \<Rightarrow> instant \<Rightarrow> AutomationTask option \<Rightarrow> AutomationTask \<Rightarrow> bool" where
  "fail_settles retryable now before u =
     (case before of None \<Rightarrow> False | Some t \<Rightarrow>
        tk_status u = (if tk_cancel_requested t then Cancelled
          else if retryable then (if tk_attempts t < tk_max_attempts t then RetryWait else DeadLetter) else Failed) \<and>
        lease_free u \<and> tk_attempts u = tk_attempts t \<and>
        (tk_status u = RetryWait \<or> tk_finished_at u = Some now) \<and>
        (tk_status u \<noteq> RetryWait \<or> now \<le> tk_available_at u))"

text \<open>C19: An accepted failure report ends the lease and settles the task as documented: cancelled when that
  was requested, else waiting for a retry no earlier than now when the error is retryable and
  attempts remain, else dead or failed.\<close>

theorem failure_settles:
  "wp (fail_task digest k w token code retryable (Some (Aware now)))
     (\<lambda>u t. map_of (q_tasks t) (tk_id u) = Some u \<and> fail_settles retryable now (map_of (q_tasks s) k) u)
     (\<lambda>_ _. True) s"
  unfolding fail_task_def q_current_aware andThen_ret
  by (intro wp_lease wp_intros; simp add: fail_settles_def update_conv' delay_nonneg)

end
