(* ===== verification/Devices.thy ===== *)
theory Devices
  imports Automation_Models
begin

text \<open>
  \<open>automation/devices.py\<close>: the in-memory device manager, with capability matching and exclusive
  leases. Devices and leases live in dicts and are changed in place.
\<close>

section \<open>State\<close>

record devices =
  d_env :: aenv
  d_offline_after :: int
  d_devices :: "(text_t \<times> Device) list"
  d_leases :: "(text_t \<times> DeviceLease) list"
  d_names :: "(text_t \<times> text_t) list"

type_synonym 'a device_op = "(devices, automation_error, 'a) prog"

definition device_manager :: "aenv \<Rightarrow> int \<Rightarrow> automation_error + devices" where
  "device_manager e offline_after_seconds =
     (if offline_after_seconds < 1
        then Inl (AutomationValidationError ''device offline threshold must be positive'')
      else Inr \<lparr>d_env = e, d_offline_after = seconds offline_after_seconds, d_devices = [], d_leases = [],
                d_names = []\<rparr>)"

definition d_now :: "instant device_op" where
  "d_now = (\<lambda>s. (Inr (now_at (d_env s) (now_count (d_env s))),
     s\<lparr>d_env := (d_env s)\<lparr>now_count := Suc (now_count (d_env s))\<rparr>\<rparr>))"

definition d_new_id :: "text_t device_op" where
  "d_new_id = (\<lambda>s. (Inr (str_of_uuid (id_at (d_env s) (id_count (d_env s)))),
     s\<lparr>d_env := (d_env s)\<lparr>id_count := Suc (id_count (d_env s))\<rparr>\<rparr>))"

definition d_token :: "text_t device_op" where
  "d_token = (\<lambda>s. (Inr (token_at (d_env s) (token_count (d_env s))),
     s\<lparr>d_env := (d_env s)\<lparr>token_count := Suc (token_count (d_env s))\<rparr>\<rparr>))"

definition device_tz :: text_t where
  "device_tz = ''device timestamps must be timezone-aware''"

definition d_current :: "dt option \<Rightarrow> instant device_op" where
  "d_current now = (case now of None \<Rightarrow> d_now | Some d \<Rightarrow> from_sum (as_utc device_tz d))"

definition put_device :: "Device \<Rightarrow> unit device_op" where
  "put_device d = writes (d_devices_update (AList.update (dv_id d) d))"

definition put_lease :: "DeviceLease \<Rightarrow> unit device_op" where
  "put_lease l = writes (d_leases_update (AList.update (dl_id l) l))"

definition require_device :: "text_t \<Rightarrow> Device device_op" where
  "require_device device_id =
     andThen (reads (\<lambda>s. map_of (d_devices s) device_id))
       (from_option (AutomationNotFoundError ''device was not found''))"

section \<open>Status\<close>

text \<open>Whether the last heartbeat is recent enough.\<close>

definition effective_status :: "int \<Rightarrow> Device \<Rightarrow> instant \<Rightarrow> DeviceStatus" where
  "effective_status offline_after d now =
     (if dv_status d = Maintenance then Maintenance
      else case dv_last_heartbeat_at d of
          None \<Rightarrow> Offline
        | Some beat \<Rightarrow>
            if \<not> dv_enabled d then Offline
            else if beat + offline_after \<le> now then Offline
            else if dv_active_lease_id d \<noteq> None then dv_status d
            else Idle)"

definition available_status :: "int \<Rightarrow> Device \<Rightarrow> instant \<Rightarrow> DeviceStatus" where
  "available_status offline_after d now =
     (if dv_status d = Maintenance then Maintenance
      else case dv_last_heartbeat_at d of
          None \<Rightarrow> Offline
        | Some beat \<Rightarrow>
            if \<not> dv_enabled d then Offline
            else if beat + offline_after > now then Idle else Offline)"

definition effective_copy :: "Device \<Rightarrow> instant \<Rightarrow> Device device_op" where
  "effective_copy d now = reads (\<lambda>s. d\<lparr>dv_status := effective_status (d_offline_after s) d now\<rparr>)"

text \<open>\<open>device.version += 1; device.updated_at = now\<close>\<close>

definition touch :: "instant \<Rightarrow> Device \<Rightarrow> Device" where
  "touch now d = d\<lparr>dv_version := dv_version d + 1, dv_updated_at := now\<rparr>"

section \<open>Expiry\<close>

definition expire_lease :: "instant \<Rightarrow> text_t \<Rightarrow> DeviceLease list device_op" where
  "expire_lease now lease_id =
     andThen (reads (\<lambda>s. map_of (d_leases s) lease_id)) (\<lambda>found.
     case found of
       None \<Rightarrow> ret []
     | Some l \<Rightarrow>
         if dl_status l = LeaseActive \<and> dl_expires_at l \<le> now then
           let l = l\<lparr>dl_status := LeaseExpired, dl_released_at := Some now, dl_version := dl_version l + 1\<rparr> in
           andThen (put_lease l) (\<lambda>_.
           andThen (require_device (dl_device_id l)) (\<lambda>d.
           andThen (reads d_offline_after) (\<lambda>offline_after.
           andThen
             (if dv_active_lease_id d = Some (dl_id l)
                then let d = d\<lparr>dv_active_lease_id := None\<rparr> in
                  put_device (touch now (d\<lparr>dv_status := available_status offline_after d now\<rparr>))
              else ret ()) (\<lambda>_.
           ret [l]))))
         else ret [])"

definition expire_locked :: "instant \<Rightarrow> DeviceLease list device_op" where
  "expire_locked now =
     andThen (reads (\<lambda>s. map fst (d_leases s))) (\<lambda>ids.
     andThen (map_each (expire_lease now) ids) (\<lambda>changed.
     ret (concat changed)))"

section \<open>Operations\<close>

record register_args =
  ra_name :: text_t
  ra_agent_id :: text_t
  ra_kind :: text_t
  ra_platform :: text_t
  ra_capabilities :: "text_t list"

definition register :: "register_args \<Rightarrow> Device device_op" where
  "register a =
     andThen (reads (\<lambda>s. map_of (d_names s) (py_casefold (ra_name a)))) (\<lambda>named.
     andThen (ensure (named = None) (AutomationConflictError ''device name already exists'')) (\<lambda>_.
     andThen (reads (\<lambda>s. list_ex (\<lambda>d. dv_agent_id d = ra_agent_id a) (map snd (d_devices s)))) (\<lambda>taken.
     andThen (ensure (\<not> taken) (AutomationConflictError ''device agent id already exists'')) (\<lambda>_.
     andThen d_new_id (\<lambda>i.
     andThen d_now (\<lambda>created.
     andThen d_now (\<lambda>updated.
     let d = \<lparr>dv_id = i, dv_name = ra_name a, dv_kind = ra_kind a, dv_platform = ra_platform a,
           dv_capabilities = ra_capabilities a, dv_agent_id = ra_agent_id a, dv_enabled = True,
           dv_status = Offline, dv_last_heartbeat_at = None, dv_active_lease_id = None, dv_version = 0,
           dv_created_at = created, dv_updated_at = updated\<rparr> in
     andThen (ensure (device_fields_valid d) (ModelValidationError ''Device'')) (\<lambda>_.
     andThen (put_device d) (\<lambda>_.
     andThen (writes (d_names_update (AList.update (py_casefold (ra_name a)) i))) (\<lambda>_.
     ret d))))))))))"

definition device_heartbeat :: "text_t \<Rightarrow> text_t \<Rightarrow> dt option \<Rightarrow> Device device_op" where
  "device_heartbeat device_id agent_id now =
     andThen (d_current now) (\<lambda>current.
     andThen (require_device device_id) (\<lambda>d.
     andThen (ensure (dv_agent_id d = agent_id)
       (AutomationLeaseError ''device agent identity does not match'')) (\<lambda>_.
     let d = d\<lparr>dv_last_heartbeat_at := Some current\<rparr>;
         d = (if dv_status d \<noteq> Maintenance \<and> dv_active_lease_id d = None
              then d\<lparr>dv_status := (if dv_enabled d then Idle else Offline)\<rparr> else d);
         d = touch current d in
     andThen (put_device d) (\<lambda>_.
     effective_copy d current))))"

definition device_get :: "text_t \<Rightarrow> dt option \<Rightarrow> Device device_op" where
  "device_get device_id now =
     andThen (d_current now) (\<lambda>current.
     andThen (expire_locked current) (\<lambda>_.
     andThen (require_device device_id) (\<lambda>d.
     effective_copy d current)))"

definition list_devices :: "dt option \<Rightarrow> Device list device_op" where
  "list_devices now =
     andThen (d_current now) (\<lambda>current.
     andThen (expire_locked current) (\<lambda>_.
     reads (\<lambda>s. map (\<lambda>d. d\<lparr>dv_status := effective_status (d_offline_after s) d current\<rparr>)
       (sort_key (\<lambda>d. py_casefold (dv_name d)) (map snd (d_devices s))))))"

definition candidate :: "int \<Rightarrow> text_t list \<Rightarrow> instant \<Rightarrow> Device \<Rightarrow> bool" where
  "candidate offline_after required now d \<longleftrightarrow>
     dv_enabled d \<and> effective_status offline_after d now = Idle \<and> set required \<subseteq> set (dv_capabilities d)"

definition device_order :: "Device \<Rightarrow> text_t \<times> text_t" where
  "device_order d = (py_casefold (dv_name d), dv_id d)"

text \<open>The part of \<open>acquire\<close> after the expiry of leases.\<close>

definition reserve ::
  "(text_t \<Rightarrow> text_t) \<Rightarrow> text_t \<Rightarrow> text_t \<Rightarrow> text_t list \<Rightarrow> int \<Rightarrow> instant \<Rightarrow> ClaimedDeviceLease option device_op" where
  "reserve digest task_id owner required lease_seconds current =
     andThen (reads (\<lambda>s. first_min device_order
       (filter (candidate (d_offline_after s) required current) (map snd (d_devices s))))) (\<lambda>best.
     case best of
       None \<Rightarrow> ret None
     | Some d \<Rightarrow>
         andThen d_token (\<lambda>token.
         andThen d_new_id (\<lambda>i.
         let l = \<lparr>dl_id = i, dl_device_id = dv_id d, dl_task_id = task_id, dl_owner = owner,
               dl_token_hash = digest token, dl_status = LeaseActive, dl_acquired_at = current,
               dl_expires_at = current + seconds lease_seconds, dl_released_at = None, dl_version = 0\<rparr>;
             d = touch current (d\<lparr>dv_active_lease_id := Some i, dv_status := Reserved\<rparr>) in
         andThen (put_lease l) (\<lambda>_.
         andThen (put_device d) (\<lambda>_.
         ret (Some \<lparr>cl_device = d, cl_lease = l, cl_lease_token = token\<rparr>))))))"

definition acquire ::
  "(text_t \<Rightarrow> text_t) \<Rightarrow> text_t \<Rightarrow> text_t \<Rightarrow> text_t list \<Rightarrow> int \<Rightarrow> dt option \<Rightarrow> ClaimedDeviceLease option device_op" where
  "acquire digest task_id owner required lease_seconds now =
     andThen (ensure (task_id \<noteq> [] \<and> owner \<noteq> [] \<and> 1 \<le> lease_seconds)
       (AutomationValidationError ''device lease request is invalid'')) (\<lambda>_.
     andThen (d_current now) (\<lambda>current.
     andThen (expire_locked current) (\<lambda>_.
     reserve digest task_id owner required lease_seconds current)))"

definition usable_lease :: "(text_t \<Rightarrow> text_t) \<Rightarrow> text_t \<Rightarrow> text_t \<Rightarrow> instant \<Rightarrow> DeviceLease \<Rightarrow> bool" where
  "usable_lease digest owner lease_token now l \<longleftrightarrow>
     dl_status l = LeaseActive \<and> dl_owner l = owner \<and> now < dl_expires_at l \<and> dl_token_hash l = digest lease_token"

definition require_lease ::
  "(text_t \<Rightarrow> text_t) \<Rightarrow> text_t \<Rightarrow> text_t \<Rightarrow> text_t \<Rightarrow> instant \<Rightarrow> (DeviceLease \<times> Device) device_op" where
  "require_lease digest lease_id owner lease_token now =
     andThen (reads (\<lambda>s. map_of (d_leases s) lease_id)) (\<lambda>found.
     andThen (from_option (AutomationNotFoundError ''device lease was not found'') found) (\<lambda>l.
     andThen (ensure (usable_lease digest owner lease_token now l)
       (AutomationLeaseError ''device lease is invalid or expired'')) (\<lambda>_.
     andThen (require_device (dl_device_id l)) (\<lambda>d.
     andThen (ensure (dv_active_lease_id d = Some (dl_id l))
       (AutomationLeaseError ''device lease is no longer active'')) (\<lambda>_.
     ret (l, d))))))"

definition start_work ::
  "(text_t \<Rightarrow> text_t) \<Rightarrow> text_t \<Rightarrow> text_t \<Rightarrow> text_t \<Rightarrow> dt option \<Rightarrow> ClaimedDeviceLease device_op" where
  "start_work digest lease_id owner lease_token now =
     andThen (d_current now) (\<lambda>current.
     andThen (require_lease digest lease_id owner lease_token current) (\<lambda>(l, d).
     let d = touch current (d\<lparr>dv_status := Busy\<rparr>) in
     andThen (put_device d) (\<lambda>_.
     ret \<lparr>cl_device = d, cl_lease = l, cl_lease_token = lease_token\<rparr>)))"

definition renew ::
  "(text_t \<Rightarrow> text_t) \<Rightarrow> text_t \<Rightarrow> text_t \<Rightarrow> text_t \<Rightarrow> int \<Rightarrow> dt option \<Rightarrow> DeviceLease device_op" where
  "renew digest lease_id owner lease_token lease_seconds now =
     andThen (ensure (1 \<le> lease_seconds)
       (AutomationValidationError ''device lease duration must be positive'')) (\<lambda>_.
     andThen (d_current now) (\<lambda>current.
     andThen (require_lease digest lease_id owner lease_token current) (\<lambda>(l, d).
     let l = l\<lparr>dl_expires_at := current + seconds lease_seconds, dl_version := dl_version l + 1\<rparr> in
     andThen (put_lease l) (\<lambda>_.
     ret l))))"

definition release ::
  "(text_t \<Rightarrow> text_t) \<Rightarrow> text_t \<Rightarrow> text_t \<Rightarrow> text_t \<Rightarrow> dt option \<Rightarrow> DeviceLease device_op" where
  "release digest lease_id owner lease_token now =
     andThen (d_current now) (\<lambda>current.
     andThen (require_lease digest lease_id owner lease_token current) (\<lambda>(l, d).
     andThen (reads d_offline_after) (\<lambda>offline_after.
     let l = l\<lparr>dl_status := LeaseReleased, dl_released_at := Some current, dl_version := dl_version l + 1\<rparr>;
         d = d\<lparr>dv_active_lease_id := None\<rparr>;
         d = touch current (d\<lparr>dv_status := available_status offline_after d current\<rparr>) in
     andThen (put_lease l) (\<lambda>_.
     andThen (put_device d) (\<lambda>_.
     ret l)))))"

definition set_maintenance :: "text_t \<Rightarrow> bool \<Rightarrow> dt option \<Rightarrow> Device device_op" where
  "set_maintenance device_id enabled now =
     andThen (d_current now) (\<lambda>current.
     andThen (require_device device_id) (\<lambda>d.
     andThen (ensure (\<not> (enabled \<and> dv_active_lease_id d \<noteq> None))
       (AutomationConflictError ''an actively leased device cannot enter maintenance'')) (\<lambda>_.
     andThen (reads d_offline_after) (\<lambda>offline_after.
     let d = touch current
           (d\<lparr>dv_status := (if enabled then Maintenance else available_status offline_after d current)\<rparr>) in
     andThen (put_device d) (\<lambda>_.
     effective_copy d current)))))"

definition expire_leases :: "dt option \<Rightarrow> DeviceLease list device_op" where
  "expire_leases now = andThen (d_current now) expire_locked"

end
