(* ===== verification/Device_Leases.thy ===== *)
theory Device_Leases
  imports Devices
begin

text \<open>
  The invariant of the device manager: an active lease and its device name each other, so a
  device has at most one active lease. It is kept by every operation except one: taking a
  device with a lease out of maintenance (\<open>set_maintenance\<close> with \<open>enabled=False\<close>), which
  makes the device look idle. \<open>lawful s t\<close> says that a step from \<open>s\<close> to \<open>t\<close> keeps it.
\<close>

section \<open>Rules for the calls\<close>

abbreviation d_tick :: "devices \<Rightarrow> devices" where
  "d_tick s \<equiv> s\<lparr>d_env := (d_env s)\<lparr>now_count := Suc (now_count (d_env s))\<rparr>\<rparr>"

abbreviation d_next_id :: "devices \<Rightarrow> devices" where
  "d_next_id s \<equiv> s\<lparr>d_env := (d_env s)\<lparr>id_count := Suc (id_count (d_env s))\<rparr>\<rparr>"

abbreviation d_next_token :: "devices \<Rightarrow> devices" where
  "d_next_token s \<equiv> s\<lparr>d_env := (d_env s)\<lparr>token_count := Suc (token_count (d_env s))\<rparr>\<rparr>"

lemma wp_d_nowI [wp_intros]: "Q (now_at (d_env s) (now_count (d_env s))) (d_tick s) \<Longrightarrow> wp d_now Q E s"
  by (simp add: wp_def d_now_def)

lemma wp_d_new_idI [wp_intros]:
  "Q (str_of_uuid (id_at (d_env s) (id_count (d_env s)))) (d_next_id s) \<Longrightarrow> wp d_new_id Q E s"
  by (simp add: wp_def d_new_id_def)

lemma wp_d_tokenI [wp_intros]: "Q (token_at (d_env s) (token_count (d_env s))) (d_next_token s) \<Longrightarrow> wp d_token Q E s"
  by (simp add: wp_def d_token_def)

lemma wp_put_deviceI [wp_intros]:
  "Q () (s\<lparr>d_devices := AList.update (dv_id d) d (d_devices s)\<rparr>) \<Longrightarrow> wp (put_device d) Q E s"
  by (cases s) (simp add: put_device_def wp_writes)

lemma wp_put_leaseI [wp_intros]:
  "Q () (s\<lparr>d_leases := AList.update (dl_id l) l (d_leases s)\<rparr>) \<Longrightarrow> wp (put_lease l) Q E s"
  by (cases s) (simp add: put_lease_def wp_writes)

lemma wp_require_deviceI [wp_intros]:
  "(\<And>e. map_of (d_devices s) k = None \<Longrightarrow> E e s) \<Longrightarrow> (\<And>d. map_of (d_devices s) k = Some d \<Longrightarrow> Q d s) \<Longrightarrow>
   wp (require_device k) Q E s"
  unfolding require_device_def by (intro wp_intros) simp_all

lemma wp_effective_copyI [wp_intros]:
  "Q (d\<lparr>dv_status := effective_status (d_offline_after s) d now\<rparr>) s \<Longrightarrow> wp (effective_copy d now) Q E s"
  unfolding effective_copy_def by (intro wp_intros)

lemma wp_require_lease:
  assumes "\<And>e. E e s"
    and "\<And>l d. map_of (d_leases s) k = Some l \<Longrightarrow> usable_lease digest w token now l \<Longrightarrow>
      map_of (d_devices s) (dl_device_id l) = Some d \<Longrightarrow> dv_active_lease_id d = Some (dl_id l) \<Longrightarrow> Q (l, d) s"
  shows "wp (require_lease digest k w token now) Q E s"
  unfolding require_lease_def by (intro wp_intros assms)

section \<open>The invariant\<close>

definition device_ok :: "Device \<Rightarrow> bool" where
  "device_ok d \<longleftrightarrow> (dv_status d = Reserved \<or> dv_status d = Busy) = (dv_active_lease_id d \<noteq> None)"

text \<open>Devices, leases and names as maps, over the identifiers drawn so far.\<close>

definition linked ::
  "(text_t \<Rightarrow> Device option) \<Rightarrow> (text_t \<Rightarrow> DeviceLease option) \<Rightarrow> (text_t \<Rightarrow> text_t option) \<Rightarrow> text_t set \<Rightarrow> bool" where
  "linked D L N I \<longleftrightarrow>
     (\<forall>k d. D k = Some d \<longrightarrow> dv_id d = k \<and> k \<in> I \<and> device_ok d \<and> N (py_casefold (dv_name d)) = Some k) \<and>
     (\<forall>i k d e. D i = Some d \<longrightarrow> D k = Some e \<longrightarrow> dv_agent_id d = dv_agent_id e \<longrightarrow> i = k) \<and>
     (\<forall>i l. L i = Some l \<longrightarrow> dl_id l = i \<and> i \<in> I \<and>
        (\<exists>d. D (dl_device_id l) = Some d \<and> (dl_status l = LeaseActive) = (dv_active_lease_id d = Some i))) \<and>
     (\<forall>k d i. D k = Some d \<longrightarrow> dv_active_lease_id d = Some i \<longrightarrow> (\<exists>l. L i = Some l \<and> dl_device_id l = k))"

lemma linkedD:
  assumes "linked D L N I"
  shows "\<And>k d. D k = Some d \<Longrightarrow> dv_id d = k \<and> k \<in> I \<and> device_ok d \<and> N (py_casefold (dv_name d)) = Some k"
    and "\<And>i k d e. D i = Some d \<Longrightarrow> D k = Some e \<Longrightarrow> dv_agent_id d = dv_agent_id e \<Longrightarrow> i = k"
    and "\<And>i l. L i = Some l \<Longrightarrow> dl_id l = i \<and> i \<in> I \<and>
        (\<exists>d. D (dl_device_id l) = Some d \<and> (dl_status l = LeaseActive) = (dv_active_lease_id d = Some i))"
    and "\<And>k d i. D k = Some d \<Longrightarrow> dv_active_lease_id d = Some i \<Longrightarrow> \<exists>l. L i = Some l \<and> dl_device_id l = k"
  using assms unfolding linked_def by blast+

lemma linkedI:
  assumes "\<And>k d. D k = Some d \<Longrightarrow> dv_id d = k \<and> k \<in> I \<and> device_ok d \<and> N (py_casefold (dv_name d)) = Some k"
    and "\<And>i k d e. D i = Some d \<Longrightarrow> D k = Some e \<Longrightarrow> dv_agent_id d = dv_agent_id e \<Longrightarrow> i = k"
    and "\<And>i l. L i = Some l \<Longrightarrow> dl_id l = i \<and> i \<in> I \<and>
        (\<exists>d. D (dl_device_id l) = Some d \<and> (dl_status l = LeaseActive) = (dv_active_lease_id d = Some i))"
    and "\<And>k d i. D k = Some d \<Longrightarrow> dv_active_lease_id d = Some i \<Longrightarrow> \<exists>l. L i = Some l \<and> dl_device_id l = k"
  shows "linked D L N I"
  using assms unfolding linked_def by blast

lemma linked_mono: "linked D L N I \<Longrightarrow> I \<subseteq> J \<Longrightarrow> linked D L N J"
  unfolding linked_def by blast

definition same_device :: "Device \<Rightarrow> Device \<Rightarrow> bool" where
  "same_device d e \<longleftrightarrow> dv_id e = dv_id d \<and> dv_name e = dv_name d \<and> dv_agent_id e = dv_agent_id d"

text \<open>
  The common part of the changes: a device changes, and its leases and it keep naming each other.
\<close>

lemma linked_device:
  assumes inv: "linked D L N I" and d: "D k = Some d" and e: "same_device d e" "device_ok e"
    and leases: "\<And>i l. L' i = Some l \<Longrightarrow> dl_id l = i \<and> i \<in> I \<and>
        (if dl_device_id l = k then (dl_status l = LeaseActive) = (dv_active_lease_id e = Some i) else L i = Some l)"
    and others: "\<And>i l. L i = Some l \<Longrightarrow> dl_device_id l \<noteq> k \<Longrightarrow> L' i = Some l"
    and own: "\<And>i. dv_active_lease_id e = Some i \<Longrightarrow> \<exists>l. L' i = Some l \<and> dl_device_id l = k"
  shows "linked (D(k \<mapsto> e)) L' N I"
proof (rule linkedI)
  fix j x assume x: "(D(k \<mapsto> e)) j = Some x"
  show "dv_id x = j \<and> j \<in> I \<and> device_ok x \<and> N (py_casefold (dv_name x)) = Some j"
    using linkedD(1) [OF inv d] linkedD(1) [OF inv, of j x] x e
    by (cases "j = k") (simp_all add: same_device_def)
next
  fix i j x y assume xy: "(D(k \<mapsto> e)) i = Some x" "(D(k \<mapsto> e)) j = Some y" "dv_agent_id x = dv_agent_id y"
  have "\<exists>d. D i = Some d \<and> dv_agent_id d = dv_agent_id x"
    using xy(1) d e by (cases "i = k") (auto simp: same_device_def)
  moreover have "\<exists>d. D j = Some d \<and> dv_agent_id d = dv_agent_id y"
    using xy(2) d e by (cases "j = k") (auto simp: same_device_def)
  ultimately show "i = j" using linkedD(2) [OF inv] xy(3) by metis
next
  fix i l assume l: "L' i = Some l"
  show "dl_id l = i \<and> i \<in> I \<and> (\<exists>d. (D(k \<mapsto> e)) (dl_device_id l) = Some d \<and>
      (dl_status l = LeaseActive) = (dv_active_lease_id d = Some i))"
    using leases [OF l] linkedD(3) [OF inv, of i l] by (cases "dl_device_id l = k") simp_all
next
  fix j x i assume x: "(D(k \<mapsto> e)) j = Some x" "dv_active_lease_id x = Some i"
  show "\<exists>l. L' i = Some l \<and> dl_device_id l = j"
  proof (cases "j = k")
    case True
    then show ?thesis using x own by simp
  next
    case False
    then show ?thesis using x linkedD(4) [OF inv, of j x i] others by auto
  qed
qed

text \<open>A device changes and keeps its lease; a lease changes and keeps its status.\<close>

lemma linked_put_device:
  assumes inv: "linked D L N I" and d: "D k = Some d"
    and e: "same_device d e" "device_ok e" "dv_active_lease_id e = dv_active_lease_id d"
  shows "linked (D(k \<mapsto> e)) L N I"
proof (rule linked_device [OF inv d e(1,2)])
  fix i l assume l: "L i = Some l"
  show "dl_id l = i \<and> i \<in> I \<and>
        (if dl_device_id l = k then (dl_status l = LeaseActive) = (dv_active_lease_id e = Some i) else L i = Some l)"
    using linkedD(3) [OF inv l] d e l by auto
qed (use e(3) linkedD(4) [OF inv d] in auto)

lemma linked_put_lease:
  assumes inv: "linked D L N I" and l: "L i = Some l"
    and m: "dl_id m = dl_id l" "dl_device_id m = dl_device_id l" "dl_status m = dl_status l"
  shows "linked D (L(i \<mapsto> m)) N I"
proof (rule linkedI)
  fix j x assume x: "(L(i \<mapsto> m)) j = Some x"
  show "dl_id x = j \<and> j \<in> I \<and> (\<exists>d. D (dl_device_id x) = Some d \<and>
      (dl_status x = LeaseActive) = (dv_active_lease_id d = Some j))"
  proof (cases "j = i")
    case True
    then have "x = m" using x by simp
    with linkedD(3) [OF inv l] show ?thesis unfolding True by (simp only: m simp_thms)
  next
    case False
    then show ?thesis using linkedD(3) [OF inv, of j x] x by simp
  qed
next
  fix k d j assume "D k = Some d" "dv_active_lease_id d = Some j"
  then show "\<exists>x. (L(i \<mapsto> m)) j = Some x \<and> dl_device_id x = k"
    using linkedD(4) [OF inv, of k d j] l m by (cases "j = i") auto
qed (use linkedD(1,2) [OF inv] in blast)+

text \<open>A lease ends and its device is free again.\<close>

lemma linked_end:
  assumes inv: "linked D L N I" and l: "L i = Some l" "D (dl_device_id l) = Some d" "dv_active_lease_id d = Some i"
    and m: "dl_id m = dl_id l" "dl_device_id m = dl_device_id l" "dl_status m \<noteq> LeaseActive"
    and e: "same_device d e" "device_ok e" "dv_active_lease_id e = None"
  shows "linked (D(dl_device_id l \<mapsto> e)) (L(i \<mapsto> m)) N I"
proof (rule linked_device [OF inv l(2) e(1,2)])
  fix j x assume x: "(L(i \<mapsto> m)) j = Some x"
  show "dl_id x = j \<and> j \<in> I \<and>
        (if dl_device_id x = dl_device_id l then (dl_status x = LeaseActive) = (dv_active_lease_id e = Some j)
         else L j = Some x)"
  proof (cases "j = i")
    case True
    then have "x = m" using x by simp
    then show ?thesis using linkedD(3) [OF inv l(1)] m e(3) True by simp
  next
    case False
    then have Lx: "L j = Some x" using x by simp
    from linkedD(3) [OF inv this] obtain d' where x': "dl_id x = j" "j \<in> I" "D (dl_device_id x) = Some d'"
      "(dl_status x = LeaseActive) = (dv_active_lease_id d' = Some j)" by blast
    have "dl_status x \<noteq> LeaseActive" if "dl_device_id x = dl_device_id l"
      using that x'(3,4) l(2,3) False by simp
    then show ?thesis using Lx x'(1,2) e(3) by simp
  qed
qed (use l m e in auto)

text \<open>A lease ends that its device does not name: impossible for an active one.\<close>

lemma active_named: "linked D L N I \<Longrightarrow> L i = Some l \<Longrightarrow> dl_status l = LeaseActive \<Longrightarrow> D (dl_device_id l) = Some d \<Longrightarrow>
    dv_active_lease_id d = Some i"
  using linkedD(3) by fastforce

lemma linked_reserve:
  assumes inv: "linked D L N I" and new: "i \<notin> I" "i \<in> J" "I \<subseteq> J"
    and d: "D k = Some d" "dv_active_lease_id d = None"
    and l: "dl_id l = i" "dl_device_id l = k" "dl_status l = LeaseActive"
    and e: "same_device d e" "device_ok e" "dv_active_lease_id e = Some i"
  shows "linked (D(k \<mapsto> e)) (L(i \<mapsto> l)) N J"
proof (rule linked_device [OF linked_mono [OF inv new(3)] d(1) e(1,2)])
  have fresh: "L i = None" using linkedD(3) [OF inv, of i] new(1) by (cases "L i") auto
  show "(L(i \<mapsto> l)) j = Some x" if "L j = Some x" "dl_device_id x \<noteq> k" for j x
    using that fresh by auto
  fix j x assume x: "(L(i \<mapsto> l)) j = Some x"
  show "dl_id x = j \<and> j \<in> J \<and>
        (if dl_device_id x = k then (dl_status x = LeaseActive) = (dv_active_lease_id e = Some j) else L j = Some x)"
  proof (cases "j = i")
    case True
    then show ?thesis using x new(2) l e(3) by simp
  next
    case False
    then have Lx: "L j = Some x" using x by simp
    from linkedD(3) [OF inv this] obtain d' where "dl_id x = j" "j \<in> I" "D (dl_device_id x) = Some d'"
      "(dl_status x = LeaseActive) = (dv_active_lease_id d' = Some j)" by blast
    moreover have "dl_status x \<noteq> LeaseActive" if "dl_device_id x = k"
      using that calculation(3,4) d by simp
    ultimately show ?thesis using Lx False new(3) e(3) by (simp add: subsetD)
  qed
qed (use l e in auto)

lemma linked_register:
  assumes inv: "linked D L N I" and new: "i \<notin> I" "i \<in> J" "I \<subseteq> J"
    and d: "dv_id d = i" "dv_active_lease_id d = None" "device_ok d" "N (py_casefold (dv_name d)) = None"
      "\<And>k e. D k = Some e \<Longrightarrow> dv_agent_id e \<noteq> dv_agent_id d"
  shows "linked (D(i \<mapsto> d)) L (N(py_casefold (dv_name d) \<mapsto> i)) J"
proof (rule linkedI)
  have fresh: "D i = None" using linkedD(1) [OF inv, of i] new(1) by (cases "D i") auto
  show "dl_id l = j \<and> j \<in> J \<and> (\<exists>x. (D(i \<mapsto> d)) (dl_device_id l) = Some x \<and>
      (dl_status l = LeaseActive) = (dv_active_lease_id x = Some j))" if "L j = Some l" for j l
    using linkedD(3) [OF inv that] fresh new(3) by auto
  fix k x assume x: "(D(i \<mapsto> d)) k = Some x"
  show "dv_id x = k \<and> k \<in> J \<and> device_ok x \<and> (N(py_casefold (dv_name d) \<mapsto> i)) (py_casefold (dv_name x)) = Some k"
    using x linkedD(1) [OF inv, of k x] new d by (cases "k = i") auto
  show "\<exists>l. L j = Some l \<and> dl_device_id l = k" if "dv_active_lease_id x = Some j" for j
    using x that linkedD(4) [OF inv, of k x j] d(2) by (cases "k = i") auto
next
  fix j k x y assume xy: "(D(i \<mapsto> d)) j = Some x" "(D(i \<mapsto> d)) k = Some y" "dv_agent_id x = dv_agent_id y"
  have one: "j' = i" if "(D(i \<mapsto> d)) j' = Some x'" "dv_agent_id x' = dv_agent_id d" for j' x'
    using that d(5) [of j' x'] by (auto split: if_splits)
  show "j = k"
  proof (cases "j = i")
    case True
    then have "x = d" using xy(1) by simp
    then have "k = i" using xy(3) by (intro one [OF xy(2)]) simp
    then show ?thesis using True by simp
  next
    case False
    then have "dv_agent_id x \<noteq> dv_agent_id d" using one [OF xy(1)] by blast
    then have "k \<noteq> i" using xy(2,3) by auto
    then show ?thesis using xy False by (intro linkedD(2) [OF inv, of j x k y]) simp_all
  qed
qed

section \<open>The operations keep the invariant\<close>

definition device_inv :: "devices \<Rightarrow> bool" where
  "device_inv s \<longleftrightarrow> distinct (map fst (d_devices s)) \<and> distinct (map fst (d_leases s)) \<and>
     linked (map_of (d_devices s)) (map_of (d_leases s)) (map_of (d_names s)) (drawn_ids (d_env s))"

definition lawful :: "devices \<Rightarrow> devices \<Rightarrow> bool" where
  "lawful s t \<longleftrightarrow> env_le (d_env s) (d_env t) \<and> d_offline_after t = d_offline_after s \<and>
     (device_inv s \<longrightarrow> env_ok (d_env t) \<longrightarrow> device_inv t)"

lemma lawful_trans: "lawful s t \<Longrightarrow> lawful t u \<Longrightarrow> lawful s u"
  unfolding lawful_def by (auto intro: env_le_trans dest: env_ok_mono)

lemma lawful_idle:
  assumes "env_le (d_env s) (d_env t)" "d_offline_after t = d_offline_after s"
    and "d_devices t = d_devices s" "d_leases t = d_leases s" "d_names t = d_names s"
  shows "lawful s t"
  using assms linked_mono [OF _ drawn_mono [OF assms(1)]] by (simp add: lawful_def device_inv_def)

lemma lawful_refl [simp]: "lawful s s"
  by (simp add: lawful_idle)

lemmas store_simps = distinct_update update_conv'

lemma lawful_put_device:
  assumes "map_of (d_devices s) k = Some d" "dv_id d = k \<Longrightarrow> device_ok d \<Longrightarrow> device_ok e"
    and "same_device d e" "dv_active_lease_id e = dv_active_lease_id d"
  shows "lawful s (s\<lparr>d_devices := AList.update (dv_id d) e (d_devices s)\<rparr>)"
proof -
  have "device_inv (s\<lparr>d_devices := AList.update (dv_id d) e (d_devices s)\<rparr>)" if "device_inv s"
  proof -
    from that have inv: "linked (map_of (d_devices s)) (map_of (d_leases s)) (map_of (d_names s)) (drawn_ids (d_env s))"
      and keys: "distinct (map fst (d_devices s))" "distinct (map fst (d_leases s))"
      by (simp_all add: device_inv_def)
    have d: "dv_id d = k" "device_ok d" using linkedD(1) [OF inv assms(1)] by simp_all
    from linked_put_device [OF inv assms(1,3) assms(2) [OF this] assms(4)] keys show ?thesis
      by (simp add: device_inv_def store_simps d(1))
  qed
  then show ?thesis by (simp add: lawful_def)
qed

lemma lawful_put_lease:
  assumes "map_of (d_leases s) i = Some l" "dl_id m = dl_id l" "dl_device_id m = dl_device_id l" "dl_status m = dl_status l"
  shows "lawful s (s\<lparr>d_leases := AList.update (dl_id l) m (d_leases s)\<rparr>)"
proof -
  have "device_inv (s\<lparr>d_leases := AList.update (dl_id l) m (d_leases s)\<rparr>)" if "device_inv s"
  proof -
    from that have inv: "linked (map_of (d_devices s)) (map_of (d_leases s)) (map_of (d_names s)) (drawn_ids (d_env s))"
      and keys: "distinct (map fst (d_devices s))" "distinct (map fst (d_leases s))"
      by (simp_all add: device_inv_def)
    have l: "dl_id l = i" using linkedD(3) [OF inv assms(1)] by simp
    from linked_put_lease [OF inv assms] keys show ?thesis
      by (simp add: device_inv_def store_simps l)
  qed
  then show ?thesis by (simp add: lawful_def)
qed

text \<open>The status functions give a free device a free status.\<close>

lemma available_ok:
  "dv_active_lease_id d = None \<Longrightarrow> device_ok (d\<lparr>dv_status := available_status n e now\<rparr>)"
  by (simp add: device_ok_def available_status_def split: option.split)

lemma touch_sel [simp]:
  "dv_id (touch now d) = dv_id d" "dv_name (touch now d) = dv_name d" "dv_agent_id (touch now d) = dv_agent_id d"
  "dv_active_lease_id (touch now d) = dv_active_lease_id d" "dv_status (touch now d) = dv_status d"
  "device_ok (touch now d) = device_ok d" "same_device e (touch now d) = same_device e d"
  by (simp_all add: touch_def device_ok_def same_device_def)

lemma same_device_upd [simp]:
  "same_device d (d\<lparr>dv_status := x\<rparr>)" "same_device d (d\<lparr>dv_active_lease_id := i, dv_status := x\<rparr>)"
  "same_device d (d\<lparr>dv_last_heartbeat_at := b\<rparr>)" "same_device d (d\<lparr>dv_last_heartbeat_at := b, dv_status := x\<rparr>)"
  by (simp_all add: same_device_def)

text \<open>The end of a lease: both dict entries change.\<close>

lemma lawful_end:
  assumes "map_of (d_leases s) i = Some l" "map_of (d_devices s) (dl_device_id l) = Some d"
    and "dv_active_lease_id d = Some (dl_id l)"
    and "dl_id m = dl_id l" "dl_device_id m = dl_device_id l" "dl_status m \<noteq> LeaseActive"
    and "same_device d e" "device_ok e" "dv_active_lease_id e = None"
  shows "lawful s (s\<lparr>d_leases := AList.update (dl_id l) m (d_leases s), d_devices := AList.update (dv_id d) e (d_devices s)\<rparr>)"
proof -
  have "device_inv (s\<lparr>d_leases := AList.update (dl_id l) m (d_leases s), d_devices := AList.update (dv_id d) e (d_devices s)\<rparr>)"
    if "device_inv s"
  proof -
    from that have inv: "linked (map_of (d_devices s)) (map_of (d_leases s)) (map_of (d_names s)) (drawn_ids (d_env s))"
      and keys: "distinct (map fst (d_devices s))" "distinct (map fst (d_leases s))"
      by (simp_all add: device_inv_def)
    have l: "dl_id l = i" using linkedD(3) [OF inv assms(1)] by simp
    have d: "dv_id d = dl_device_id l" using linkedD(1) [OF inv assms(2)] by simp
    from linked_end [OF inv assms(1,2) assms(3) [unfolded l] assms(4-9)] keys show ?thesis
      by (simp add: device_inv_def store_simps l d)
  qed
  then show ?thesis by (simp add: lawful_def)
qed

text \<open>An expired lease that its device does not name would break the invariant.\<close>

lemma lawful_unless:
  assumes "\<not> device_inv s" "env_le (d_env s) (d_env t)" "d_offline_after t = d_offline_after s"
  shows "lawful s t"
  using assms by (simp add: lawful_def)

lemma expire_lease_lawful: "wp (expire_lease now i) (\<lambda>_. lawful s) (\<lambda>_. lawful s) s"
  unfolding expire_lease_def
  apply (intro wp_intros; simp?)
  subgoal for l
    by (rule lawful_unless) (auto simp: device_inv_def dest: linkedD(3))
  subgoal by (rule lawful_end, assumption+) (simp_all add: available_ok)
  subgoal for l x d
    by (rule lawful_unless) (auto simp: device_inv_def dest: active_named linkedD(3))
  done

lemma lawful_loop:
  assumes "\<And>x t. wp (f x) (\<lambda>_. lawful t) (\<lambda>_. lawful t) t"
  shows "wp (map_each f xs) (\<lambda>_. lawful s) (\<lambda>_. lawful s) s"
proof -
  have "wp (f x) (\<lambda>_ u. True \<and> lawful s u) (\<lambda>_. lawful s) t" if "lawful s t" for x t
    using assms [of x t] by (rule wp_mono) (simp_all add: lawful_trans [OF that])
  then show ?thesis
    by (intro wp_map_each [where I = "lawful s" and R = "\<lambda>_ _. True"]) simp_all
qed

lemma expire_locked_lawful: "wp (expire_locked now) (\<lambda>_. lawful s) (\<lambda>_. lawful s) s"
  unfolding expire_locked_def
  by (intro wp_intros wp_mono [OF lawful_loop [OF expire_lease_lawful]]) (simp_all add: wp_ret)

lemma lawful_then:
  assumes "wp m (\<lambda>_. lawful s) (\<lambda>_. lawful s) s" "\<And>x t. wp (k x) (\<lambda>_. lawful t) (\<lambda>_. lawful t) t"
  shows "wp (andThen m k) (\<lambda>_. lawful s) (\<lambda>_. lawful s) s"
proof -
  have "wp (k x) (\<lambda>_. lawful s) (\<lambda>_. lawful s) t" if "lawful s t" for x t
    using assms(2) [of x t] by (rule wp_mono) (simp_all add: lawful_trans [OF that])
  then show ?thesis unfolding wp_andThen using assms(1) by (auto elim!: wp_mono)
qed

lemma lawful_ensure:
  assumes "b \<Longrightarrow> wp (k ()) (\<lambda>_. lawful s) (\<lambda>_. lawful s) s"
  shows "wp (andThen (ensure b e) k) (\<lambda>_. lawful s) (\<lambda>_. lawful s) s"
  using assms by (intro wp_intros) simp_all

lemma lawful_current:
  assumes "\<And>x t. d_devices s = d_devices t \<Longrightarrow> wp (k x) (\<lambda>_. lawful t) (\<lambda>_. lawful t) t"
  shows "wp (andThen (d_current now) k) (\<lambda>_. lawful s) (\<lambda>_. lawful s) s"
proof -
  have "wp (k x) (\<lambda>_. lawful s) (\<lambda>_. lawful s) t" if "lawful s t" "d_devices s = d_devices t" for x t
    using assms [OF that(2), of x] by (rule wp_mono) (simp_all add: lawful_trans [OF that(1)])
  then show ?thesis
    unfolding d_current_def wp_andThen by (intro wp_intros) (auto simp: lawful_idle)
qed

lemma device_heartbeat_lawful: "wp (device_heartbeat k agent now) (\<lambda>_. lawful s) (\<lambda>_. lawful s) s"
  unfolding device_heartbeat_def
  apply (intro lawful_current)
  apply (intro wp_intros; simp?)
  apply (intro conjI impI; rule lawful_put_device, assumption; auto simp: device_ok_def)
  done

lemma start_work_lawful: "wp (start_work digest i w token now) (\<lambda>_. lawful s) (\<lambda>_. lawful s) s"
  unfolding start_work_def
  apply (intro lawful_current)
  apply (intro wp_require_lease wp_intros; simp?)
  apply (rule lawful_put_device, assumption; simp add: device_ok_def)
  done

lemma renew_lawful: "wp (renew digest i w token n now) (\<lambda>_. lawful s) (\<lambda>_. lawful s) s"
  unfolding renew_def
  apply (intro lawful_ensure lawful_current)
  apply (intro wp_require_lease wp_intros; simp?)
  apply (rule lawful_put_lease, assumption; simp)
  done

lemma release_lawful: "wp (release digest i w token now) (\<lambda>_. lawful s) (\<lambda>_. lawful s) s"
  unfolding release_def
  apply (intro lawful_current)
  apply (intro wp_require_lease wp_intros; simp?)
  apply (rule lawful_end, assumption+; simp add: available_ok)
  done

lemma set_maintenance_lawful:
  assumes "enabled \<or> (case map_of (d_devices s) k of None \<Rightarrow> True | Some d \<Rightarrow> dv_active_lease_id d = None)"
  shows "wp (set_maintenance k enabled now) (\<lambda>_. lawful s) (\<lambda>_. lawful s) s"
  unfolding set_maintenance_def
  apply (intro lawful_current)
  apply (intro wp_intros; simp?)
  using assms
  apply (auto intro!: lawful_put_device simp: device_ok_def available_status_def split: option.splits if_splits)
  done

lemma d_fresh:
  assumes "env_ok (d_env t)" "env_le (d_env s) (d_env t)" "id_count (d_env t) = Suc (id_count (d_env s))"
  shows "str_of_uuid (id_at (d_env s) (id_count (d_env s))) \<notin> drawn_ids (d_env s)"
    and "str_of_uuid (id_at (d_env s) (id_count (d_env s))) \<in> drawn_ids (d_env t)"
proof -
  have "env_le ((d_env s)\<lparr>id_count := Suc (id_count (d_env s))\<rparr>) (d_env t)"
    using assms(2,3) by (simp add: env_le_def)
  from fresh_id [OF env_ok_mono [OF assms(1) this]]
  show "str_of_uuid (id_at (d_env s) (id_count (d_env s))) \<notin> drawn_ids (d_env s)" .
  show "str_of_uuid (id_at (d_env s) (id_count (d_env s))) \<in> drawn_ids (d_env t)"
    using assms(2,3) by (auto simp: drawn_ids_def env_le_def)
qed

lemma idle_free: "device_ok d \<Longrightarrow> effective_status n d now = Idle \<Longrightarrow> dv_active_lease_id d = None"
  by (auto simp: device_ok_def effective_status_def split: if_splits option.splits)

lemma best_device:
  assumes "first_min device_order (filter (candidate (d_offline_after s) required now) (map snd (d_devices s))) = Some d"
    and "device_inv s"
  shows "map_of (d_devices s) (dv_id d) = Some d" "candidate (d_offline_after s) required now d"
    "dv_active_lease_id d = None"
proof -
  from assms(2) have inv: "linked (map_of (d_devices s)) (map_of (d_leases s)) (map_of (d_names s)) (drawn_ids (d_env s))"
    and keys: "distinct (map fst (d_devices s))" by (simp_all add: device_inv_def)
  from first_min_mem [OF assms(1)] obtain k where k: "(k, d) \<in> set (d_devices s)"
    and c: "candidate (d_offline_after s) required now d" by auto
  then have d: "map_of (d_devices s) k = Some d" using keys by simp
  then show "map_of (d_devices s) (dv_id d) = Some d" using linkedD(1) [OF inv d] by simp
  show "candidate (d_offline_after s) required now d" by (rule c)
  show "dv_active_lease_id d = None"
    using linkedD(1) [OF inv d] c idle_free by (auto simp: candidate_def)
qed

lemma lawful_reserve:
  assumes env: "env_le (d_env s) (d_env t)" "id_count (d_env t) = Suc (id_count (d_env s))"
    and rest: "d_offline_after t = d_offline_after s" "d_names t = d_names s"
    and put: "d_leases t = AList.update (dl_id l) l (d_leases s)" "d_devices t = AList.update (dv_id e) e (d_devices s)"
    and l: "dl_id l = str_of_uuid (id_at (d_env s) (id_count (d_env s)))" "dl_device_id l = dv_id d" "dl_status l = LeaseActive"
    and e: "same_device d e" "device_ok e" "dv_active_lease_id e = Some (dl_id l)"
    and d: "device_inv s \<Longrightarrow> map_of (d_devices s) (dv_id d) = Some d" "device_inv s \<Longrightarrow> dv_active_lease_id d = None"
  shows "lawful s t"
proof -
  have "device_inv t" if s: "device_inv s" and ok: "env_ok (d_env t)"
  proof -
    from s have inv: "linked (map_of (d_devices s)) (map_of (d_leases s)) (map_of (d_names s)) (drawn_ids (d_env s))"
      and keys: "distinct (map fst (d_devices s))" "distinct (map fst (d_leases s))"
      by (simp_all add: device_inv_def)
    have "dv_id e = dv_id d" using e(1) by (simp add: same_device_def)
    then show ?thesis
      using linked_reserve [OF inv d_fresh [OF ok env] drawn_mono [OF env(1)] d(1) [OF s] d(2) [OF s], of l e] l e keys
      by (simp add: device_inv_def store_simps put rest)
  qed
  then show ?thesis using env rest by (simp add: lawful_def)
qed

lemma lawful_register:
  assumes env: "env_le (d_env s) (d_env t)" "id_count (d_env t) = Suc (id_count (d_env s))"
    and rest: "d_offline_after t = d_offline_after s" "d_leases t = d_leases s"
    and put: "d_devices t = AList.update (dv_id d) d (d_devices s)"
      "d_names t = AList.update (py_casefold (dv_name d)) (dv_id d) (d_names s)"
    and d: "dv_id d = str_of_uuid (id_at (d_env s) (id_count (d_env s)))" "dv_active_lease_id d = None" "device_ok d"
      "map_of (d_names s) (py_casefold (dv_name d)) = None"
      "\<not> list_ex (\<lambda>e. dv_agent_id e = dv_agent_id d) (map snd (d_devices s))"
  shows "lawful s t"
proof -
  have "device_inv t" if s: "device_inv s" and ok: "env_ok (d_env t)"
  proof -
    from s have inv: "linked (map_of (d_devices s)) (map_of (d_leases s)) (map_of (d_names s)) (drawn_ids (d_env s))"
      and keys: "distinct (map fst (d_devices s))" "distinct (map fst (d_leases s))"
      by (simp_all add: device_inv_def)
    have agents: "dv_agent_id e \<noteq> dv_agent_id d" if "map_of (d_devices s) k = Some e" for k e
      using d(5) map_of_SomeD [OF that] by (auto simp: list_ex_iff)
    show ?thesis
      using linked_register [OF inv d_fresh [OF ok env] drawn_mono [OF env(1)] d(1-4) agents] keys
      by (simp add: device_inv_def store_simps put rest d(1))
  qed
  then show ?thesis using env rest by (simp add: lawful_def)
qed

lemma reserve_lawful: "wp (reserve digest task w required n now) (\<lambda>_. lawful s) (\<lambda>_. lawful s) s"
  unfolding reserve_def
  apply (intro wp_intros)
   apply (simp add: lawful_idle)
  subgoal for d l e
    by (rule lawful_reserve [where l = l and e = e and d = d])
      (simp_all add: best_device(1,3) [of s required now d] device_ok_def env_le_def)
  done

lemma register_lawful: "wp (register a) (\<lambda>_. lawful s) (\<lambda>_. lawful s) s"
  unfolding register_def
  apply (intro wp_intros)
  subgoal by simp
  subgoal by simp
  subgoal by (rule lawful_idle) (simp_all add: env_le_def)
  subgoal for d
    by (rule lawful_register [where d = d]) (simp_all add: device_ok_def env_le_def)
  done

lemma acquire_lawful: "wp (acquire digest task w required n now) (\<lambda>_. lawful s) (\<lambda>_. lawful s) s"
  unfolding acquire_def
  by (intro lawful_ensure lawful_current lawful_then [OF expire_locked_lawful] reserve_lawful)

lemma device_get_lawful: "wp (device_get k now) (\<lambda>_. lawful s) (\<lambda>_. lawful s) s"
  unfolding device_get_def
  by (intro lawful_current lawful_then [OF expire_locked_lawful]) (intro wp_intros; simp)

lemma list_devices_lawful: "wp (list_devices now) (\<lambda>_. lawful s) (\<lambda>_. lawful s) s"
  unfolding list_devices_def
  by (intro lawful_current lawful_then [OF expire_locked_lawful]) (intro wp_intros; simp)

lemma expire_leases_lawful: "wp (expire_leases now) (\<lambda>_. lawful s) (\<lambda>_. lawful s) s"
  unfolding expire_leases_def by (intro lawful_current expire_locked_lawful)

section \<open>Histories\<close>

datatype device_request =
    RegisterDevice register_args
  | DeviceHeartbeat text_t text_t "dt option"
  | GetDevice text_t "dt option"
  | ListDevices "dt option"
  | AcquireDevice text_t text_t "text_t list" int "dt option"
  | StartWork text_t text_t text_t "dt option"
  | RenewLease text_t text_t text_t int "dt option"
  | ReleaseLease text_t text_t text_t "dt option"
  | SetMaintenance text_t bool "dt option"
  | ExpireLeases "dt option"

fun device_serve :: "(text_t \<Rightarrow> text_t) \<Rightarrow> device_request \<Rightarrow> devices \<Rightarrow> devices" where
  "device_serve digest (RegisterDevice a) s = snd (register a s)"
| "device_serve digest (DeviceHeartbeat k agent now) s = snd (device_heartbeat k agent now s)"
| "device_serve digest (GetDevice k now) s = snd (device_get k now s)"
| "device_serve digest (ListDevices now) s = snd (list_devices now s)"
| "device_serve digest (AcquireDevice task w required n now) s = snd (acquire digest task w required n now s)"
| "device_serve digest (StartWork i w token now) s = snd (start_work digest i w token now s)"
| "device_serve digest (RenewLease i w token n now) s = snd (renew digest i w token n now s)"
| "device_serve digest (ReleaseLease i w token now) s = snd (release digest i w token now s)"
| "device_serve digest (SetMaintenance k enabled now) s = snd (set_maintenance k enabled now s)"
| "device_serve digest (ExpireLeases now) s = snd (expire_leases now s)"

definition device_serve_all :: "(text_t \<Rightarrow> text_t) \<Rightarrow> device_request list \<Rightarrow> devices \<Rightarrow> devices" where
  "device_serve_all digest rs s = fold (device_serve digest) rs s"

definition no_devices :: "aenv \<Rightarrow> int \<Rightarrow> devices" where
  "no_devices e n = \<lparr>d_env = e, d_offline_after = seconds n, d_devices = [], d_leases = [], d_names = []\<rparr>"

text \<open>The one call that breaks the invariant, in a state where it does.\<close>

fun calm :: "device_request \<Rightarrow> devices \<Rightarrow> bool" where
  "calm (SetMaintenance k enabled now) s =
     (enabled \<or> (case map_of (d_devices s) k of None \<Rightarrow> True | Some d \<Rightarrow> dv_active_lease_id d = None))"
| "calm _ s = True"

fun calm_history :: "(text_t \<Rightarrow> text_t) \<Rightarrow> device_request list \<Rightarrow> devices \<Rightarrow> bool" where
  "calm_history digest [] s = True"
| "calm_history digest (r # rs) s = (calm r s \<and> calm_history digest rs (device_serve digest r s))"

lemmas device_operations = register_lawful device_heartbeat_lawful device_get_lawful list_devices_lawful acquire_lawful
  start_work_lawful renew_lawful release_lawful set_maintenance_lawful expire_leases_lawful

lemma device_serve_lawful: "calm r s \<Longrightarrow> lawful s (device_serve digest r s)"
  by (cases r) (simp_all add: device_operations [unfolded wp_final])

lemma device_history_lawful: "calm_history digest rs s \<Longrightarrow> lawful s (device_serve_all digest rs s)"
proof (induction rs arbitrary: s)
  case Nil
  then show ?case by (simp add: device_serve_all_def)
next
  case (Cons r rs)
  then show ?case
    using lawful_trans [OF device_serve_lawful Cons.IH] by (simp add: device_serve_all_def)
qed

lemma no_devices_inv: "device_inv (no_devices e n)"
  by (simp add: device_inv_def no_devices_def linked_def)

end
