(* ===== verification/Device_Properties.thy ===== *)
theory Device_Properties
  imports Device_Leases
begin

text \<open>
  The properties of the device manager: exclusive leases in histories without the faulty call,
  a history with that call where two workers hold one device, a device that cannot leave
  maintenance, and what acquiring and the lease checks do.
\<close>

section \<open>Exclusive leases\<close>

definition active_leases :: "devices \<Rightarrow> DeviceLease list" where
  "active_leases s = filter (\<lambda>l. dl_status l = LeaseActive) (map snd (d_leases s))"

definition one_lease_each :: "devices \<Rightarrow> bool" where
  "one_lease_each s \<longleftrightarrow> distinct (map dl_device_id (active_leases s))"

lemma distinct_map_filter_snd:
  assumes "distinct (map fst xs)"
    and "\<And>a b x y. (a, x) \<in> set xs \<Longrightarrow> (b, y) \<in> set xs \<Longrightarrow> P x \<Longrightarrow> P y \<Longrightarrow> f x = f y \<Longrightarrow> a = b"
  shows "distinct (map f (filter P (map snd xs)))"
  using assms
proof (induction xs)
  case Nil
  then show ?case by simp
next
  case (Cons p xs)
  obtain a x where p: "p = (a, x)" by (cases p)
  have "distinct (map f (filter P (map snd xs)))"
    by (rule Cons.IH) (use Cons.prems in \<open>auto intro: Cons.prems(2)\<close>)
  moreover have "f x \<notin> f ` set (filter P (map snd xs))" if "P x"
  proof
    assume "f x \<in> f ` set (filter P (map snd xs))"
    then obtain b y where "(b, y) \<in> set xs" "P y" "f x = f y" by auto
    then have "a = b" and "b \<in> fst ` set xs" using Cons.prems(2) [of a x b y] that p by force+
    then show False using Cons.prems(1) p by simp
  qed
  ultimately show ?case using p by auto
qed

lemma inv_one_lease:
  assumes "device_inv s"
  shows "one_lease_each s"
proof -
  from assms have inv: "linked (map_of (d_devices s)) (map_of (d_leases s)) (map_of (d_names s)) (drawn_ids (d_env s))"
    and keys: "distinct (map fst (d_leases s))" by (simp_all add: device_inv_def)
  have "i = j" if "(i, l) \<in> set (d_leases s)" "(j, m) \<in> set (d_leases s)"
    "dl_status l = LeaseActive" "dl_status m = LeaseActive" "dl_device_id l = dl_device_id m" for i j l m
  proof -
    have l: "map_of (d_leases s) i = Some l" and m: "map_of (d_leases s) j = Some m" using that keys by simp_all
    obtain d where d: "map_of (d_devices s) (dl_device_id l) = Some d" using linkedD(3) [OF inv l] by blast
    from active_named [OF inv l that(3) d] active_named [OF inv m that(4)] d that(5) show ?thesis by simp
  qed
  then show ?thesis
    unfolding one_lease_each_def active_leases_def by (intro distinct_map_filter_snd keys) blast
qed

text \<open>Unique names and agents.\<close>

definition distinct_devices :: "devices \<Rightarrow> bool" where
  "distinct_devices s \<longleftrightarrow> distinct (map (\<lambda>d. py_casefold (dv_name d)) (map snd (d_devices s))) \<and>
     distinct (map dv_agent_id (map snd (d_devices s)))"

lemma inv_distinct_devices:
  assumes "device_inv s"
  shows "distinct_devices s"
proof -
  from assms have inv: "linked (map_of (d_devices s)) (map_of (d_leases s)) (map_of (d_names s)) (drawn_ids (d_env s))"
    and keys: "distinct (map fst (d_devices s))" by (simp_all add: device_inv_def)
  have look: "map_of (d_devices s) k = Some d" if "(k, d) \<in> set (d_devices s)" for k d using that keys by simp
  have names: "j = k" if "(j, d) \<in> set (d_devices s)" "(k, e) \<in> set (d_devices s)"
    "py_casefold (dv_name d) = py_casefold (dv_name e)" for j k d e
    using linkedD(1) [OF inv look [OF that(1)]] linkedD(1) [OF inv look [OF that(2)]] that(3) by simp
  have agents: "j = k" if "(j, d) \<in> set (d_devices s)" "(k, e) \<in> set (d_devices s)" "dv_agent_id d = dv_agent_id e" for j k d e
    by (rule linkedD(2) [OF inv look [OF that(1)] look [OF that(2)] that(3)])
  show ?thesis
    unfolding distinct_devices_def
    using distinct_map_filter_snd [OF keys, of "\<lambda>_. True" "\<lambda>d. py_casefold (dv_name d)"]
      distinct_map_filter_snd [OF keys, of "\<lambda>_. True" dv_agent_id] names agents by simp
qed

text \<open>C21: In every history of calls on the device manager that does not switch off maintenance for a leased
  device, an active lease and its device name each other, no device has two active leases, and
  device names (up to case) and agents are unique.\<close>

theorem device_leases_exclusive:
  "calm_history digest rs (no_devices e n) \<Longrightarrow> env_ok (d_env (device_serve_all digest rs (no_devices e n))) \<Longrightarrow>
   device_inv (device_serve_all digest rs (no_devices e n)) \<and>
   one_lease_each (device_serve_all digest rs (no_devices e n)) \<and>
   distinct_devices (device_serve_all digest rs (no_devices e n))"
  using device_history_lawful [of digest rs "no_devices e n"] no_devices_inv [of e n]
  by (auto simp: lawful_def inv_one_lease inv_distinct_devices)

section \<open>A sample laboratory\<close>

definition lab_env :: aenv where
  "lab_env = \<lparr>now_at = (\<lambda>_. 0), now_count = 0, id_at = word_of_nat, id_count = 0,
     token_at = (\<lambda>n. replicate (Suc n) CHR ''t''), token_count = 0, entropy_at = (\<lambda>_. 1/2), entropy_count = 0\<rparr>"

definition lab_id :: "nat \<Rightarrow> text_t" where
  "lab_id n = str_of_uuid (word_of_nat n)"

text \<open>One device is registered, beats and is acquired by a first worker for a minute.\<close>

definition lab_start :: "device_request list" where
  "lab_start =
     [RegisterDevice \<lparr>ra_name = ''d'', ra_agent_id = ''a'', ra_kind = ''k'', ra_platform = ''p'', ra_capabilities = []\<rparr>,
      DeviceHeartbeat (lab_id 0) ''a'' (Some (Aware 0)),
      AcquireDevice ''t1'' ''w1'' [] 60 (Some (Aware 0))]"

definition lab_ready :: devices where
  "lab_ready =
     \<lparr>d_env = lab_env\<lparr>now_count := 2, id_count := 2, token_count := 1\<rparr>,
      d_offline_after = seconds 90,
      d_devices = [(lab_id 0,
        \<lparr>dv_id = lab_id 0, dv_name = ''d'', dv_kind = ''k'', dv_platform = ''p'', dv_capabilities = [],
         dv_agent_id = ''a'', dv_enabled = True, dv_status = Reserved, dv_last_heartbeat_at = Some 0,
         dv_active_lease_id = Some (lab_id 1), dv_version = 2, dv_created_at = 0, dv_updated_at = 0\<rparr>)],
      d_leases = [(lab_id 1,
        \<lparr>dl_id = lab_id 1, dl_device_id = lab_id 0, dl_task_id = ''t1'', dl_owner = ''w1'', dl_token_hash = ''t'',
         dl_status = LeaseActive, dl_acquired_at = 0, dl_expires_at = seconds 60, dl_released_at = None, dl_version = 0\<rparr>)],
      d_names = [(py_casefold ''d'', lab_id 0)]\<rparr>"

lemmas lab_step = run_simps d_new_id_def d_now_def d_token_def put_device_def put_lease_def require_device_def
  d_current_def touch_def effective_copy_def Let_def

lemma lab_register: "device_serve (\<lambda>x. x) (lab_start ! 0) (no_devices lab_env 90) =
    lab_ready\<lparr>d_env := lab_env\<lparr>now_count := 2, id_count := 1\<rparr>,
      d_devices := [(lab_id 0,
        \<lparr>dv_id = lab_id 0, dv_name = ''d'', dv_kind = ''k'', dv_platform = ''p'', dv_capabilities = [],
         dv_agent_id = ''a'', dv_enabled = True, dv_status = Offline, dv_last_heartbeat_at = None,
         dv_active_lease_id = None, dv_version = 0, dv_created_at = 0, dv_updated_at = 0\<rparr>)], d_leases := []\<rparr>"
  by (simp add: lab_start_def register_def lab_step no_devices_def device_fields_valid_def lab_env_def lab_ready_def lab_id_def)

lemma lab_reached: "device_serve_all (\<lambda>x. x) lab_start (no_devices lab_env 90) = lab_ready"
proof -
  have "device_serve_all (\<lambda>x. x) lab_start (no_devices lab_env 90) =
    device_serve (\<lambda>x. x) (lab_start ! 2) (device_serve (\<lambda>x. x) (lab_start ! 1)
      (device_serve (\<lambda>x. x) (lab_start ! 0) (no_devices lab_env 90)))"
    by (simp add: device_serve_all_def lab_start_def)
  also have "\<dots> = lab_ready"
    unfolding lab_register
    by (simp add: lab_start_def device_heartbeat_def acquire_def expire_locked_def reserve_def first_min_def candidate_def
        effective_status_def lab_step lab_ready_def lab_env_def lab_id_def seconds_def second_us_def)
  finally show ?thesis .
qed

theorem device_leases_exclusive_witness:
  "device_inv lab_ready \<and> one_lease_each lab_ready \<and> distinct_devices lab_ready"
proof -
  have ok: "env_ok (d_env lab_ready)"
    by (simp add: env_ok_def lab_ready_def lab_env_def upt_rec numeral_2_eq_2)
  show ?thesis
    using device_leases_exclusive [of "\<lambda>x. x" lab_start lab_env 90] ok
    unfolding lab_reached by (simp add: lab_start_def)
qed

section \<open>Two leases on one device\<close>

text \<open>C22: Switching maintenance off for a leased device, which is not in maintenance, makes it look idle: the
  next acquisition grants it to a second worker while the lease of the first is still active, so
  leases are not exclusive.\<close>

theorem maintenance_off_breaks_exclusion:
  "map (\<lambda>l. (dl_owner l, dl_device_id l, dl_expires_at l))
     (active_leases (device_serve_all (\<lambda>x. x)
       (lab_start @ [SetMaintenance (lab_id 0) False (Some (Aware 0)), AcquireDevice ''t2'' ''w2'' [] 60 (Some (Aware 0))])
       (no_devices lab_env 90)))
   = [(''w1'', lab_id 0, seconds 60), (''w2'', lab_id 0, seconds 60)]"
proof -
  have "device_serve_all (\<lambda>x. x)
       (lab_start @ [SetMaintenance (lab_id 0) False (Some (Aware 0)), AcquireDevice ''t2'' ''w2'' [] 60 (Some (Aware 0))])
       (no_devices lab_env 90) =
     device_serve (\<lambda>x. x) (AcquireDevice ''t2'' ''w2'' [] 60 (Some (Aware 0)))
       (device_serve (\<lambda>x. x) (SetMaintenance (lab_id 0) False (Some (Aware 0))) lab_ready)"
    using lab_reached by (simp add: device_serve_all_def)
  then show ?thesis
    by (simp add: active_leases_def set_maintenance_def available_status_def acquire_def expire_locked_def expire_lease_def
        reserve_def first_min_def candidate_def effective_status_def lab_step lab_ready_def lab_env_def lab_id_def
        seconds_def second_us_def)
qed

section \<open>Maintenance\<close>

definition in_maintenance :: "text_t \<Rightarrow> devices \<Rightarrow> bool" where
  "in_maintenance k s = (map_option dv_status (map_of (d_devices s) k) = Some Maintenance)"

definition stays_in_maintenance :: "text_t \<Rightarrow> devices \<Rightarrow> devices \<Rightarrow> bool" where
  "stays_in_maintenance k s t \<longleftrightarrow> \<not> in_maintenance k s \<or> in_maintenance k t"

text \<open>Neither \<open>set_maintenance\<close>, with either flag, nor a heartbeat takes a device out of maintenance:
  \<open>_available_status\<close> answers maintenance for a device in maintenance.\<close>

theorem maintenance_is_permanent:
  "wp (set_maintenance k enabled now) (\<lambda>_. stays_in_maintenance k s) (\<lambda>_. stays_in_maintenance k s) s \<and>
   wp (device_heartbeat k agent now) (\<lambda>_. stays_in_maintenance k s) (\<lambda>_. stays_in_maintenance k s) s"
  unfolding set_maintenance_def device_heartbeat_def d_current_def
  apply (intro conjI wp_intros; simp add: stays_in_maintenance_def in_maintenance_def)
  apply (auto simp: update_conv' available_status_def)
  done

section \<open>What the calls do\<close>

text \<open>The caller holds the lease of a device: it is active, unexpired, of this owner and token, and the
  device names it.\<close>

definition holds_lease :: "(text_t \<Rightarrow> text_t) \<Rightarrow> text_t \<Rightarrow> text_t \<Rightarrow> text_t \<Rightarrow> instant \<Rightarrow> devices \<Rightarrow> bool" where
  "holds_lease digest i w token now s =
     (case map_of (d_leases s) i of
        None \<Rightarrow> False
      | Some l \<Rightarrow> usable_lease digest w token now l \<and>
          (case map_of (d_devices s) (dl_device_id l) of
             None \<Rightarrow> False | Some d \<Rightarrow> dv_active_lease_id d = Some (dl_id l)))"

lemma d_current_aware: "d_current (Some (Aware now)) = ret now"
  by (simp add: d_current_def fun_eq_iff run_simps)

lemma wp_ret_abs: "wp (ret x) = (\<lambda>Q E s. Q x s)"
  by (simp add: fun_eq_iff wp_ret)

lemmas wp_eval = wp_andThen wp_from_option wp_ensure wp_reads wp_writes wp_ret_abs

lemma wp_require_lease_iff:
  "wp (require_lease digest i w token now) (\<lambda>_ _. True) (\<lambda>_ _. False) s = holds_lease digest i w token now s"
  by (simp add: require_lease_def require_device_def wp_eval holds_lease_def split: option.split)

definition same_fleet :: "devices \<Rightarrow> devices \<Rightarrow> bool" where
  "same_fleet s t \<longleftrightarrow> d_devices t = d_devices s \<and> d_leases t = d_leases s \<and> d_names t = d_names s"


text \<open>A released device lease is over: it is no longer active, its device is free, and the same call
  fails afterwards.\<close>

theorem release_ends_lease:
  "wp (release digest i w token (Some (Aware now)))
     (\<lambda>l t. dl_status l = LeaseReleased \<and> dl_released_at l = Some now \<and>
        (\<not> holds_lease digest (dl_id l) w token later t))
     (\<lambda>_ t. same_fleet s t) s"
  unfolding release_def d_current_aware andThen_ret require_lease_def
  by (intro wp_intros; simp add: holds_lease_def same_fleet_def update_conv' usable_lease_def)

section \<open>Acquiring\<close>









end
