(* ===== verification/Cron.thy ===== *)
theory Cron
  imports Automation_Models
begin

text \<open>
  \<open>automation/cron.py\<close>: parsing of five-field cron expressions and the search for fire times.
  \<open>ZoneInfo\<close> is the argument \<open>zones\<close>: for a known name, the offset from UTC at each instant.
  The search walks UTC minutes, with the source's bound on the number of steps.
\<close>

section \<open>Texts\<close>

text \<open>\<open>text.split(sep)\<close> for a single character, and for the class of blanks.\<close>

fun split_when :: "(char \<Rightarrow> bool) \<Rightarrow> text_t \<Rightarrow> text_t list" where
  "split_when p [] = [[]]"
| "split_when p (c # cs) =
     (if p c then [] # split_when p cs
      else case split_when p cs of [] \<Rightarrow> [[c]] | w # ws \<Rightarrow> (c # w) # ws)"

definition py_words :: "text_t \<Rightarrow> text_t list" where
  "py_words s = filter (\<lambda>w. w \<noteq> []) (split_when py_space s)"

text \<open>\<open>text.partition(sep)\<close>: before, whether \<open>sep\<close> occurs, after.\<close>

definition partition_at :: "char \<Rightarrow> text_t \<Rightarrow> text_t \<times> bool \<times> text_t" where
  "partition_at c s =
     (let before = takeWhile (\<lambda>x. x \<noteq> c) s in (before, c \<in> set s, drop (Suc (length before)) s))"

text \<open>\<open>int(text)\<close> in base ten; None stands for \<open>ValueError\<close>.\<close>

fun digit_run :: "nat \<Rightarrow> bool \<Rightarrow> text_t \<Rightarrow> nat option" where
  "digit_run acc us [] = (if us then None else Some acc)"
| "digit_run acc us (c # cs) =
     (if c = CHR ''_'' then (if us then None else digit_run acc True cs)
      else if 48 \<le> code_of c \<and> code_of c \<le> 57 then digit_run (10 * acc + (code_of c - 48)) False cs
      else None)"

definition digits_value :: "text_t \<Rightarrow> nat option" where
  "digits_value s = (case s of [] \<Rightarrow> None | c # _ \<Rightarrow> if c = CHR ''_'' then None else digit_run 0 False s)"

definition py_int :: "text_t \<Rightarrow> int option" where
  "py_int s =
     (case strip_chars int_space s of
        [] \<Rightarrow> None
      | c # cs \<Rightarrow>
          if c = CHR ''-'' then map_option (\<lambda>n. - int n) (digits_value cs)
          else if c = CHR ''+'' then map_option int (digits_value cs)
          else map_option int (digits_value (c # cs)))"

definition int_or :: "text_t \<Rightarrow> text_t \<Rightarrow> automation_error + int" where
  "int_or message s =
     (case py_int s of None \<Rightarrow> Inl (AutomationValidationError message) | Some i \<Rightarrow> Inr i)"

section \<open>Fields\<close>

record CronField =
  cf_values :: "int set"
  cf_wildcard :: bool

text \<open>\<open>range(start, end + 1, step)\<close> for a positive step.\<close>

definition step_range :: "int \<Rightarrow> int \<Rightarrow> int \<Rightarrow> int list" where
  "step_range start stop step = map (\<lambda>i. start + int i * step) [0..<nat ((stop - start) div step + 1)]"

definition part_bounds :: "text_t \<Rightarrow> bool \<Rightarrow> int \<Rightarrow> int \<Rightarrow> automation_error + int \<times> int" where
  "part_bounds base separator minimum maximum =
     (if base = ''*'' then Inr (minimum, maximum)
      else if CHR ''-'' \<in> set base then
        (case partition_at (CHR ''-'') base of (start_text, _, end_text) \<Rightarrow>
           bind_sum (int_or ''cron range is invalid'' start_text) (\<lambda>start.
           bind_sum (int_or ''cron range is invalid'' end_text) (\<lambda>stop. Inr (start, stop))))
      else
        bind_sum (int_or ''cron value is invalid'' base) (\<lambda>start.
        Inr (start, if separator then maximum else start)))"

definition parse_step :: "bool \<Rightarrow> text_t \<Rightarrow> automation_error + int" where
  "parse_step separator step_text =
     (if separator then
        bind_sum (int_or ''cron step is invalid'' step_text) (\<lambda>step.
        if step < 1 then Inl (AutomationValidationError ''cron step must be positive'') else Inr step)
      else Inr 1)"

definition parse_part :: "int \<Rightarrow> int \<Rightarrow> bool \<Rightarrow> text_t \<Rightarrow> automation_error + int list" where
  "parse_part minimum maximum sunday_alias part =
     (if part = [] then Inl (AutomationValidationError ''cron field contains an empty item'')
      else case partition_at (CHR ''/'') part of (base, separator, step_text) \<Rightarrow>
        bind_sum (parse_step separator step_text) (\<lambda>step.
        bind_sum (part_bounds base separator minimum maximum) (\<lambda>(start, stop).
        let alias_maximum = (if sunday_alias then 7 else maximum) in
        if start < minimum \<or> stop > alias_maximum \<or> start > stop
          then Inl (AutomationValidationError ''cron value is outside its field range'')
        else Inr (map (\<lambda>item. if sunday_alias \<and> item = 7 then 0 else item) (step_range start stop step)))))"

definition cron_field_parse :: "text_t \<Rightarrow> int \<Rightarrow> int \<Rightarrow> bool \<Rightarrow> automation_error + CronField" where
  "cron_field_parse expression minimum maximum sunday_alias =
     bind_sum (map_result (parse_part minimum maximum sunday_alias) (split_when (\<lambda>c. c = CHR '','') expression))
       (\<lambda>parts. let values = set (concat parts) in
        Inr \<lparr>cf_values = values, cf_wildcard = (values = set [minimum..maximum])\<rparr>)"

section \<open>Expressions\<close>

record CronExpression =
  ce_minute :: CronField
  ce_hour :: CronField
  ce_day_of_month :: CronField
  ce_month :: CronField
  ce_day_of_week :: CronField

definition maximum_day :: "int \<Rightarrow> int" where
  "maximum_day month = (if month = 2 then 29 else if month \<in> {4, 6, 9, 11} then 30 else 31)"

definition calendar_feasible :: "CronExpression \<Rightarrow> bool" where
  "calendar_feasible e \<longleftrightarrow>
     cf_wildcard (ce_day_of_month e) \<or> \<not> cf_wildcard (ce_day_of_week e) \<or>
     (\<exists>month \<in> cf_values (ce_month e). \<exists>day \<in> cf_values (ce_day_of_month e). day \<le> maximum_day month)"

text \<open>\<open>parse\<close>: first the fields, then the calendar check.\<close>

definition cron_fields :: "text_t \<Rightarrow> automation_error + CronExpression" where
  "cron_fields expression =
     (case py_words expression of
        [f0, f1, f2, f3, f4] \<Rightarrow>
          bind_sum (cron_field_parse f0 0 59 False) (\<lambda>minute.
          bind_sum (cron_field_parse f1 0 23 False) (\<lambda>hour.
          bind_sum (cron_field_parse f2 1 31 False) (\<lambda>day_of_month.
          bind_sum (cron_field_parse f3 1 12 False) (\<lambda>month.
          bind_sum (cron_field_parse f4 0 6 True) (\<lambda>day_of_week.
          Inr \<lparr>ce_minute = minute, ce_hour = hour, ce_day_of_month = day_of_month, ce_month = month,
               ce_day_of_week = day_of_week\<rparr>)))))
      | _ \<Rightarrow> Inl (AutomationValidationError ''cron expression must contain five fields''))"

definition cron_parse :: "text_t \<Rightarrow> automation_error + CronExpression" where
  "cron_parse expression =
     bind_sum (cron_fields expression) (\<lambda>e.
     if calendar_feasible e then Inr e
     else Inl (AutomationValidationError ''cron day-of-month never exists in the selected months''))"

section \<open>Matching\<close>

type_synonym zone = "instant \<Rightarrow> int"

definition local_match :: "CronExpression \<Rightarrow> instant \<Rightarrow> bool" where
  "local_match e local =
     (let cron_weekday = (dt_weekday local + 1) mod 7;
          day_of_month_match = (dt_day local \<in> cf_values (ce_day_of_month e));
          day_of_week_match = (cron_weekday \<in> cf_values (ce_day_of_week e));
          day_match = (if cf_wildcard (ce_day_of_month e) then day_of_week_match
            else if cf_wildcard (ce_day_of_week e) then day_of_month_match
            else day_of_month_match \<or> day_of_week_match)
      in dt_minute local \<in> cf_values (ce_minute e) \<and> dt_hour local \<in> cf_values (ce_hour e) \<and>
         dt_month local \<in> cf_values (ce_month e) \<and> day_match)"

definition matches_in_zone :: "CronExpression \<Rightarrow> zone \<Rightarrow> instant \<Rightarrow> bool" where
  "matches_in_zone e z t = local_match e (t + z t)"

definition find_zone :: "(text_t \<Rightarrow> zone option) \<Rightarrow> text_t \<Rightarrow> automation_error + zone" where
  "find_zone zones name =
     (case zones name of
        None \<Rightarrow> Inl (AutomationValidationError ''schedule timezone is unknown'') | Some z \<Rightarrow> Inr z)"

definition cron_tz :: text_t where
  "cron_tz = ''cron instants must be timezone-aware''"

definition cron_matches ::
  "(text_t \<Rightarrow> zone option) \<Rightarrow> CronExpression \<Rightarrow> dt \<Rightarrow> text_t \<Rightarrow> automation_error + bool" where
  "cron_matches zones e t timezone_name =
     bind_sum (find_zone zones timezone_name) (\<lambda>z.
     bind_sum (as_utc cron_tz t) (\<lambda>u. Inr (matches_in_zone e z u)))"

section \<open>Searching\<close>

text \<open>\<open>replace(second=0, microsecond=0)\<close>.\<close>

definition minute_floor :: "instant \<Rightarrow> instant" where
  "minute_floor t = t - t mod minute_us"

definition search_window :: nat where
  "search_window = 5 * 366 * 24 * 60"

definition no_fire :: automation_error where
  "no_fire = AutomationValidationError ''cron expression has no fire time in search window''"

fun search :: "(instant \<Rightarrow> bool) \<Rightarrow> int \<Rightarrow> nat \<Rightarrow> instant \<Rightarrow> automation_error + instant" where
  "search p step 0 t = Inl no_fire"
| "search p step (Suc n) t = (if p t then Inr t else search p step n (t + step))"

definition next_after ::
  "(text_t \<Rightarrow> zone option) \<Rightarrow> CronExpression \<Rightarrow> dt \<Rightarrow> text_t \<Rightarrow> nat \<Rightarrow> automation_error + instant" where
  "next_after zones e t timezone_name max_search_minutes =
     bind_sum (find_zone zones timezone_name) (\<lambda>z.
     bind_sum (as_utc cron_tz t) (\<lambda>u.
     search (matches_in_zone e z) minute_us max_search_minutes (minute_floor u + minute_us)))"

definition previous_at_or_before ::
  "(text_t \<Rightarrow> zone option) \<Rightarrow> CronExpression \<Rightarrow> dt \<Rightarrow> text_t \<Rightarrow> nat \<Rightarrow> automation_error + instant" where
  "previous_at_or_before zones e t timezone_name max_search_minutes =
     bind_sum (find_zone zones timezone_name) (\<lambda>z.
     bind_sum (as_utc cron_tz t) (\<lambda>u.
     search (matches_in_zone e z) (- minute_us) max_search_minutes (minute_floor u)))"

section \<open>What the search finds\<close>

lemma search_Inr:
  "search p d n t = Inr r \<longleftrightarrow> (\<exists>i<n. r = t + int i * d \<and> p r \<and> (\<forall>j<i. \<not> p (t + int j * d)))"
proof (induction p d n t rule: search.induct)
  case (1 p d t)
  then show ?case by simp
next
  case (2 p d n t)
  show ?case
  proof (cases "p t")
    case True
    have "i = 0" if "\<forall>j<i. \<not> p (t + int j * d)" for i using that True by (cases i) auto
    then show ?thesis using True by auto
  next
    case False
    have shift: "t + d + int i * d = t + int (Suc i) * d" for i by (simp add: algebra_simps)
    show ?thesis using 2 [OF False] False unfolding shift by (auto simp: Ex_less_Suc2 All_less_Suc2)
  qed
qed

lemma search_Inl: "search p d n t = Inl x \<longleftrightarrow> x = no_fire \<and> (\<forall>i<n. \<not> p (t + int i * d))"
proof (induction p d n t rule: search.induct)
  case (1 p d t)
  then show ?case by auto
next
  case (2 p d n t)
  have shift: "t + d + int i * d = t + int (Suc i) * d" for i by (simp add: algebra_simps)
  show ?case using 2 unfolding shift by (auto simp: All_less_Suc2)
qed

end
