(* ===== verification/Scheduler.thy ===== *)
theory Scheduler
  imports Cron Task_Queue
begin

text \<open>
  \<open>automation/ports.py\<close> and \<open>automation/scheduler.py\<close>: the in-memory scheduler and the port through
  which it uses a task queue. Every method holds the scheduler's lock, so it is one program.
  The scheduler is written over a port, as in the source: \<open>'q\<close> is the state behind it.
\<close>

section \<open>The port\<close>

record 'q TaskQueuePort =
  qp_enqueue :: "enqueue_args \<Rightarrow> ('q, automation_error, EnqueueResult) prog"
  qp_active_for_schedule :: "text_t \<Rightarrow> ('q, automation_error, AutomationTask list) prog"
  qp_request_cancel :: "text_t \<Rightarrow> dt option \<Rightarrow> ('q, automation_error, AutomationTask) prog"

definition task_queue_port :: "(text_t \<Rightarrow> text_t) \<Rightarrow> task_queue TaskQueuePort" where
  "task_queue_port digest =
     \<lparr>qp_enqueue = enqueue digest, qp_active_for_schedule = active_for_schedule, qp_request_cancel = request_cancel\<rparr>"

section \<open>State\<close>

type_synonym fire_key = "text_t \<times> text_t"

record 'q scheduler =
  sc_env :: aenv
  sc_queue :: 'q
  sc_schedules :: "(text_t \<times> AutomationSchedule) list"
  sc_expressions :: "(text_t \<times> CronExpression) list"
  sc_fires :: "(fire_key \<times> ScheduleFire) list"
  sc_max_due :: nat

type_synonym ('q, 'a) sched_op = "('q scheduler, automation_error, 'a) prog"

definition new_scheduler :: "aenv \<Rightarrow> 'q \<Rightarrow> nat \<Rightarrow> automation_error + 'q scheduler" where
  "new_scheduler env queue max_due =
     (if max_due < 1 then Inl (AutomationValidationError ''scheduler due limit must be positive'')
      else Inr \<lparr>sc_env = env, sc_queue = queue, sc_schedules = [], sc_expressions = [], sc_fires = [],
                sc_max_due = max_due\<rparr>)"

definition sc_now :: "('q, instant) sched_op" where
  "sc_now = (\<lambda>s. (Inr (now_at (sc_env s) (now_count (sc_env s))), s\<lparr>sc_env := (sc_env s)\<lparr>now_count := Suc (now_count (sc_env s))\<rparr>\<rparr>))"

definition sc_new_id :: "('q, text_t) sched_op" where
  "sc_new_id = (\<lambda>s. (Inr (str_of_uuid (id_at (sc_env s) (id_count (sc_env s)))),
     s\<lparr>sc_env := (sc_env s)\<lparr>id_count := Suc (id_count (sc_env s))\<rparr>\<rparr>))"

definition sched_tz :: text_t where
  "sched_tz = ''schedule timestamps must be timezone-aware''"

definition sc_current :: "dt option \<Rightarrow> ('q, instant) sched_op" where
  "sc_current now = (case now of None \<Rightarrow> sc_now | Some d \<Rightarrow> from_sum (as_utc sched_tz d))"

text \<open>A call of the queue: its state changes, the scheduler's own state does not.\<close>

definition on_queue :: "('q, automation_error, 'a) prog \<Rightarrow> ('q, 'a) sched_op" where
  "on_queue m = (\<lambda>s. case m (sc_queue s) of (r, q) \<Rightarrow> (r, s\<lparr>sc_queue := q\<rparr>))"

definition require_schedule :: "text_t \<Rightarrow> ('q, AutomationSchedule) sched_op" where
  "require_schedule schedule_id =
     andThen (reads (\<lambda>s. map_of (sc_schedules s) schedule_id))
       (from_option (AutomationNotFoundError ''automation schedule was not found''))"

definition expression_of :: "text_t \<Rightarrow> ('q, CronExpression) sched_op" where
  "expression_of schedule_id =
     andThen (reads (\<lambda>s. map_of (sc_expressions s) schedule_id)) (from_option (PyKeyError schedule_id))"

definition put_schedule :: "AutomationSchedule \<Rightarrow> ('q, unit) sched_op" where
  "put_schedule sd = writes (sc_schedules_update (AList.update (sd_id sd) sd))"

definition put_fire :: "fire_key \<Rightarrow> ScheduleFire \<Rightarrow> ('q, unit) sched_op" where
  "put_fire key fire = writes (sc_fires_update (AList.update key fire))"

section \<open>Administration\<close>

type_synonym zones = "text_t \<Rightarrow> zone option"

definition add_schedule ::
  "zones \<Rightarrow> AutomationSchedule \<Rightarrow> dt option \<Rightarrow> dt option \<Rightarrow> ('q, AutomationSchedule) sched_op" where
  "add_schedule zones schedule next_run_at now =
     andThen (sc_current now) (\<lambda>current.
     andThen (from_sum (cron_parse (sd_cron schedule))) (\<lambda>expression.
     andThen (from_sum (next_after zones expression (Aware current) (sd_timezone schedule) search_window))
       (\<lambda>calculated_next.
     andThen (reads sc_schedules) (\<lambda>schedules.
     andThen (ensure (map_of schedules (sd_id schedule) = None)
       (AutomationConflictError ''schedule id already exists'')) (\<lambda>_.
     andThen (from_sum (case next_run_at of None \<Rightarrow> Inr calculated_next | Some d \<Rightarrow> as_utc sched_tz d)) (\<lambda>first.
     let stored = schedule\<lparr>sd_next_run_at := Some first, sd_created_at := current, sd_updated_at := current\<rparr> in
     andThen (put_schedule stored) (\<lambda>_.
     andThen (writes (sc_expressions_update (AList.update (sd_id stored) expression))) (\<lambda>_.
     ret stored))))))))"

definition get_schedule :: "text_t \<Rightarrow> ('q, AutomationSchedule) sched_op" where
  "get_schedule schedule_id = require_schedule schedule_id"

definition list_schedules :: "('q, AutomationSchedule list) sched_op" where
  "list_schedules = reads (\<lambda>s. sort_key (\<lambda>sd. (py_casefold (sd_name sd), sd_id sd)) (map snd (sc_schedules s)))"

definition list_fires :: "text_t option \<Rightarrow> ('q, ScheduleFire list) sched_op" where
  "list_fires schedule_id = reads (\<lambda>s. sort_key (\<lambda>f. (sf_scheduled_for f, sf_id f))
     (filter (\<lambda>f. schedule_id = None \<or> schedule_id = Some (sf_schedule_id f)) (map snd (sc_fires s))))"

text \<open>The flag is assigned before the next run is computed, which may raise.\<close>

definition set_enabled :: "zones \<Rightarrow> text_t \<Rightarrow> bool \<Rightarrow> dt option \<Rightarrow> ('q, AutomationSchedule) sched_op" where
  "set_enabled zones schedule_id enabled now =
     andThen (sc_current now) (\<lambda>current.
     andThen (require_schedule schedule_id) (\<lambda>sd.
     let sd = sd\<lparr>sd_enabled := enabled\<rparr> in
     andThen (put_schedule sd) (\<lambda>_.
     andThen
       (if enabled \<and> (case sd_next_run_at sd of None \<Rightarrow> True | Some t \<Rightarrow> t \<le> current) then
          andThen (expression_of schedule_id) (\<lambda>expression.
          andThen (from_sum (next_after zones expression (Aware current) (sd_timezone sd) search_window)) (\<lambda>t.
          ret (sd\<lparr>sd_next_run_at := Some t\<rparr>)))
        else ret sd) (\<lambda>sd.
     let sd = sd\<lparr>sd_version := sd_version sd + 1, sd_updated_at := current\<rparr> in
     andThen (put_schedule sd) (\<lambda>_.
     ret sd)))))"

section \<open>Firing\<close>

text \<open>\<open>xs[-n:]\<close> and \<open>xs[:-n]\<close>.\<close>

definition last_n :: "nat \<Rightarrow> 'a list \<Rightarrow> 'a list" where
  "last_n n xs = (if n = 0 then xs else drop (length xs - n) xs)"

definition but_last_n :: "nat \<Rightarrow> 'a list \<Rightarrow> 'a list" where
  "but_last_n n xs = (if n = 0 then [] else take (length xs - n) xs)"

definition apply_misfire_policy ::
  "AutomationSchedule \<Rightarrow> instant list \<Rightarrow> instant \<Rightarrow> instant list \<times> instant list" where
  "apply_misfire_policy sd due now =
     (if due = [] then ([], [])
      else case sd_misfire_policy sd of
        FireOnce \<Rightarrow> ([last due], butlast due)
      | CatchUpLimited \<Rightarrow> (last_n (sd_catch_up_limit sd) due, but_last_n (sd_catch_up_limit sd) due)
      | SkipMisfire \<Rightarrow>
          let cutoff = now - seconds (sd_misfire_grace_seconds sd) in
          (filter (\<lambda>t. cutoff \<le> t) due, filter (\<lambda>t. t < cutoff) due))"

definition cron_fire_key :: "text_t \<Rightarrow> instant \<Rightarrow> fire_key" where
  "cron_fire_key schedule_id scheduled_for = (schedule_id, ''cron:'' @ isoformat scheduled_for)"

definition record_fire ::
  "AutomationSchedule \<Rightarrow> instant \<Rightarrow> ScheduleFireStatus \<Rightarrow> instant \<Rightarrow> ('q, ScheduleFire option) sched_op" where
  "record_fire sd scheduled_for status now =
     (let key = cron_fire_key (sd_id sd) scheduled_for in
      andThen (reads (\<lambda>s. map_of (sc_fires s) key)) (\<lambda>known.
      if known \<noteq> None then ret None
      else
        andThen sc_new_id (\<lambda>i.
        let fire = \<lparr>sf_id = i, sf_schedule_id = sd_id sd, sf_scheduled_for = scheduled_for, sf_status = status,
                    sf_task_id = None, sf_created_at = now\<rparr> in
        andThen (put_fire key fire) (\<lambda>_.
        ret (Some fire)))))"

definition schedule_args :: "AutomationSchedule \<Rightarrow> text_t \<Rightarrow> instant \<Rightarrow> enqueue_args" where
  "schedule_args sd key available_at =
     \<lparr>ea_task_type = sd_task_type sd, ea_payload = sd_payload sd, ea_queue = sd_queue sd,
      ea_priority = sd_priority sd, ea_max_attempts = sd_max_attempts sd, ea_idempotency_key = Some key,
      ea_source_schedule_id = Some (sd_id sd), ea_available_at = Some (Aware available_at)\<rparr>"

text \<open>The body of the loop over the selected occurrences: the fires it appends to \<open>created\<close>.\<close>

definition fire_selected ::
  "'q TaskQueuePort \<Rightarrow> AutomationSchedule \<Rightarrow> instant \<Rightarrow> instant \<Rightarrow> ('q, ScheduleFire option) sched_op" where
  "fire_selected port sd now scheduled_for =
     (let key = cron_fire_key (sd_id sd) scheduled_for in
      andThen (reads (\<lambda>s. map_of (sc_fires s) key)) (\<lambda>known.
      if known \<noteq> None then ret None
      else
        andThen (on_queue (qp_active_for_schedule port (sd_id sd))) (\<lambda>active.
        if sd_overlap_policy sd = Forbid \<and> active \<noteq> [] then record_fire sd scheduled_for SkippedOverlap now
        else
          andThen
            (if sd_overlap_policy sd = Replace
             then for_each (\<lambda>t. andThen (on_queue (qp_request_cancel port (tk_id t) (Some (Aware now)))) (\<lambda>_. ret ())) active
             else ret ()) (\<lambda>_.
          andThen (on_queue (qp_enqueue port (schedule_args sd
            (''schedule:'' @ sd_id sd @ '':'' @ isoformat scheduled_for) scheduled_for))) (\<lambda>result.
          andThen sc_new_id (\<lambda>i.
          let fire = \<lparr>sf_id = i, sf_schedule_id = sd_id sd, sf_scheduled_for = scheduled_for, sf_status = Enqueued,
                      sf_task_id = Some (tk_id (er_task result)), sf_created_at = now\<rparr> in
          andThen (put_fire key fire) (\<lambda>_.
          ret (Some fire))))))))"

text \<open>The loop that collects the due occurrences; \<open>left\<close> is how many the limit still allows.\<close>

fun collect_due ::
  "(instant \<Rightarrow> automation_error + instant) \<Rightarrow> instant \<Rightarrow> nat \<Rightarrow> instant \<Rightarrow> automation_error + instant list \<times> instant" where
  "collect_due step now left cursor =
     (if cursor \<le> now then
        case left of
          0 \<Rightarrow> Inl (AutomationValidationError ''schedule exceeded the bounded catch-up window'')
        | Suc n \<Rightarrow>
            bind_sum (step cursor) (\<lambda>later.
            bind_sum (collect_due step now n later) (\<lambda>(due, cursor'). Inr (cursor # due, cursor')))
      else Inr ([], cursor))"

definition some_fires :: "ScheduleFire option list \<Rightarrow> ScheduleFire list" where
  "some_fires fs = concat (map (case_option [] (\<lambda>f. [f])) fs)"

definition fire_due_locked ::
  "'q TaskQueuePort \<Rightarrow> zones \<Rightarrow> AutomationSchedule \<Rightarrow> instant \<Rightarrow> ('q, ScheduleFire list) sched_op" where
  "fire_due_locked port zones sd now =
     andThen (expression_of (sd_id sd)) (\<lambda>expression.
     case sd_next_run_at sd of
       None \<Rightarrow> ret []
     | Some first \<Rightarrow>
         andThen (reads sc_max_due) (\<lambda>max_due.
         andThen (from_sum (collect_due
           (\<lambda>t. next_after zones expression (Aware t) (sd_timezone sd) search_window) now max_due first)) (\<lambda>(due, cursor).
         let (selected, skipped) = apply_misfire_policy sd due now in
         andThen (map_each (\<lambda>t. record_fire sd t SkippedMisfire now) skipped) (\<lambda>missed.
         andThen (map_each (fire_selected port sd now) selected) (\<lambda>fired.
         andThen (put_schedule (sd\<lparr>sd_last_run_at := Some (last due), sd_next_run_at := Some cursor,
           sd_version := sd_version sd + 1, sd_updated_at := now\<rparr>)) (\<lambda>_.
         ret (some_fires (missed @ fired))))))))"

definition due_schedule :: "instant \<Rightarrow> AutomationSchedule \<Rightarrow> bool" where
  "due_schedule now sd \<longleftrightarrow> sd_enabled sd \<and> (case sd_next_run_at sd of None \<Rightarrow> False | Some t \<Rightarrow> t \<le> now)"

definition due_order :: "instant \<Rightarrow> AutomationSchedule \<Rightarrow> instant \<times> text_t" where
  "due_order now sd = (case sd_next_run_at sd of None \<Rightarrow> now | Some t \<Rightarrow> t, sd_id sd)"

definition scheduler_tick ::
  "'q TaskQueuePort \<Rightarrow> zones \<Rightarrow> dt option \<Rightarrow> ('q, ScheduleFire list) sched_op" where
  "scheduler_tick port zones now =
     andThen (sc_current now) (\<lambda>current.
     andThen (reads (\<lambda>s. sort_key (due_order current) (filter (due_schedule current) (map snd (sc_schedules s))))) (\<lambda>due.
     andThen (map_each (\<lambda>sd. fire_due_locked port zones sd current) due) (\<lambda>created.
     ret (concat created))))"

definition run_now :: "'q TaskQueuePort \<Rightarrow> text_t \<Rightarrow> dt option \<Rightarrow> ('q, ScheduleFire) sched_op" where
  "run_now port schedule_id now =
     andThen (sc_current now) (\<lambda>current.
     andThen (require_schedule schedule_id) (\<lambda>sd.
     andThen sc_new_id (\<lambda>manual_id.
     andThen (on_queue (qp_enqueue port (schedule_args sd
       (''schedule-manual:'' @ sd_id sd @ '':'' @ manual_id) current))) (\<lambda>result.
     let fire = \<lparr>sf_id = manual_id, sf_schedule_id = sd_id sd, sf_scheduled_for = current, sf_status = Enqueued,
                 sf_task_id = Some (tk_id (er_task result)), sf_created_at = current\<rparr> in
     andThen (put_fire (sd_id sd, ''manual:'' @ manual_id) fire) (\<lambda>_.
     ret fire)))))"

end
