(* ===== verification/Cron_Properties.thy ===== *)
theory Cron_Properties
  imports Cron
begin

text \<open>
  Properties of cron expressions: what the searches return, that parsed fields lie in their
  ranges, and that the calendar check rejects exactly the expressions that never match.
\<close>

section \<open>The searches\<close>

text \<open>The UTC minutes of an interval, as instants.\<close>

definition fires_at :: "CronExpression \<Rightarrow> zone \<Rightarrow> instant \<Rightarrow> bool" where
  "fires_at e z t \<longleftrightarrow> t mod minute_us = 0 \<and> matches_in_zone e z t"

lemma minute_pos: "0 < minute_us"
  by (simp add: minute_us_def)

lemma minute_floor_mod: "minute_floor t mod minute_us = 0"
  by (simp add: minute_floor_def)

lemma minute_floor_bounds: "minute_floor t \<le> t" "t < minute_floor t + minute_us"
  using pos_mod_bound [OF minute_pos, of t] pos_mod_sign [OF minute_pos, of t] by (simp_all add: minute_floor_def)

lemma minute_index:
  assumes "a mod minute_us = 0" "b mod minute_us = 0" "a \<le> b"
  obtains i where "b = a + int i * minute_us"
proof (rule that [of "nat ((b - a) div minute_us)"])
  have "(b - a) mod minute_us = 0" using assms(1,2) by (simp add: mod_diff_eq [symmetric])
  then have "(b - a) div minute_us * minute_us = b - a" by (simp add: minus_mod_eq_div_mult [symmetric])
  moreover have "0 \<le> (b - a) div minute_us" using assms(3) minute_pos by (simp add: pos_imp_zdiv_nonneg_iff)
  ultimately show "b = a + int (nat ((b - a) div minute_us)) * minute_us" by simp
qed

lemma aligned_step: "a mod minute_us = 0 \<Longrightarrow> (a + int i * minute_us) mod minute_us = 0"
  by (simp add: mod_add_eq [symmetric])

lemma search_up:
  assumes "a mod minute_us = 0"
  shows "search (matches_in_zone e z) minute_us n a = Inr r \<longleftrightarrow>
    a \<le> r \<and> r < a + int n * minute_us \<and> fires_at e z r \<and> (\<forall>u. a \<le> u \<longrightarrow> u < r \<longrightarrow> \<not> fires_at e z u)"
    (is "?l = ?r")
proof
  assume ?l
  then obtain i where i: "i < n" "r = a + int i * minute_us" "matches_in_zone e z r"
    and none: "\<forall>j<i. \<not> matches_in_zone e z (a + int j * minute_us)"
    by (auto simp: search_Inr)
  have "\<not> fires_at e z u" if u: "a \<le> u" "u < r" for u
  proof
    assume "fires_at e z u"
    then obtain j where j: "u = a + int j * minute_us" "matches_in_zone e z u"
      using minute_index [OF assms _ u(1)] by (auto simp: fires_at_def)
    then have "j < i" using u(2) i(2) minute_pos by simp
    then show False using none j by blast
  qed
  then show ?r using i minute_pos aligned_step [OF assms] by (simp add: fires_at_def)
next
  assume r: ?r
  then have "r mod minute_us = 0" "a \<le> r" by (simp_all add: fires_at_def)
  then obtain i where i: "r = a + int i * minute_us" by (rule minute_index [OF assms])
  have "\<not> matches_in_zone e z (a + int j * minute_us)" if "j < i" for j
    using r that i minute_pos aligned_step [OF assms, of j] by (auto simp: fires_at_def)
  moreover have "i < n" using r i minute_pos by simp
  ultimately show ?l using r i by (auto simp: search_Inr fires_at_def)
qed

lemma search_down:
  assumes "a mod minute_us = 0"
  shows "search (matches_in_zone e z) (- minute_us) n a = Inr r \<longleftrightarrow>
    r \<le> a \<and> a - int n * minute_us < r \<and> fires_at e z r \<and> (\<forall>u. r < u \<longrightarrow> u \<le> a \<longrightarrow> \<not> fires_at e z u)"
    (is "?l = ?r")
proof
  assume ?l
  then obtain i where i: "i < n" "r = a - int i * minute_us" "matches_in_zone e z r"
    and none: "\<forall>j<i. \<not> matches_in_zone e z (a - int j * minute_us)"
    by (auto simp: search_Inr)
  have r: "r mod minute_us = 0" using i(2) assms by (simp add: mod_diff_eq [symmetric])
  have "\<not> fires_at e z u" if u: "r < u" "u \<le> a" for u
  proof
    assume f: "fires_at e z u"
    then obtain j where j: "a = u + int j * minute_us"
      using minute_index [OF _ assms u(2)] by (auto simp: fires_at_def)
    then have "j < i" using u(1) i(2) minute_pos by simp
    moreover have "u = a - int j * minute_us" using j by simp
    ultimately show False using none f by (auto simp: fires_at_def)
  qed
  then show ?r using i minute_pos r by (simp add: fires_at_def)
next
  assume r: ?r
  then have "r mod minute_us = 0" "r \<le> a" by (simp_all add: fires_at_def)
  then obtain i where i: "a = r + int i * minute_us" by (rule minute_index [OF _ assms])
  have "\<not> matches_in_zone e z (a - int j * minute_us)" if "j < i" for j
  proof -
    have "(a - int j * minute_us) mod minute_us = 0" using assms by (simp add: mod_diff_eq [symmetric])
    moreover have "r < a - int j * minute_us" using that i minute_pos by simp
    moreover have "a - int j * minute_us \<le> a" using minute_pos by simp
    ultimately show ?thesis using r by (auto simp: fires_at_def)
  qed
  moreover have "i < n" using r i minute_pos by simp
  ultimately show ?l using r i by (auto simp: search_Inr fires_at_def)
qed

definition next_fire :: "CronExpression \<Rightarrow> zone \<Rightarrow> instant \<Rightarrow> nat \<Rightarrow> instant \<Rightarrow> bool" where
  "next_fire e z t n r \<longleftrightarrow> t < r \<and> r \<le> minute_floor t + int n * minute_us \<and> fires_at e z r \<and>
     (\<forall>u. t < u \<longrightarrow> u < r \<longrightarrow> \<not> fires_at e z u)"

definition previous_fire :: "CronExpression \<Rightarrow> zone \<Rightarrow> instant \<Rightarrow> nat \<Rightarrow> instant \<Rightarrow> bool" where
  "previous_fire e z t n r \<longleftrightarrow> r \<le> t \<and> minute_floor t - int n * minute_us < r \<and> fires_at e z r \<and>
     (\<forall>u. r < u \<longrightarrow> u \<le> t \<longrightarrow> \<not> fires_at e z u)"

lemma aligned_above:
  assumes "u mod minute_us = 0"
  shows "t < u \<longleftrightarrow> minute_floor t + minute_us \<le> u"
proof
  assume "t < u"
  then have "minute_floor t < u" "minute_floor t \<le> u" using minute_floor_bounds(1) [of t] by linarith+
  then obtain i where i: "u = minute_floor t + int i * minute_us"
    using minute_index [OF minute_floor_mod assms] by blast
  with \<open>minute_floor t < u\<close> have "1 \<le> int i" by (cases i) simp_all
  then show "minute_floor t + minute_us \<le> u" using i minute_pos by simp
next
  assume "minute_floor t + minute_us \<le> u"
  then show "t < u" using minute_floor_bounds(2) [of t] by linarith
qed

lemma aligned_below: "u mod minute_us = 0 \<Longrightarrow> u \<le> t \<longleftrightarrow> u \<le> minute_floor t"
  using aligned_above [of u t] minute_floor_bounds(1) [of t] aligned_above [of "u" "minute_floor t"]
  by (auto simp: minute_floor_def)

lemma next_search:
  "search (matches_in_zone e z) minute_us n (minute_floor t + minute_us) = Inr r \<longleftrightarrow> next_fire e z t n r"
proof -
  let ?a = "minute_floor t + minute_us"
  have a: "?a mod minute_us = 0" using minute_floor_mod [of t] by simp
  have above: "?a \<le> u \<longleftrightarrow> t < u" if "fires_at e z u" for u
    using that aligned_above [of u t] by (simp add: fires_at_def)
  have last: "r < ?a + int n * minute_us \<longleftrightarrow> r \<le> minute_floor t + int n * minute_us" if "fires_at e z r"
  proof -
    have "(minute_floor t + int n * minute_us) mod minute_us = 0" by (rule aligned_step [OF minute_floor_mod])
    then have "minute_floor (minute_floor t + int n * minute_us) = minute_floor t + int n * minute_us"
      by (simp only: minute_floor_def [of "minute_floor t + int n * minute_us"] diff_0_right)
    then show ?thesis
      using aligned_above [of r "minute_floor t + int n * minute_us"] that by (auto simp: fires_at_def algebra_simps)
  qed
  show ?thesis
    unfolding search_up [OF a] next_fire_def using above last by blast
qed

lemma previous_search:
  "search (matches_in_zone e z) (- minute_us) n (minute_floor t) = Inr r \<longleftrightarrow> previous_fire e z t n r"
proof -
  have below: "u \<le> minute_floor t \<longleftrightarrow> u \<le> t" if "fires_at e z u" for u
    using that aligned_below [of u t] by (simp add: fires_at_def)
  show ?thesis
    unfolding search_down [OF minute_floor_mod] previous_fire_def using below by blast
qed

text \<open>C31: \<open>next_after\<close> returns an instant exactly when the zone is known and that instant is the first UTC
  minute after the given one, within the search window, at which the expression matches the
  local time; so it never returns a time that is not later, and never misses one.\<close>

theorem next_after_exact:
  "next_after zones e (Aware t) tz n = Inr r \<longleftrightarrow>
     (case zones tz of None \<Rightarrow> False | Some z \<Rightarrow> next_fire e z t n r)"
  by (simp add: next_after_def find_zone_def next_search split: option.split)

text \<open>\<open>previous_at_or_before\<close> returns an instant exactly when the zone is known and that instant is the
  last matching UTC minute at or before the given one, within the search window.\<close>

theorem previous_at_or_before_exact:
  "previous_at_or_before zones e (Aware t) tz n = Inr r \<longleftrightarrow>
     (case zones tz of None \<Rightarrow> False | Some z \<Rightarrow> previous_fire e z t n r)"
  by (simp add: previous_at_or_before_def find_zone_def previous_search split: option.split)

section \<open>Fields\<close>

lemma set_step_range:
  assumes "1 \<le> step" "start \<le> stop"
  shows "set (step_range start stop step) = {v. start \<le> v \<and> v \<le> stop \<and> (v - start) mod step = 0}"
proof (intro equalityI subsetI)
  fix v assume "v \<in> set (step_range start stop step)"
  then have "v \<in> (\<lambda>i. start + int i * step) ` {..<nat ((stop - start) div step + 1)}"
    by (simp add: step_range_def atLeast0LessThan)
  then obtain i where i: "v = start + int i * step" "i < nat ((stop - start) div step + 1)" by blast
  have "int i \<le> (stop - start) div step" using i(2) by linarith
  then have "int i * step \<le> (stop - start) div step * step" using assms(1) by (intro mult_right_mono) simp_all
  moreover have "(stop - start) div step * step \<le> stop - start" using assms(1) div_bounds [of step "stop - start"]
    by (simp add: mult.commute)
  ultimately have "start + int i * step \<le> stop" by linarith
  then show "v \<in> {v. start \<le> v \<and> v \<le> stop \<and> (v - start) mod step = 0}"
    using i(1) assms(1) by simp
next
  fix v assume v: "v \<in> {v. start \<le> v \<and> v \<le> stop \<and> (v - start) mod step = 0}"
  define i where "i = nat ((v - start) div step)"
  have "0 \<le> (v - start) div step" using v assms(1) by (simp add: pos_imp_zdiv_nonneg_iff)
  moreover have "(v - start) div step * step = v - start" using v by (simp add: minus_mod_eq_div_mult [symmetric])
  ultimately have "v = start + int i * step" by (simp add: i_def)
  moreover have "(v - start) div step \<le> (stop - start) div step" using v assms(1) by (intro zdiv_mono1) simp_all
  then have "i < nat ((stop - start) div step + 1)"
    using \<open>0 \<le> (v - start) div step\<close> by (simp add: i_def nat_less_eq_zless)
  ultimately show "v \<in> set (step_range start stop step)" by (auto simp: step_range_def)
qed

definition field_in_range :: "int \<Rightarrow> int \<Rightarrow> CronField \<Rightarrow> bool" where
  "field_in_range a b f \<longleftrightarrow> cf_values f \<noteq> {} \<and> cf_values f \<subseteq> {a..b} \<and> cf_wildcard f = (cf_values f = {a..b})"

lemma parse_part_range:
  assumes "parse_part a b sunday part = Inr vs" "a \<le> b" "sunday \<Longrightarrow> a = 0 \<and> b = 6"
  shows "vs \<noteq> [] \<and> set vs \<subseteq> {a..b}"
proof -
  obtain base sep words where p: "partition_at (CHR ''/'') part = (base, sep, words)" by (cases "partition_at (CHR ''/'') part")
  obtain step start stop where r: "parse_step sep words = Inr step" "part_bounds base sep a b = Inr (start, stop)"
    and range: "\<not> (start < a \<or> stop > (if sunday then 7 else b) \<or> start > stop)"
    and vs: "vs = map (\<lambda>item. if sunday \<and> item = 7 then 0 else item) (step_range start stop step)"
    using assms(1) unfolding parse_part_def p Let_def
    by (cases "parse_step sep words"; cases "part_bounds base sep a b") (simp_all split: if_splits prod.splits)
  have "1 \<le> step" using r(1) by (auto simp: parse_step_def bind_sum_Inr split: if_splits)
  with range have step: "1 \<le> step" "a \<le> start" "start \<le> stop" "stop \<le> (if sunday then 7 else b)" by auto
  have "start \<in> set (step_range start stop step)" using set_step_range [OF step(1,3)] step by simp
  then have "vs \<noteq> []" using vs by auto
  moreover have "set vs \<subseteq> {a..b}"
    using step assms(3) unfolding vs set_map set_step_range [OF step(1,3)] by (cases sunday) auto
  ultimately show ?thesis ..
qed

lemma field_parse_range:
  assumes "cron_field_parse s a b sunday = Inr f" "a \<le> b" "sunday \<Longrightarrow> a = 0 \<and> b = 6"
  shows "field_in_range a b f"
proof -
  from assms(1) obtain parts where parts: "map_result (parse_part a b sunday) (split_when (\<lambda>c. c = CHR '','') s) = Inr parts"
    and f: "f = \<lparr>cf_values = set (concat parts), cf_wildcard = (set (concat parts) = set [a..b])\<rparr>"
    by (auto simp: cron_field_parse_def bind_sum_Inr Let_def)
  have each: "p \<noteq> [] \<and> set p \<subseteq> {a..b}" if member: "p \<in> set parts" for p
  proof -
    obtain i where i: "i < length parts" "parts ! i = p" using member unfolding in_set_conv_nth by blast
    have "i < length (split_when (\<lambda>c. c = CHR '','') s)" using i(1) map_result_Inr_length [OF parts] by simp
    from map_result_Inr_nth [OF parts this] have "parse_part a b sunday (split_when (\<lambda>c. c = CHR '','') s ! i) = Inr p"
      unfolding i(2) .
    from parse_part_range [OF this assms(2,3)] show ?thesis by simp
  qed
  have "split_when (\<lambda>c. c = CHR '','') s \<noteq> []" by (cases s) (auto split: list.split)
  then have "parts \<noteq> []" using map_result_Inr_length [OF parts] by auto
  then have "set (concat parts) \<noteq> {}" using each by (cases parts) auto
  moreover have "set (concat parts) \<subseteq> {a..b}" using each by auto
  ultimately show ?thesis by (simp add: field_in_range_def f)
qed

definition fields_in_range :: "CronExpression \<Rightarrow> bool" where
  "fields_in_range e \<longleftrightarrow> field_in_range 0 59 (ce_minute e) \<and> field_in_range 0 23 (ce_hour e) \<and>
     field_in_range 1 31 (ce_day_of_month e) \<and> field_in_range 1 12 (ce_month e) \<and>
     field_in_range 0 6 (ce_day_of_week e)"

lemma field_valueD: "field_in_range a b f \<Longrightarrow> v \<in> cf_values f \<Longrightarrow> a \<le> v \<and> v \<le> b"
  by (auto simp: field_in_range_def simp del: Icc_eq_Icc)

lemma field_value:
  assumes "field_in_range a b f"
  obtains v where "v \<in> cf_values f" "a \<le> v" "v \<le> b"
  using assms field_valueD [OF assms] unfolding field_in_range_def by blast

lemma fields_rangeD:
  assumes "fields_in_range e"
  shows "field_in_range 0 59 (ce_minute e)" "field_in_range 0 23 (ce_hour e)"
    "field_in_range 1 31 (ce_day_of_month e)" "field_in_range 1 12 (ce_month e)"
    "field_in_range 0 6 (ce_day_of_week e)"
  using assms by (simp_all add: fields_in_range_def)

lemma cron_fields_range: "cron_fields s = Inr e \<Longrightarrow> fields_in_range e"
  by (auto simp: cron_fields_def bind_sum_Inr fields_in_range_def intro!: field_parse_range split: list.splits)

definition parsed_in_range :: "text_t \<Rightarrow> bool" where
  "parsed_in_range s \<longleftrightarrow> (case cron_parse s of Inl _ \<Rightarrow> True | Inr e \<Rightarrow> fields_in_range e)"

lemma cron_parse_Inr: "cron_parse s = Inr e \<longleftrightarrow> cron_fields s = Inr e \<and> calendar_feasible e"
  by (auto simp: cron_parse_def bind_sum_Inr)

section \<open>Dates that exist\<close>

text \<open>The months of the March-based year, as intervals of day numbers within it.\<close>

lemma twelve: "0 \<le> n \<Longrightarrow> n \<le> 11 \<Longrightarrow> n \<in> {0, 1, 2, 3, 4, 5, 6, 7, 8, 9, 10, 11 :: int}"
  by (simp, presburger)

lemma month_length:
  assumes "0 \<le> doy" "doy \<le> 365" and mp: "mp = (5 * doy + 2) div 153"
  shows "doy - (153 * mp + 2) div 5 + 1 \<le> maximum_day (if mp < 10 then mp + 3 else mp - 9)"
proof -
  have "5 * doy + 2 < 153 * mp + 153" using div_bounds [of 153 "5 * doy + 2"] by (simp add: mp)
  moreover have "mp \<in> {0, 1, 2, 3, 4, 5, 6, 7, 8, 9, 10, 11}"
    using month_bounds [OF assms(1,2)] unfolding mp by (intro twelve) simp_all
  ultimately show ?thesis using assms(2) by (elim insertE) (simp_all add: maximum_day_def)
qed

lemma civil_month_length:
  assumes "civil day = (y, m, d)"
  shows "d \<le> maximum_day m"
proof -
  define doe where "doe = (day + 719468) mod 146097"
  define doy where "doy = doe - year_start (year_of_era doe)"
  have "0 \<le> doy" "doy \<le> 365"
    unfolding doy_def using year_of_era_bounds [of doe] by (simp_all add: doe_def)
  from month_length [OF this refl] show ?thesis
    using assms unfolding civil_def Let_def doe_def [symmetric] doy_def [symmetric] by simp
qed

text \<open>The year from 1999-03-01 to 2000-02-29 has every day that exists in any year; \<open>10651\<close> is the number of its first day.\<close>

lemma leap_year_era:
  assumes "0 \<le> doy" "doy \<le> 365"
  shows "year_of_era (145731 + doy) = 399"
proof -
  have c: "3 \<le> (145731 + doy) div 36524" using zdiv_mono1 [of 145731 "145731 + doy" 36524] assms by simp
  have q: "(36159 + doy) div 1461 = 24" using assms by (intro int_div_pos_eq [of _ _ _ "1095 + doy"]) simp_all
  have "3 \<le> (1095 + doy) div 365" using zdiv_mono1 [of 1095 "1095 + doy" 365] assms by simp
  then show ?thesis using c q by (simp add: year_of_era_def Let_def algebra_simps)
qed

definition month_index :: "int \<Rightarrow> int" where
  "month_index m = (if m > 2 then m - 3 else m + 9)"

definition day_in_2000 :: "int \<Rightarrow> int \<Rightarrow> int" where
  "day_in_2000 m d = 10651 + (153 * month_index m + 2) div 5 + d - 1"

lemma civil_in_2000:
  assumes "1 \<le> m" "m \<le> 12" "1 \<le> d" "d \<le> maximum_day m"
  shows "\<exists>y. civil (day_in_2000 m d) = (y, m, d)"
proof -
  define doy where "doy = (153 * month_index m + 2) div 5 + d - 1"
  have m: "m - 1 \<in> {0, 1, 2, 3, 4, 5, 6, 7, 8, 9, 10, 11}" using assms by (intro twelve) simp_all
  then have m': "m \<in> {1, 2, 3, 4, 5, 6, 7, 8, 9, 10, 11, 12}" by auto
  have bounds: "0 \<le> doy" "doy \<le> 365"
    using m' assms(3,4) unfolding doy_def by (elim insertE; simp add: maximum_day_def month_index_def)+
  have mp: "(5 * doy + 2) div 153 = month_index m"
    by (rule int_div_pos_eq [of _ _ _ "5 * doy + 2 - 153 * month_index m"])
       (use m' assms(3,4) in \<open>elim insertE; simp add: maximum_day_def month_index_def doy_def\<close>)+
  have pos: "(145731 + doy) div 146097 = 0" "(145731 + doy) mod 146097 = 145731 + doy" using bounds by simp_all
  have "(day_in_2000 m d + 719468) div 146097 = 4" "(day_in_2000 m d + 719468) mod 146097 = 145731 + doy"
    using bounds by (auto intro!: int_div_pos_eq [of _ _ _ "145731 + doy"] int_mod_pos_eq [of _ _ 4] simp: day_in_2000_def doy_def)
  moreover have "year_start 399 = 145731" by (simp add: year_start_def)
  ultimately have "\<exists>y. civil (day_in_2000 m d) =
      (y, if month_index m < 10 then month_index m + 3 else month_index m - 9, doy - (153 * month_index m + 2) div 5 + 1)"
    using leap_year_era [OF bounds] mp by (simp add: civil_def Let_def)
  moreover have "(if month_index m < 10 then month_index m + 3 else month_index m - 9) = m"
    using assms(1,2) by (simp add: month_index_def)
  moreover have "doy - (153 * month_index m + 2) div 5 + 1 = d" by (simp add: doy_def)
  ultimately show ?thesis by simp
qed

text \<open>The local time at a minute of a day.\<close>

definition at_minute :: "int \<Rightarrow> int \<Rightarrow> int \<Rightarrow> instant" where
  "at_minute day h mi = day * day_us + (60 * h + mi) * minute_us"

lemma at_minute_fields:
  assumes "0 \<le> h" "h \<le> 23" "0 \<le> mi" "mi \<le> 59"
  shows "day_of (at_minute day h mi) = day" "dt_hour (at_minute day h mi) = h" "dt_minute (at_minute day h mi) = mi"
proof -
  define o' where "o' = (60 * h + mi) * minute_us"
  have o': "0 \<le> o'" "o' < day_us" using assms by (simp_all add: o'_def minute_us_def day_us_def)
  then show "day_of (at_minute day h mi) = day"
    by (simp add: day_of_def at_minute_def o'_def [symmetric] day_us_def)
  have "at_minute day h mi mod day_us = o'" using o' by (simp add: at_minute_def o'_def [symmetric])
  then show "dt_hour (at_minute day h mi) = h"
    unfolding dt_hour_def
    by (intro int_div_pos_eq [of _ _ _ "mi * minute_us"]) (use assms in \<open>simp_all add: o'_def minute_us_def\<close>)
  have "at_minute day h mi = (60 * minute_us) * (24 * day + h) + mi * minute_us"
    by (simp add: at_minute_def day_us_def minute_us_def)
  then have "at_minute day h mi mod (60 * minute_us) = mi * minute_us"
    by (rule int_mod_pos_eq) (use assms(3,4) in \<open>simp_all add: minute_us_def\<close>)
  then show "dt_minute (at_minute day h mi) = mi"
    unfolding dt_minute_def by (simp add: minute_us_def)
qed

lemma weekday_in_month:
  assumes "0 \<le> w" "w \<le> 6"
  shows "\<exists>d. 1 \<le> d \<and> d \<le> 7 \<and> (day_in_2000 m d + 4) mod 7 = w"
proof -
  define k where "k = day_in_2000 m 0 + 4"
  have "day_in_2000 m d + 4 = k + d" for d by (simp add: k_def day_in_2000_def)
  moreover have "\<exists>d. 1 \<le> d \<and> d \<le> 7 \<and> (k + d) mod 7 = w" using assms by presburger
  ultimately show ?thesis by simp
qed

text \<open>The instants of a \<open>datetime\<close> at which an expression matches.\<close>

definition ever_matches :: "CronExpression \<Rightarrow> bool" where
  "ever_matches e \<longleftrightarrow> (\<exists>t. dt_min \<le> t \<and> t \<le> dt_max \<and> local_match e t)"

lemma matching_day:
  assumes e: "fields_in_range e" and m: "m \<in> cf_values (ce_month e)" and d: "1 \<le> d" "d \<le> maximum_day m"
    and day: "if cf_wildcard (ce_day_of_month e) then (day_in_2000 m d + 4) mod 7 \<in> cf_values (ce_day_of_week e)
      else if cf_wildcard (ce_day_of_week e) then d \<in> cf_values (ce_day_of_month e)
      else d \<in> cf_values (ce_day_of_month e) \<or> (day_in_2000 m d + 4) mod 7 \<in> cf_values (ce_day_of_week e)"
  shows "ever_matches e"
proof -
  note ranges = fields_rangeD [OF e]
  obtain mi h where mi: "mi \<in> cf_values (ce_minute e)" and h: "h \<in> cf_values (ce_hour e)"
    and r: "0 \<le> h" "h \<le> 23" "0 \<le> mi" "mi \<le> 59"
    by (rule field_value [OF ranges(1)], rule field_value [OF ranges(2)]) blast
  have r': "1 \<le> m" "m \<le> 12" using field_valueD [OF ranges(4) m] by simp_all
  define t where "t = at_minute (day_in_2000 m d) h mi"
  obtain y where "civil (day_in_2000 m d) = (y, m, d)" using civil_in_2000 [OF r' d] ..
  moreover have "day_of t = day_in_2000 m d" "dt_hour t = h" "dt_minute t = mi"
    unfolding t_def by (rule at_minute_fields [OF r(1-4)])+
  moreover have "(dt_weekday t + 1) mod 7 = (day_of t + 4) mod 7" by (simp add: dt_weekday_def mod_simps add.commute)
  ultimately have "local_match e t"
    using mi h m day by (simp add: local_match_def Let_def dt_month_def dt_day_def)
  moreover have "dt_min \<le> t \<and> t \<le> dt_max"
  proof -
    have "d \<le> 31" using d(2) by (simp add: maximum_day_def split: if_splits)
    moreover have "0 \<le> month_index m \<and> month_index m \<le> 11" using r' by (simp add: month_index_def)
    then have "0 \<le> (153 * month_index m + 2) div 5 \<and> (153 * month_index m + 2) div 5 \<le> 337"
      using zdiv_mono1 [of "153 * month_index m + 2" 1685 5] by (simp add: pos_imp_zdiv_nonneg_iff)
    ultimately have "0 \<le> day_in_2000 m d \<and> day_in_2000 m d \<le> 12000" using d(1) by (simp add: day_in_2000_def)
    then show ?thesis
      using r(1-4) by (simp add: t_def at_minute_def dt_min_def dt_max_def day_us_def minute_us_def)
  qed
  ultimately show ?thesis unfolding ever_matches_def by blast
qed

lemma feasible_matches:
  assumes e: "fields_in_range e" and f: "calendar_feasible e"
  shows "ever_matches e"
proof (cases "cf_wildcard (ce_day_of_month e) \<or> \<not> cf_wildcard (ce_day_of_week e)")
  case True
  obtain m w where m: "m \<in> cf_values (ce_month e)" and w: "w \<in> cf_values (ce_day_of_week e)"
    and r: "1 \<le> m" "m \<le> 12" "0 \<le> w" "w \<le> 6"
    by (rule field_value [OF fields_rangeD(4) [OF e]], rule field_value [OF fields_rangeD(5) [OF e]]) blast
  obtain d where d: "1 \<le> d" "d \<le> 7" "(day_in_2000 m d + 4) mod 7 = w" using weekday_in_month [OF r(3,4)] by blast
  show ?thesis
    by (rule matching_day [OF e m d(1)]) (use d w True in \<open>auto simp: maximum_day_def\<close>)
next
  case False
  then obtain m d where "m \<in> cf_values (ce_month e)" "d \<in> cf_values (ce_day_of_month e)" "d \<le> maximum_day m"
    using f unfolding calendar_feasible_def by blast
  moreover have "1 \<le> d" using field_valueD [OF fields_rangeD(3) [OF e] \<open>d \<in> _\<close>] by simp
  ultimately show ?thesis using False by (intro matching_day [OF e]) auto
qed

lemma matches_feasible:
  assumes "ever_matches e"
  shows "calendar_feasible e"
proof -
  obtain t where t: "local_match e t" using assms unfolding ever_matches_def by blast
  obtain y m d where c: "civil (day_of t) = (y, m, d)" by (cases "civil (day_of t)") auto
  from t civil_month_length [OF c] show ?thesis
    unfolding local_match_def calendar_feasible_def Let_def dt_month_def dt_day_def c by (auto split: if_splits)
qed

definition calendar_check_exact :: "text_t \<Rightarrow> bool" where
  "calendar_check_exact s \<longleftrightarrow>
     (case cron_fields s of Inl x \<Rightarrow> cron_parse s = Inl x
      | Inr e \<Rightarrow> (if ever_matches e then cron_parse s = Inr e
          else cron_parse s = Inl (AutomationValidationError ''cron day-of-month never exists in the selected months'')))"

text \<open>C30: Parsing five fields yields, for each of them, a nonempty set of values inside the field's range, and
  the wildcard mark says exactly that every value of the range is selected; the Sunday alias 7 is
  never left in the set.\<close>

theorem parsed_fields_in_range: "parsed_in_range s"
  by (auto simp: parsed_in_range_def cron_parse_Inr intro: cron_fields_range split: sum.split)

text \<open>C29: The calendar check of \<open>parse\<close> is exact: among the expressions whose five fields parse, exactly those
  that match at no local time between the years 1 and 9999 are refused, each with the calendar
  error. A restricted day of the month that no selected month has is refused, unless a restricted
  weekday still matches.\<close>

theorem calendar_check_is_exact: "calendar_check_exact s"
proof (cases "cron_fields s")
  case (Inr e)
  have "ever_matches e = calendar_feasible e"
    using feasible_matches [OF cron_fields_range [OF Inr]] matches_feasible by blast
  then show ?thesis by (simp add: calendar_check_exact_def cron_parse_def Inr)
qed (simp add: calendar_check_exact_def cron_parse_def)

end
