(* ===== verification/Fire_Log.thy ===== *)
theory Fire_Log
  imports Scheduler Cron_Properties Task_Properties
begin

text \<open>
  What the scheduler records: the due occurrences a tick collects, the fires it appends to the
  log, and how a schedule advances.
\<close>

section \<open>Rules for the calls\<close>

abbreviation sc_tick :: "'q scheduler \<Rightarrow> 'q scheduler" where
  "sc_tick s \<equiv> s\<lparr>sc_env := (sc_env s)\<lparr>now_count := Suc (now_count (sc_env s))\<rparr>\<rparr>"

abbreviation sc_next_id :: "'q scheduler \<Rightarrow> 'q scheduler" where
  "sc_next_id s \<equiv> s\<lparr>sc_env := (sc_env s)\<lparr>id_count := Suc (id_count (sc_env s))\<rparr>\<rparr>"

abbreviation drawn_id :: "'q scheduler \<Rightarrow> text_t" where
  "drawn_id s \<equiv> str_of_uuid (id_at (sc_env s) (id_count (sc_env s)))"

lemma wp_sc_nowI [wp_intros]: "Q (now_at (sc_env s) (now_count (sc_env s))) (sc_tick s) \<Longrightarrow> wp sc_now Q E s"
  by (simp add: wp_def sc_now_def)

lemma wp_sc_new_idI [wp_intros]: "Q (drawn_id s) (sc_next_id s) \<Longrightarrow> wp sc_new_id Q E s"
  by (simp add: wp_def sc_new_id_def)

lemma wp_put_scheduleI [wp_intros]:
  "Q () (s\<lparr>sc_schedules := AList.update (sd_id sd) sd (sc_schedules s)\<rparr>) \<Longrightarrow> wp (put_schedule sd) Q E s"
  by (cases s) (simp add: put_schedule_def wp_writes)

lemma wp_put_fireI [wp_intros]:
  "Q () (s\<lparr>sc_fires := AList.update key f (sc_fires s)\<rparr>) \<Longrightarrow> wp (put_fire key f) Q E s"
  by (cases s) (simp add: put_fire_def wp_writes)

lemma wp_require_scheduleI [wp_intros]:
  "(\<And>e. map_of (sc_schedules s) k = None \<Longrightarrow> E e s) \<Longrightarrow> (\<And>d. map_of (sc_schedules s) k = Some d \<Longrightarrow> Q d s) \<Longrightarrow>
   wp (require_schedule k) Q E s"
  unfolding require_schedule_def by (intro wp_intros) simp_all

lemma wp_expression_ofI [wp_intros]:
  "(\<And>e. map_of (sc_expressions s) k = None \<Longrightarrow> E e s) \<Longrightarrow> (\<And>d. map_of (sc_expressions s) k = Some d \<Longrightarrow> Q d s) \<Longrightarrow>
   wp (expression_of k) Q E s"
  unfolding expression_of_def by (intro wp_intros) simp_all

lemma wp_sc_currentI [wp_intros]:
  "(\<And>e. E e s) \<Longrightarrow> (\<And>x. now = None \<Longrightarrow> Q x (sc_tick s)) \<Longrightarrow> (\<And>x. now = Some (Aware x) \<Longrightarrow> Q x s) \<Longrightarrow>
   wp (sc_current now) Q E s"
  unfolding sc_current_def by (cases now; cases "the now") (auto intro!: wp_intros)

lemma wp_on_queue [wp_simps]:
  "wp (on_queue m) Q E s = wp m (\<lambda>x q. Q x (s\<lparr>sc_queue := q\<rparr>)) (\<lambda>e q. E e (s\<lparr>sc_queue := q\<rparr>)) (sc_queue s)"
  by (auto simp: wp_def on_queue_def split: prod.split sum.split)

section \<open>Due occurrences\<close>

text \<open>
  The occurrences of a schedule due at \<open>now\<close>, when \<open>first\<close> is its recorded next run: \<open>first\<close> itself
  and every later fire time up to \<open>now\<close>; \<open>cursor\<close> is the first fire time after \<open>now\<close>.
\<close>

definition occurrences :: "CronExpression \<Rightarrow> zone \<Rightarrow> instant \<Rightarrow> instant \<Rightarrow> instant list \<Rightarrow> instant \<Rightarrow> bool" where
  "occurrences e z first now due cursor \<longleftrightarrow>
     sorted_wrt (<) due \<and> set due = insert first {t. first < t \<and> t \<le> now \<and> fires_at e z t} \<and>
     now < cursor \<and> fires_at e z cursor \<and> (\<forall>t. now < t \<longrightarrow> t < cursor \<longrightarrow> \<not> fires_at e z t)"

declare collect_due.simps [simp del]

lemma collect_due_stop: "now < cursor \<Longrightarrow> collect_due step now left cursor = Inr ([], cursor)"
  by (subst collect_due.simps) simp

lemma collect_due_go:
  "cursor \<le> now \<Longrightarrow> collect_due step now left cursor = Inr (due, c) \<longleftrightarrow>
     (\<exists>n later rest. left = Suc n \<and> step cursor = Inr later \<and> collect_due step now n later = Inr (rest, c) \<and>
        due = cursor # rest)"
  by (subst collect_due.simps) (cases left; cases "step cursor"; auto simp: bind_sum_Inr split: prod.split)

lemma collect_due_exact:
  assumes step: "\<And>t r. step t = Inr r \<Longrightarrow> next_fire e z t n r"
    and run: "collect_due step now left first = Inr (due, cursor)" and le: "first \<le> now"
  shows "occurrences e z first now due cursor \<and> length due \<le> left"
  using run le
proof (induction left arbitrary: first due)
  case 0
  then show ?case by (simp add: collect_due_go)
next
  case (Suc k)
  then obtain later rest where r: "step first = Inr later" "collect_due step now k later = Inr (rest, cursor)"
    "due = first # rest" by (auto simp: collect_due_go)
  have later: "first < later" "fires_at e z later" "\<And>u. first < u \<Longrightarrow> u < later \<Longrightarrow> \<not> fires_at e z u"
    using step [OF r(1)] by (simp_all add: next_fire_def)
  show ?case
  proof (cases "later \<le> now")
    case True
    then have o: "occurrences e z later now rest cursor" "length rest \<le> k" using Suc.IH [OF r(2)] by simp_all
    have "{t. first < t \<and> t \<le> now \<and> fires_at e z t} = insert later {t. later < t \<and> t \<le> now \<and> fires_at e z t}"
      using later True by (auto simp: not_less_iff_gr_or_eq) force
    then show ?thesis using o later r(3) unfolding occurrences_def by auto
  next
    case False
    then have "rest = []" "cursor = later" using r(2) by (simp_all add: collect_due_stop)
    moreover have "{t. first < t \<and> t \<le> now \<and> fires_at e z t} = {}" using later False by auto
    ultimately show ?thesis using later r(3) False Suc.prems(2) unfolding occurrences_def by auto
  qed
qed

section \<open>Misfires\<close>

lemma cut_sorted:
  "sorted_wrt (<) xs \<Longrightarrow> filter (\<lambda>t. t < c) xs @ filter (\<lambda>t. c \<le> t) xs = (xs :: instant list)"
proof (induction xs)
  case (Cons x xs)
  have "filter (\<lambda>t. t < c) xs = []" if "c \<le> x" using Cons.prems that by (force simp: filter_empty_conv)
  then show ?case using Cons by (cases "x < c") simp_all
qed simp

lemma misfire_order:
  assumes "sorted_wrt (<) due" "apply_misfire_policy sd due now = (selected, skipped)"
  shows "skipped @ selected = due"
  using assms cut_sorted [of due "now - seconds (sd_misfire_grace_seconds sd)"]
  by (auto simp: apply_misfire_policy_def last_n_def but_last_n_def Let_def split: if_splits MisfirePolicy.splits)

section \<open>The fire log\<close>

definition fire_entry :: "ScheduleFire \<Rightarrow> fire_key \<times> ScheduleFire" where
  "fire_entry f = (cron_fire_key (sf_schedule_id f) (sf_scheduled_for f), f)"

text \<open>A step that appends the fires \<open>fs\<close> to the log and leaves the schedules alone.\<close>

definition logs :: "ScheduleFire list \<Rightarrow> 'q scheduler \<Rightarrow> 'q scheduler \<Rightarrow> bool" where
  "logs fs s t \<longleftrightarrow> sc_schedules t = sc_schedules s \<and> sc_expressions t = sc_expressions s \<and>
     sc_max_due t = sc_max_due s \<and> sc_fires t = sc_fires s @ map fire_entry fs"

lemma logs_refl [simp]: "logs [] s s"
  by (simp add: logs_def)

lemma logs_trans: "logs fs s t \<Longrightarrow> logs gs t u \<Longrightarrow> logs (fs @ gs) s u"
  by (simp add: logs_def)

lemma logs_queue [simp]: "logs fs s (t\<lparr>sc_queue := q\<rparr>) = logs fs s t"
  by (simp add: logs_def)

lemma logs_env [simp]: "logs fs s (t\<lparr>sc_env := e\<rparr>) = logs fs s t"
  by (simp add: logs_def)

lemma logs_from_queue [simp]: "logs fs (s\<lparr>sc_queue := q\<rparr>) t = logs fs s t"
  by (simp add: logs_def)

definition recorded :: "'q scheduler \<Rightarrow> text_t \<Rightarrow> instant \<Rightarrow> bool" where
  "recorded s k u \<longleftrightarrow> map_of (sc_fires s) (cron_fire_key k u) \<noteq> None"

lemma recorded_logs: "recorded s k u \<Longrightarrow> logs fs s t \<Longrightarrow> recorded t k u"
  by (auto simp: recorded_def logs_def map_add_def split: option.splits)

text \<open>Fires as a tick leaves them: a task exactly for the enqueued ones.\<close>

definition fire_sound :: "AutomationSchedule \<Rightarrow> instant \<Rightarrow> ScheduleFireStatus set \<Rightarrow> instant \<Rightarrow> ScheduleFire \<Rightarrow> bool" where
  "fire_sound sd now statuses u f \<longleftrightarrow> sf_schedule_id f = sd_id sd \<and> sf_scheduled_for f = u \<and> sf_status f \<in> statuses \<and>
     sf_created_at f = now \<and> (sf_task_id f \<noteq> None) = (sf_status f = Enqueued)"

text \<open>
  What one occurrence comes to: nothing if the log has it already, else one new fire; in both
  cases the log then has it.
\<close>

definition one_fire ::
  "AutomationSchedule \<Rightarrow> instant \<Rightarrow> ScheduleFireStatus set \<Rightarrow> 'q scheduler \<Rightarrow> instant \<Rightarrow> ScheduleFire option \<Rightarrow> 'q scheduler \<Rightarrow> bool" where
  "one_fire sd now statuses s u r t \<longleftrightarrow>
     (if recorded s (sd_id sd) u then r = None \<and> logs [] s t
      else \<exists>f. r = Some f \<and> logs [f] s t \<and> fire_sound sd now statuses u f)"

lemma one_fire_known: "recorded s (sd_id sd) u \<Longrightarrow> one_fire sd now A s u None s"
  by (simp add: one_fire_def)

lemma one_fire_new:
  assumes "\<not> recorded s (sd_id sd) u" "fire_sound sd now A u f"
    and "sc_schedules t = sc_schedules s" "sc_expressions t = sc_expressions s" "sc_max_due t = sc_max_due s"
    and "sc_fires t = AList.update (cron_fire_key (sd_id sd) u) f (sc_fires s)"
  shows "one_fire sd now A s u (Some f) t"
  using assms by (simp add: one_fire_def recorded_def logs_def fire_entry_def fire_sound_def update_fresh map_of_eq_None_iff)

lemma one_fire_recorded: "one_fire sd now A s u r t \<Longrightarrow> recorded t (sd_id sd) u"
  by (cases "recorded s (sd_id sd) u")
     (auto simp: one_fire_def recorded_logs recorded_def logs_def fire_entry_def fire_sound_def map_add_def split: option.splits)

lemma one_fire_from: "logs [] s0 s \<Longrightarrow> one_fire sd now A s u r t \<Longrightarrow> one_fire sd now A s0 u r t"
  by (auto simp: one_fire_def recorded_def logs_def)

lemma one_fire_mono: "one_fire sd now A s u r t \<Longrightarrow> A \<subseteq> B \<Longrightarrow> one_fire sd now B s u r t"
  unfolding one_fire_def fire_sound_def by (auto split: if_splits)

lemma record_fire_wp:
  "wp (record_fire sd u st now) (\<lambda>r t. st \<noteq> Enqueued \<longrightarrow> one_fire sd now {st} s u r t) (\<lambda>_ _. False) s"
  unfolding record_fire_def Let_def
  by (intro wp_intros; auto simp: one_fire_known recorded_def fire_sound_def intro!: one_fire_new)

lemma on_queue_keeps: "(\<And>q x. Q x (s\<lparr>sc_queue := q\<rparr>)) \<Longrightarrow> (\<And>q e. E e (s\<lparr>sc_queue := q\<rparr>)) \<Longrightarrow> wp (on_queue m) Q E s"
  by (simp add: wp_on_queue) (simp add: wp_def split: prod.split sum.split)

lemma calls_log:
  assumes "logs [] s0 s"
  shows "wp (for_each (\<lambda>t. andThen (on_queue (c t)) (\<lambda>_. ret ())) ts) (\<lambda>_. logs [] s0) (\<lambda>_. logs [] s0) s"
  using assms by (rule wp_for_each) (intro wp_andThenI on_queue_keeps wp_retI; simp)

abbreviation selected_statuses :: "ScheduleFireStatus set" where
  "selected_statuses \<equiv> {Enqueued, SkippedOverlap}"

lemma fire_selected_wp:
  "wp (fire_selected port sd now u) (one_fire sd now selected_statuses s u) (\<lambda>_. logs [] s) s"
proof -
  let ?key = "cron_fire_key (sd_id sd) u"
  have fire: "wp (andThen (on_queue m) (\<lambda>result. andThen sc_new_id (\<lambda>i.
          let fire = \<lparr>sf_id = i, sf_schedule_id = sd_id sd, sf_scheduled_for = u, sf_status = Enqueued,
                      sf_task_id = Some (tk_id (er_task result)), sf_created_at = now\<rparr> in
          andThen (put_fire ?key fire) (\<lambda>_. ret (Some fire)))))
      (one_fire sd now selected_statuses s u) (\<lambda>_. logs [] s) t"
    if "map_of (sc_fires s) ?key = None" "logs [] s t" for m t
    by (intro wp_andThenI on_queue_keeps wp_sc_new_idI wp_letI wp_put_fireI wp_retI)
       (use that in \<open>auto intro!: one_fire_new simp: recorded_def fire_sound_def logs_def\<close>)
  have skip: "wp (record_fire sd u SkippedOverlap now) (one_fire sd now selected_statuses s u) (\<lambda>_. logs [] s) t"
    if "logs [] s t" for t
    by (rule wp_mono [OF record_fire_wp])
       (use that in \<open>auto intro: one_fire_mono one_fire_from\<close>)
  show ?thesis
    unfolding fire_selected_def Let_def [of "cron_fire_key (sd_id sd) u"]
    by (intro wp_andThenI wp_readsI wp_ifI wp_retI on_queue_keeps skip fire wp_mono [OF calls_log [of s]];
        simp add: one_fire_known recorded_def)
qed

section \<open>A schedule fires\<close>

lemma fires_wp:
  assumes step: "\<And>u s. wp (f u) (one_fire sd now A s u) (\<lambda>_. logs [] s) (s :: 'q scheduler)"
  shows "wp (map_each f us) (\<lambda>rs t. logs (some_fires rs) s t \<and> (\<forall>u \<in> set us. recorded t (sd_id sd) u) \<and>
      (\<forall>x \<in> set (some_fires rs). \<exists>u \<in> set us. fire_sound sd now A u x)) (\<lambda>_ t. \<exists>fs. logs fs s t) s"
proof (induction us arbitrary: s)
  case Nil
  then show ?case by (simp add: wp_simps some_fires_def)
next
  case (Cons u us)
  have "wp (map_each f us) (\<lambda>rs t'. logs (some_fires (r # rs)) s t' \<and> (\<forall>v \<in> set (u # us). recorded t' (sd_id sd) v) \<and>
      (\<forall>x \<in> set (some_fires (r # rs)). \<exists>v \<in> set (u # us). fire_sound sd now A v x)) (\<lambda>_ t'. \<exists>fs. logs fs s t') t"
    if one: "one_fire sd now A s u r t" for r t
  proof (rule wp_mono [OF Cons.IH])
    let ?fs = "case_option [] (\<lambda>x. [x]) r"
    have l: "logs ?fs s t" "\<forall>x \<in> set ?fs. fire_sound sd now A u x"
      using one by (auto simp: one_fire_def split: if_splits)
    have cons: "some_fires (r # rs) = ?fs @ some_fires rs" for rs by (simp add: some_fires_def)
    fix rs t' assume "logs (some_fires rs) t t' \<and> (\<forall>v \<in> set us. recorded t' (sd_id sd) v) \<and>
      (\<forall>x \<in> set (some_fires rs). \<exists>v \<in> set us. fire_sound sd now A v x)"
    then show "logs (some_fires (r # rs)) s t' \<and> (\<forall>v \<in> set (u # us). recorded t' (sd_id sd) v) \<and>
      (\<forall>x \<in> set (some_fires (r # rs)). \<exists>v \<in> set (u # us). fire_sound sd now A v x)"
      using l logs_trans [OF l(1)] recorded_logs [OF one_fire_recorded [OF one]] unfolding cons by auto
  next
    fix t' assume "\<exists>fs. logs fs t t'"
    then show "\<exists>fs. logs fs s t'" using one logs_trans unfolding one_fire_def by (metis (no_types))
  qed
  then show ?case
    unfolding map_each.simps
    by (intro wp_andThenI wp_mono [OF step [of u s]] wp_retI) (auto simp: wp_simps [abs_def])
qed

definition fire_as :: "AutomationSchedule \<Rightarrow> instant \<Rightarrow> instant list \<Rightarrow> ScheduleFire \<Rightarrow> bool" where
  "fire_as sd now due f \<longleftrightarrow> (case apply_misfire_policy sd due now of (selected, skipped) \<Rightarrow>
     (\<exists>u \<in> set selected. fire_sound sd now selected_statuses u f) \<or>
     (\<exists>u \<in> set skipped. fire_sound sd now {SkippedMisfire} u f))"

text \<open>The schedule after it fired the occurrences \<open>due\<close>.\<close>

definition advanced :: "zones \<Rightarrow> instant \<Rightarrow> AutomationSchedule \<Rightarrow> instant list \<Rightarrow> AutomationSchedule \<Rightarrow> bool" where
  "advanced zones now sd due sd' \<longleftrightarrow>
     (\<exists>first e z cursor. sd_next_run_at sd = Some first \<and> cron_parse (sd_cron sd) = Inr e \<and>
        zones (sd_timezone sd) = Some z \<and> occurrences e z first now due cursor \<and>
        sd' = sd\<lparr>sd_last_run_at := Some (last due), sd_next_run_at := Some cursor,
                 sd_version := sd_version sd + 1, sd_updated_at := now\<rparr>)"

definition settles ::
  "zones \<Rightarrow> instant \<Rightarrow> AutomationSchedule \<Rightarrow> 'q scheduler \<Rightarrow> ScheduleFire list \<Rightarrow> 'q scheduler \<Rightarrow> bool" where
  "settles zones now sd s fs t \<longleftrightarrow>
     (\<exists>due sd'. advanced zones now sd due sd' \<and> sc_schedules t = AList.update (sd_id sd) sd' (sc_schedules s) \<and>
        (\<forall>u \<in> set due. recorded t (sd_id sd) u) \<and> (\<forall>f \<in> set fs. fire_as sd now due f)) \<and>
     sc_expressions t = sc_expressions s \<and> sc_max_due t = sc_max_due s \<and> sc_fires t = sc_fires s @ map fire_entry fs"

text \<open>A schedule as the table holds it, with its parsed expression and a known zone.\<close>

definition wired :: "zones \<Rightarrow> 'q scheduler \<Rightarrow> AutomationSchedule \<Rightarrow> bool" where
  "wired zones s sd \<longleftrightarrow> (\<exists>e z. map_of (sc_expressions s) (sd_id sd) = Some e \<and> cron_parse (sd_cron sd) = Inr e \<and>
     zones (sd_timezone sd) = Some z)"

lemma next_after_known:
  "zones tz = Some z \<Longrightarrow> next_after zones e (Aware t) tz n = Inr r \<longleftrightarrow> next_fire e z t n r"
  by (simp add: next_after_def find_zone_def next_search)

lemma fire_due_wp:
  assumes "wired zones s sd" "due_schedule now sd"
  shows "wp (fire_due_locked port zones sd now) (settles zones now sd s) (\<lambda>_ t. \<exists>fs. logs fs s t) s"
proof -
  obtain e z where e: "map_of (sc_expressions s) (sd_id sd) = Some e" "cron_parse (sd_cron sd) = Inr e"
    "zones (sd_timezone sd) = Some z" using assms(1) unfolding wired_def by blast
  obtain first where first: "sd_next_run_at sd = Some first" "first \<le> now"
    using assms(2) by (auto simp: due_schedule_def split: option.splits)
  let ?step = "\<lambda>t. next_after zones e (Aware t) (sd_timezone sd) search_window"
  have fire: "wp (andThen (map_each (\<lambda>t. record_fire sd t SkippedMisfire now) skipped) (\<lambda>missed.
         andThen (map_each (fire_selected port sd now) selected) (\<lambda>fired.
         andThen (put_schedule (sd\<lparr>sd_last_run_at := Some (last due), sd_next_run_at := Some cursor,
           sd_version := sd_version sd + 1, sd_updated_at := now\<rparr>)) (\<lambda>_.
         ret (some_fires (missed @ fired)))))) (settles zones now sd s) (\<lambda>_ t. \<exists>fs. logs fs s t) s"
    if due: "collect_due ?step now (sc_max_due s) first = Inr (due, cursor)"
      and p: "apply_misfire_policy sd due now = (selected, skipped)" for due cursor selected skipped
  proof -
    have o: "occurrences e z first now due cursor"
      using collect_due_exact [OF _ due first(2)] next_after_known [of zones, OF e(3)] by blast
    then have "set due = set skipped \<union> set selected"
      using misfire_order [OF _ p] by (auto simp: occurrences_def simp flip: set_append)
    have finish: "settles zones now sd s (some_fires (missed @ fired)) (u\<lparr>sc_schedules := AList.update (sd_id sd) sd'
         (sc_schedules u)\<rparr>)" if "sd' = sd\<lparr>sd_last_run_at := Some (last due), sd_next_run_at := Some cursor,
           sd_version := sd_version sd + 1, sd_updated_at := now\<rparr>"
        and l: "logs (some_fires missed) s t" "logs (some_fires fired) t u"
        and r: "\<forall>v \<in> set skipped. recorded t (sd_id sd) v" "\<forall>v \<in> set selected. recorded u (sd_id sd) v"
        and f: "\<forall>x \<in> set (some_fires missed). \<exists>v \<in> set skipped. fire_sound sd now {SkippedMisfire} v x"
        "\<forall>x \<in> set (some_fires fired). \<exists>v \<in> set selected. fire_sound sd now selected_statuses v x" for missed fired t u sd'
    proof -
      have split: "some_fires (missed @ fired) = some_fires missed @ some_fires fired" by (simp add: some_fires_def)
      have "logs (some_fires (missed @ fired)) s u" unfolding split using l by (rule logs_trans)
      moreover have "\<forall>v \<in> set due. recorded u (sd_id sd) v" using r l(2) recorded_logs \<open>set due = _\<close> by blast
      moreover have "\<forall>x \<in> set (some_fires (missed @ fired)). fire_as sd now due x"
        using f unfolding fire_as_def split p by auto
      moreover have "advanced zones now sd due sd'" using e first o that(1) unfolding advanced_def by blast
      ultimately show ?thesis unfolding settles_def logs_def by (auto simp: recorded_def)
    qed
    have second: "wp (andThen (map_each (fire_selected port sd now) selected) (\<lambda>fired.
         andThen (put_schedule (sd\<lparr>sd_last_run_at := Some (last due), sd_next_run_at := Some cursor,
           sd_version := sd_version sd + 1, sd_updated_at := now\<rparr>)) (\<lambda>_.
         ret (some_fires (missed @ fired))))) (settles zones now sd s) (\<lambda>_ t. \<exists>fs. logs fs s t) t"
      if l: "logs (some_fires missed) s t" and r: "\<forall>v \<in> set skipped. recorded t (sd_id sd) v"
        and f: "\<forall>x \<in> set (some_fires missed). \<exists>v \<in> set skipped. fire_sound sd now {SkippedMisfire} v x" for missed t
    proof (intro wp_andThenI wp_mono [OF fires_wp, OF fire_selected_wp] wp_put_scheduleI wp_retI)
      fix u assume "\<exists>fs. logs fs t u"
      then show "\<exists>fs. logs fs s u" using logs_trans [OF l] by blast
    qed (use finish [OF _ l _ r _ f] in simp)
    show ?thesis
      by (rule wp_andThenI, rule wp_mono [OF fires_wp [where sd = sd and A = "{SkippedMisfire}" and now = now]])
         (auto intro!: second wp_mono [OF record_fire_wp])
  qed
  show ?thesis
    unfolding fire_due_locked_def
    by (intro wp_andThenI wp_expression_ofI wp_from_sumI wp_readsI wp_caseI wp_retI wp_case_pairI)
       (auto simp: e first intro!: exI [of _ "[]"] fire split: prod.split)
qed

section \<open>A tick\<close>

text \<open>The schedule \<open>sd\<close> fired: its due occurrences are recorded and it advanced past \<open>now\<close>.\<close>

definition served :: "zones \<Rightarrow> instant \<Rightarrow> AutomationSchedule \<Rightarrow> ScheduleFire list \<Rightarrow> 'q scheduler \<Rightarrow> bool" where
  "served zones now sd fs t \<longleftrightarrow>
     (\<exists>due sd'. advanced zones now sd due sd' \<and> map_of (sc_schedules t) (sd_id sd) = Some sd' \<and>
        (\<forall>u \<in> set due. recorded t (sd_id sd) u) \<and> (\<forall>f \<in> set fs. sf_schedule_id f = sd_id sd \<longrightarrow> fire_as sd now due f))"

definition accounts ::
  "zones \<Rightarrow> instant \<Rightarrow> AutomationSchedule list \<Rightarrow> 'q scheduler \<Rightarrow> ScheduleFire list \<Rightarrow> 'q scheduler \<Rightarrow> bool" where
  "accounts zones now sds s fs t \<longleftrightarrow>
     (\<forall>sd \<in> set sds. served zones now sd fs t) \<and>
     (\<forall>k. k \<notin> sd_id ` set sds \<longrightarrow> map_of (sc_schedules t) k = map_of (sc_schedules s) k) \<and>
     (\<forall>f \<in> set fs. sf_schedule_id f \<in> sd_id ` set sds) \<and>
     sc_fires t = sc_fires s @ map fire_entry fs \<and> sc_expressions t = sc_expressions s"

definition appends :: "'q scheduler \<Rightarrow> 'q scheduler \<Rightarrow> bool" where
  "appends s t \<longleftrightarrow> (\<exists>fs. sc_fires t = sc_fires s @ map fire_entry fs)"

lemma logs_appends: "\<exists>fs. logs fs s t \<Longrightarrow> appends s t"
  by (auto simp: appends_def logs_def)

lemma appends_trans: "appends s t \<Longrightarrow> appends t u \<Longrightarrow> appends s u"
  by (auto simp: appends_def simp flip: map_append)

lemma fire_as_schedule: "fire_as sd now due f \<Longrightarrow> sf_schedule_id f = sd_id sd"
  by (auto simp: fire_as_def fire_sound_def split: prod.splits)

lemma recorded_append: "recorded s k u \<Longrightarrow> sc_fires t = sc_fires s @ xs \<Longrightarrow> recorded t k u"
  by (auto simp: recorded_def map_add_def split: option.splits)

lemma accounts_Cons:
  assumes first: "settles zones now sd s fs t" and rest: "accounts zones now sds t gs u" and new: "sd_id sd \<notin> sd_id ` set sds"
  shows "accounts zones now (sd # sds) s (fs @ gs) u"
proof -
  obtain due sd' where a: "advanced zones now sd due sd'" "sc_schedules t = AList.update (sd_id sd) sd' (sc_schedules s)"
    "\<forall>v \<in> set due. recorded t (sd_id sd) v" "\<forall>f \<in> set fs. fire_as sd now due f"
    "sc_fires t = sc_fires s @ map fire_entry fs" "sc_expressions t = sc_expressions s"
    using first unfolding settles_def by blast
  note r = rest [unfolded accounts_def]
  have "served zones now sd (fs @ gs) u"
    unfolding served_def
  proof (intro exI conjI)
    show "map_of (sc_schedules u) (sd_id sd) = Some sd'" using r new a(2) by (simp add: update_conv')
    show "\<forall>v \<in> set due. recorded u (sd_id sd) v" using a(3) r recorded_append by blast
    show "\<forall>f \<in> set (fs @ gs). sf_schedule_id f = sd_id sd \<longrightarrow> fire_as sd now due f"
    proof (intro ballI impI)
      fix f assume "f \<in> set (fs @ gs)" "sf_schedule_id f = sd_id sd"
      then have "f \<in> set fs" using r new by (metis Un_iff set_append)
      then show "fire_as sd now due f" using a(4) by blast
    qed
  qed (rule a(1))
  moreover have "served zones now x (fs @ gs) u" if "x \<in> set sds" for x
  proof -
    have "sf_schedule_id f \<noteq> sd_id x" if "f \<in> set fs" for f
      using fire_as_schedule a(4) that new \<open>x \<in> set sds\<close> by (metis imageI)
    moreover have "served zones now x gs u" using r that by blast
    then obtain due sd' where "advanced zones now x due sd'" "map_of (sc_schedules u) (sd_id x) = Some sd'"
      "\<forall>v \<in> set due. recorded u (sd_id x) v" "\<forall>f \<in> set gs. sf_schedule_id f = sd_id x \<longrightarrow> fire_as x now due f"
      unfolding served_def by blast
    ultimately show ?thesis unfolding served_def set_append by blast
  qed
  moreover have "sf_schedule_id f \<in> sd_id ` set (sd # sds)" if "f \<in> set (fs @ gs)" for f
    using that fire_as_schedule a(4) r by auto
  moreover have "map_of (sc_schedules u) k = map_of (sc_schedules s) k" if "k \<notin> sd_id ` set (sd # sds)" for k
    using that r a(2) by (simp add: update_conv')
  ultimately show ?thesis using r a(5,6) unfolding accounts_def by simp
qed

lemma tick_loop:
  assumes "\<forall>sd \<in> set sds. wired zones s sd \<and> due_schedule now sd" "distinct (map sd_id sds)"
  shows "wp (map_each (\<lambda>sd. fire_due_locked port zones sd now) sds) (\<lambda>fss t. accounts zones now sds s (concat fss) t)
    (\<lambda>_. appends s) s"
  using assms
proof (induction sds arbitrary: s)
  case Nil
  then show ?case by (simp add: wp_simps accounts_def)
next
  case (Cons sd sds)
  have rest: "wp (map_each (\<lambda>sd. fire_due_locked port zones sd now) sds)
      (\<lambda>fss u. accounts zones now (sd # sds) s (concat (fs # fss)) u) (\<lambda>_. appends s) t" if "settles zones now sd s fs t" for fs t
  proof (rule wp_mono [OF Cons.IH])
    have "sc_expressions t = sc_expressions s" using that unfolding settles_def by blast
    then show "\<forall>sd \<in> set sds. wired zones t sd \<and> due_schedule now sd" using Cons.prems(1) by (simp add: wired_def)
    show "distinct (map sd_id sds)" using Cons.prems(2) by simp
    fix fss u assume "accounts zones now sds t (concat fss) u"
    with accounts_Cons [OF that] Cons.prems(2) show "accounts zones now (sd # sds) s (concat (fs # fss)) u" by simp
  next
    fix u assume "appends t u"
    moreover have "appends s t" using that unfolding settles_def appends_def by blast
    ultimately show "appends s u" using appends_trans by blast
  qed
  have "wired zones s sd" "due_schedule now sd" using Cons.prems(1) by simp_all
  from fire_due_wp [OF this] show ?case
    unfolding map_each.simps
    by (intro wp_andThenI wp_mono [OF fire_due_wp [OF \<open>wired zones s sd\<close> \<open>due_schedule now sd\<close>]] wp_retI wp_mono [OF rest])
       (auto intro: logs_appends)
qed

end
