(* ===== verification/Stepwise.thy ===== *)
theory Stepwise
  imports Prelude
begin

text \<open>
  Programs that relate their first state to their last by a preorder, whatever they return. The
  locale \<open>stepwise\<close> gives one rule per construct of a program; an interpretation on a preorder
  of a component's states proves it of each operation by \<open>intro steps_intros\<close>.
\<close>

named_theorems steps_intros

locale stepwise =
  fixes R :: "'s \<Rightarrow> 's \<Rightarrow> bool"
  assumes refl: "R s s" and trans: "R s t \<Longrightarrow> R t u \<Longrightarrow> R s u"
begin

definition steps :: "('s, 'e, 'a) prog \<Rightarrow> bool" where
  "steps m \<longleftrightarrow> (\<forall>s. R s (snd (m s)))"

lemma stepsD: "steps m \<Longrightarrow> R s (snd (m s))"
  by (simp add: steps_def)

lemma steps_wp: "steps m \<Longrightarrow> wp m (\<lambda>_. R s) (\<lambda>_. R s) s"
  by (simp add: wp_final stepsD)

lemma steps_still [steps_intros]:
  "steps (ret x)" "steps (raise e)" "steps (reads f)" "steps (from_sum r)" "steps (ensure b e)" "steps (from_option e r')"
  by (simp_all add: steps_def run_simps refl)

lemma steps_writes: "(\<And>s. R s (f s)) \<Longrightarrow> steps (writes f)"
  by (simp add: steps_def run_simps)

lemma steps_andThen [steps_intros]:
  assumes "steps m" "\<And>x. steps (k x)"
  shows "steps (andThen m k)"
  unfolding steps_def
proof
  fix s
  obtain r t where r: "m s = (r, t)" by (cases "m s")
  then have "R s t" using stepsD [OF assms(1), of s] by simp
  then show "R s (snd (andThen m k s))"
    using stepsD [OF assms(2)] trans by (cases r) (auto simp: run_andThen r)
qed

lemma steps_if [steps_intros]: "steps m \<Longrightarrow> steps n \<Longrightarrow> steps (if b then m else n)"
  by simp

lemma steps_let [steps_intros]: "(\<And>x. steps (f x)) \<Longrightarrow> steps (Let v f)"
  by simp

lemma steps_option [steps_intros]:
  "steps m \<Longrightarrow> (\<And>x. steps (g x)) \<Longrightarrow> steps (case r of None \<Rightarrow> m | Some x \<Rightarrow> g x)"
  by (simp split: option.split)

lemma steps_pair [steps_intros]: "(\<And>x y. steps (h x y)) \<Longrightarrow> steps (case p of (x, y) \<Rightarrow> h x y)"
  by (simp split: prod.split)

lemma steps_for_each [steps_intros]: "(\<And>x. steps (f x)) \<Longrightarrow> steps (for_each f xs)"
  by (induction xs) (auto intro!: steps_andThen steps_still)

lemma steps_map_each [steps_intros]: "(\<And>x. steps (f x)) \<Longrightarrow> steps (map_each f xs)"
  by (induction xs) (auto intro!: steps_andThen steps_still)

end

end
