(* ===== verification/Scheduler_Properties.thy ===== *)
theory Scheduler_Properties
  imports Fire_Log Stepwise
begin

text \<open>
  Histories of calls on a scheduler and its task queue, the invariant of the schedule table, and
  the properties of ticks over all histories.
\<close>

section \<open>The environment only advances\<close>

interpretation clock: stepwise "\<lambda>s t. env_le (sc_env s) (sc_env t)"
  by unfold_locales (auto intro: env_le_trans)

lemma clock_calls [steps_intros]:
  "clock.steps sc_now" "clock.steps sc_new_id" "clock.steps (put_schedule sd)" "clock.steps (put_fire key fire)"
  "clock.steps (writes (sc_expressions_update h))"
  by (auto simp: clock.steps_def run_simps sc_now_def sc_new_id_def put_schedule_def put_fire_def)

lemma clock_on_queue [steps_intros]: "clock.steps (on_queue m)"
  by (simp add: clock.steps_def on_queue_def split: prod.split)

lemma clock_helpers [steps_intros]:
  "clock.steps (sc_current now)" "clock.steps (require_schedule k)" "clock.steps (expression_of k)"
  unfolding sc_current_def require_schedule_def expression_of_def by (intro steps_intros)+

lemma clock_operations:
  "clock.steps (add_schedule zones sd first now)" "clock.steps (get_schedule k)" "clock.steps list_schedules"
  "clock.steps (list_fires k')" "clock.steps (set_enabled zones k b now)" "clock.steps (scheduler_tick port zones now)"
  "clock.steps (run_now port k now)"
  unfolding add_schedule_def get_schedule_def list_schedules_def list_fires_def set_enabled_def scheduler_tick_def run_now_def
    fire_due_locked_def fire_selected_def record_fire_def
  by (intro steps_intros)+

section \<open>Histories\<close>

text \<open>The task queue is shared: workers and other clients call it between the scheduler's calls.\<close>

datatype sched_request =
    AddRequest AutomationSchedule "dt option" "dt option"
  | GetScheduleRequest text_t
  | ListSchedulesRequest
  | ListFiresRequest "text_t option"
  | EnableRequest text_t bool "dt option"
  | TickRequest "dt option"
  | RunNowRequest text_t "dt option"
  | QueueCall queue_request

fun sched_serve ::
  "(text_t \<Rightarrow> text_t) \<Rightarrow> zones \<Rightarrow> sched_request \<Rightarrow> task_queue scheduler \<Rightarrow> task_queue scheduler" where
  "sched_serve digest zones (AddRequest sd first now) s = snd (add_schedule zones sd first now s)"
| "sched_serve digest zones (GetScheduleRequest k) s = snd (get_schedule k s)"
| "sched_serve digest zones ListSchedulesRequest s = snd (list_schedules s)"
| "sched_serve digest zones (ListFiresRequest k) s = snd (list_fires k s)"
| "sched_serve digest zones (EnableRequest k b now) s = snd (set_enabled zones k b now s)"
| "sched_serve digest zones (TickRequest now) s = snd (scheduler_tick (task_queue_port digest) zones now s)"
| "sched_serve digest zones (RunNowRequest k now) s = snd (run_now (task_queue_port digest) k now s)"
| "sched_serve digest zones (QueueCall r) s = s\<lparr>sc_queue := serve digest r (sc_queue s)\<rparr>"

text \<open>The states that a history of calls reaches from an empty scheduler over an empty queue.\<close>

definition start_scheduler :: "aenv \<Rightarrow> aenv \<Rightarrow> nat \<Rightarrow> task_queue scheduler" where
  "start_scheduler env queue_env max_due =
     \<lparr>sc_env = env, sc_queue = start_queue queue_env None, sc_schedules = [], sc_expressions = [], sc_fires = [],
      sc_max_due = Suc max_due\<rparr>"

definition sched_history ::
  "(text_t \<Rightarrow> text_t) \<Rightarrow> zones \<Rightarrow> aenv \<Rightarrow> aenv \<Rightarrow> nat \<Rightarrow> sched_request list \<Rightarrow> task_queue scheduler" where
  "sched_history digest zones env queue_env max_due rs =
     fold (sched_serve digest zones) rs (start_scheduler env queue_env max_due)"

section \<open>The schedule table\<close>

definition table_ok :: "zones \<Rightarrow> 'q scheduler \<Rightarrow> bool" where
  "table_ok zones s \<longleftrightarrow> distinct (map fst (sc_schedules s)) \<and>
     (\<forall>k sd. map_of (sc_schedules s) k = Some sd \<longrightarrow> sd_id sd = k \<and> wired zones s sd)"

lemma table_okD:
  assumes "table_ok zones s"
  shows "distinct (map fst (sc_schedules s))" "map_of (sc_schedules s) k = Some sd \<Longrightarrow> sd_id sd = k"
    "map_of (sc_schedules s) k = Some sd \<Longrightarrow> wired zones s sd"
  using assms unfolding table_ok_def by blast+

lemma table_okI:
  assumes "distinct (map fst (sc_schedules s))"
    and "\<And>k sd. map_of (sc_schedules s) k = Some sd \<Longrightarrow> sd_id sd = k \<and> wired zones s sd"
  shows "table_ok zones s"
  using assms unfolding table_ok_def by blast

lemma wired_same: "wired zones s sd \<Longrightarrow> sc_expressions t = sc_expressions s \<Longrightarrow> wired zones t sd"
  by (simp add: wired_def)

lemma table_same:
  assumes "table_ok zones s" "sc_schedules t = sc_schedules s" "sc_expressions t = sc_expressions s"
  shows "table_ok zones t"
  by (rule table_okI) (use table_okD [OF assms(1)] wired_same assms(2,3) in \<open>metis+\<close>)

text \<open>Replacing a schedule by one with the same identity, cron expression and zone.\<close>

lemma table_put:
  assumes "table_ok zones s" "map_of (sc_schedules s) (sd_id sd) = Some old"
    and "sd_cron sd = sd_cron old" "sd_timezone sd = sd_timezone old"
    and "sc_schedules t = AList.update (sd_id sd) sd (sc_schedules s)" "sc_expressions t = sc_expressions s"
  shows "table_ok zones t"
proof (rule table_okI)
  show "distinct (map fst (sc_schedules t))" using table_okD(1) [OF assms(1)] assms(5) by (simp add: distinct_update)
next
  fix k x assume "map_of (sc_schedules t) k = Some x"
  moreover have "wired zones t sd"
    using table_okD(2,3) [OF assms(1,2)] assms(3,4,6) by (simp add: wired_def)
  ultimately show "sd_id x = k \<and> wired zones t x"
    using table_okD(2,3) [OF assms(1), of k x] wired_same [OF _ assms(6)] assms(5)
    by (cases "k = sd_id sd") (simp_all add: update_conv')
qed

lemma table_add:
  assumes "table_ok zones s" "map_of (sc_schedules s) (sd_id sd) = None" "cron_parse (sd_cron sd) = Inr e"
    and "zones (sd_timezone sd) = Some z" "sc_schedules t = AList.update (sd_id sd) sd (sc_schedules s)"
    and "sc_expressions t = AList.update (sd_id sd) e (sc_expressions s)"
  shows "table_ok zones t"
proof (rule table_okI)
  show "distinct (map fst (sc_schedules t))" using table_okD(1) [OF assms(1)] assms(5) by (simp add: distinct_update)
next
  fix k x assume x: "map_of (sc_schedules t) k = Some x"
  show "sd_id x = k \<and> wired zones t x"
  proof (cases "k = sd_id sd")
    case True
    then show ?thesis using x assms(3-6) by (simp add: update_conv' wired_def)
  next
    case False
    then have "sd_id x = k" "wired zones s x" using table_okD(2,3) [OF assms(1), of k x] x assms(5) by (simp_all add: update_conv')
    then show ?thesis using False assms(6) by (simp add: wired_def update_conv')
  qed
qed

lemma next_after_zone: "next_after zones e t tz n = Inr r \<Longrightarrow> \<exists>z. zones tz = Some z"
  by (auto simp: next_after_def find_zone_def bind_sum_Inr split: option.splits)

lemma table_env [simp]: "table_ok zones (s\<lparr>sc_env := e\<rparr>) = table_ok zones s" "table_ok zones (s\<lparr>sc_queue := q\<rparr>) = table_ok zones s"
    "table_ok zones (s\<lparr>sc_fires := fs\<rparr>) = table_ok zones s"
  by (simp_all add: table_ok_def wired_def)

lemma table_set:
  assumes "table_ok zones s" "map_of (sc_schedules s) k = Some old" "sd_id sd = i" "sd_id old = i"
    and "sd_cron sd = sd_cron old" "sd_timezone sd = sd_timezone old"
  shows "table_ok zones (s\<lparr>sc_schedules := AList.update i sd (sc_schedules s)\<rparr>)"
proof -
  have "k = sd_id sd" using table_okD(2) [OF assms(1,2)] assms(3,4) by simp
  then show ?thesis using assms(2,3,5,6) by (intro table_put [OF assms(1), of sd old]) simp_all
qed

lemma table_insert:
  assumes "table_ok zones s" "map_of (sc_schedules s) i = None" "sd_id sd = i" "cron_parse (sd_cron sd) = Inr e"
    and "zones (sd_timezone sd) = Some z"
  shows "table_ok zones (sc_expressions_update (AList.update i e) (s\<lparr>sc_schedules := AList.update i sd (sc_schedules s)\<rparr>))"
  by (rule table_add [OF assms(1), of sd e z]) (use assms in simp_all)

lemma current_table:
  assumes "table_ok zones s" "\<And>x t. table_ok zones t \<Longrightarrow> wp (k x) (\<lambda>_. table_ok zones) (\<lambda>_. table_ok zones) t"
  shows "wp (andThen (sc_current now) k) (\<lambda>_. table_ok zones) (\<lambda>_. table_ok zones) s"
  using assms by (intro wp_andThenI wp_sc_currentI) simp_all

lemma add_table: "table_ok zones s \<Longrightarrow> wp (add_schedule zones sd first now) (\<lambda>_. table_ok zones) (\<lambda>_. table_ok zones) s"
  unfolding add_schedule_def
  by (intro current_table wp_intros; simp) (auto intro: table_insert dest!: next_after_zone)

lemma set_enabled_table: "table_ok zones s \<Longrightarrow> wp (set_enabled zones k b now) (\<lambda>_. table_ok zones) (\<lambda>_. table_ok zones) s"
  unfolding set_enabled_def
  by (intro current_table wp_intros; simp add: table_set)

lemma fire_due_table:
  assumes "table_ok zones s" "map_of (sc_schedules s) (sd_id sd) = Some sd" "due_schedule now sd"
  shows "wp (fire_due_locked port zones sd now) (\<lambda>_ t. table_ok zones t \<and>
      (\<forall>k. k \<noteq> sd_id sd \<longrightarrow> map_of (sc_schedules t) k = map_of (sc_schedules s) k)) (\<lambda>_. table_ok zones) s"
proof (rule wp_mono [OF fire_due_wp])
  show "wired zones s sd" using assms(1,2) by (rule table_okD(3))
  show "due_schedule now sd" by (rule assms(3))
next
  fix fs t assume "settles zones now sd s fs t"
  then obtain due sd' where t: "advanced zones now sd due sd'" "sc_schedules t = AList.update (sd_id sd) sd' (sc_schedules s)"
    "sc_expressions t = sc_expressions s" unfolding settles_def by blast
  then have "sd_id sd' = sd_id sd" "sd_cron sd' = sd_cron sd" "sd_timezone sd' = sd_timezone sd"
    unfolding advanced_def by auto
  then have "table_ok zones t" using t assms(2) by (intro table_put [OF assms(1), of sd' sd]) simp_all
  then show "table_ok zones t \<and> (\<forall>k. k \<noteq> sd_id sd \<longrightarrow> map_of (sc_schedules t) k = map_of (sc_schedules s) k)"
    using t(2) by (simp add: update_conv')
next
  fix t assume "\<exists>fs. logs fs s t"
  then show "table_ok zones t" using table_same [OF assms(1)] by (auto simp: logs_def)
qed

lemma tick_loop_table:
  assumes "table_ok zones s" "\<forall>sd \<in> set sds. map_of (sc_schedules s) (sd_id sd) = Some sd \<and> due_schedule now sd"
    and "distinct (map sd_id sds)"
  shows "wp (map_each (\<lambda>sd. fire_due_locked port zones sd now) sds) (\<lambda>_. table_ok zones) (\<lambda>_. table_ok zones) s"
  using assms
proof (induction sds arbitrary: s)
  case Nil
  then show ?case by (simp add: wp_simps)
next
  case (Cons sd sds)
  have "wp (map_each (\<lambda>sd. fire_due_locked port zones sd now) sds) (\<lambda>_. table_ok zones) (\<lambda>_. table_ok zones) t"
    if "table_ok zones t" "\<forall>k. k \<noteq> sd_id sd \<longrightarrow> map_of (sc_schedules t) k = map_of (sc_schedules s) k" for t
    by (rule Cons.IH) (use that Cons.prems in \<open>auto simp: image_iff\<close>)
  then show ?case
    unfolding map_each.simps using Cons.prems
    by (intro wp_andThenI wp_mono [OF fire_due_table [of zones s sd now]]) (auto simp: wp_ret [abs_def])
qed

text \<open>The schedules that a tick fires.\<close>

definition due_list :: "'q scheduler \<Rightarrow> instant \<Rightarrow> AutomationSchedule list" where
  "due_list s now = sort_key (due_order now) (filter (due_schedule now) (map snd (sc_schedules s)))"

lemma due_list_facts:
  assumes "table_ok zones s"
  shows "sd \<in> set (due_list s now) \<longleftrightarrow> map_of (sc_schedules s) (sd_id sd) = Some sd \<and> due_schedule now sd"
    and "distinct (map sd_id (due_list s now))"
proof -
  note keys = table_okD(1) [OF assms] and ids = table_okD(2) [OF assms]
  have stored: "sd_id (snd p) = fst p" if "p \<in> set (sc_schedules s)" for p
    using ids [of "fst p" "snd p"] map_of_SomeI [OF keys, of "fst p" "snd p"] that by simp
  show "sd \<in> set (due_list s now) \<longleftrightarrow> map_of (sc_schedules s) (sd_id sd) = Some sd \<and> due_schedule now sd"
  proof -
    have "sd \<in> snd ` set (sc_schedules s) \<longleftrightarrow> map_of (sc_schedules s) (sd_id sd) = Some sd"
    proof
      assume "sd \<in> snd ` set (sc_schedules s)"
      then obtain p where p: "p \<in> set (sc_schedules s)" "sd = snd p" by blast
      then have "(sd_id sd, sd) \<in> set (sc_schedules s)" using stored [OF p(1)] by (simp add: prod.collapse)
      then show "map_of (sc_schedules s) (sd_id sd) = Some sd" by (rule map_of_SomeI [OF keys])
    next
      assume "map_of (sc_schedules s) (sd_id sd) = Some sd"
      then show "sd \<in> snd ` set (sc_schedules s)" using map_of_SomeD by force
    qed
    then show ?thesis unfolding due_list_def by simp
  qed
  have same: "map sd_id (map snd (sc_schedules s)) = map fst (sc_schedules s)" using stored by simp
  have "distinct (map sd_id (map snd (sc_schedules s)))" unfolding same by (rule keys)
  then have "distinct (map sd_id (filter (due_schedule now) (map snd (sc_schedules s))))" by (rule distinct_map_filter)
  then show "distinct (map sd_id (due_list s now))"
    unfolding due_list_def by (simp add: distinct_map)
qed

lemma tick_unfold:
  "scheduler_tick port zones now = andThen (sc_current now) (\<lambda>current. andThen (reads (\<lambda>s. due_list s current)) (\<lambda>due.
     andThen (map_each (\<lambda>sd. fire_due_locked port zones sd current) due) (\<lambda>created. ret (concat created))))"
  by (simp add: scheduler_tick_def due_list_def)

lemma tick_table: "table_ok zones s \<Longrightarrow> wp (scheduler_tick port zones now) (\<lambda>_. table_ok zones) (\<lambda>_. table_ok zones) s"
  unfolding tick_unfold
  by (intro current_table wp_andThenI wp_readsI wp_mono [OF tick_loop_table] wp_retI) (simp_all add: due_list_facts)

lemma run_now_table: "table_ok zones s \<Longrightarrow> wp (run_now port k now) (\<lambda>_. table_ok zones) (\<lambda>_. table_ok zones) s"
  unfolding run_now_def
  by (intro current_table wp_intros on_queue_keeps; simp)

lemma reading_table:
  "table_ok zones s \<Longrightarrow> wp (get_schedule k) (\<lambda>_. table_ok zones) (\<lambda>_. table_ok zones) s"
  "table_ok zones s \<Longrightarrow> wp list_schedules (\<lambda>_. table_ok zones) (\<lambda>_. table_ok zones) s"
  "table_ok zones s \<Longrightarrow> wp (list_fires k') (\<lambda>_. table_ok zones) (\<lambda>_. table_ok zones) s"
  unfolding get_schedule_def list_schedules_def list_fires_def by (intro wp_intros; simp)+

lemmas operations_table = add_table set_enabled_table tick_table run_now_table reading_table

lemma serve_table: "table_ok zones s \<Longrightarrow> table_ok zones (sched_serve digest zones r s)"
  by (cases r) (simp_all add: operations_table [unfolded wp_final])

lemma history_table: "table_ok zones (sched_history digest zones env queue_env max_due rs)"
proof -
  have "table_ok zones (fold (sched_serve digest zones) rs s)" if "table_ok zones s" for s
    using that by (induction rs arbitrary: s) (simp_all add: serve_table)
  moreover have "table_ok zones (start_scheduler env queue_env max_due)"
    by (simp add: table_ok_def start_scheduler_def)
  ultimately show ?thesis by (simp add: sched_history_def)
qed

section \<open>What a tick does\<close>

text \<open>
  The account of a tick at \<open>now\<close>: if it returns, every enabled schedule that was due has a fire
  in the log for each of its due occurrences, as the misfire policy says, and its next run is the
  first fire time after \<open>now\<close>; the other schedules are unchanged; and the fires it returns are
  exactly those it appended to the log. If it raises, it has only appended to the log.
\<close>

definition tick_account :: "zones \<Rightarrow> instant \<Rightarrow> 'q scheduler \<Rightarrow> (automation_error + ScheduleFire list) \<times> 'q scheduler \<Rightarrow> bool" where
  "tick_account zones now s outcome \<longleftrightarrow> (case outcome of
       (Inl _, t) \<Rightarrow> appends s t
     | (Inr fs, t) \<Rightarrow> accounts zones now (due_list s now) s fs t)"

lemma tick_account_wp:
  assumes "table_ok zones s"
  shows "tick_account zones now s (scheduler_tick port zones (Some (Aware now)) s)"
proof -
  have "wp (scheduler_tick port zones (Some (Aware now))) (\<lambda>fs t. accounts zones now (due_list s now) s fs t) (\<lambda>_. appends s) s"
    unfolding tick_unfold
    by (intro wp_andThenI wp_sc_currentI wp_readsI wp_mono [OF tick_loop] wp_retI)
       (use due_list_facts [OF assms] table_okD(3) [OF assms] in \<open>auto simp: appends_def\<close>)
  then show ?thesis by (simp add: tick_account_def wp_def split: prod.splits sum.splits)
qed

section \<open>The log only grows\<close>

text \<open>Keys of cron fires, and keys of manual fires, which name an identifier drawn for them.\<close>

definition log_ok :: "'q scheduler \<Rightarrow> bool" where
  "log_ok s \<longleftrightarrow> (\<forall>(k, f) \<in> set (sc_fires s). (k, f) = fire_entry f \<or>
     sf_id f \<in> drawn_ids (sc_env s) \<and> k = (sf_schedule_id f, ''manual:'' @ sf_id f))"

definition log_grows :: "zones \<Rightarrow> 'q scheduler \<Rightarrow> 'q scheduler \<Rightarrow> bool" where
  "log_grows zones s t \<longleftrightarrow> env_le (sc_env s) (sc_env t) \<and>
     (table_ok zones s \<longrightarrow> log_ok s \<longrightarrow> env_ok (sc_env t) \<longrightarrow> log_ok t \<and> prefix (sc_fires s) (sc_fires t))"

lemma log_okD: "log_ok s \<Longrightarrow> (k, f) \<in> set (sc_fires s) \<Longrightarrow> (k, f) = fire_entry f \<or>
     sf_id f \<in> drawn_ids (sc_env s) \<and> k = (sf_schedule_id f, ''manual:'' @ sf_id f)"
  unfolding log_ok_def by fast

lemma log_ok_mono: "log_ok s \<Longrightarrow> env_le (sc_env s) (sc_env t) \<Longrightarrow> sc_fires t = sc_fires s \<Longrightarrow> log_ok t"
  using drawn_mono unfolding log_ok_def by fastforce

lemma log_grows_appends:
  assumes "env_le (sc_env s) (sc_env t)" "table_ok zones s \<Longrightarrow> appends s t"
  shows "log_grows zones s t"
proof -
  have "log_ok t \<and> prefix (sc_fires s) (sc_fires t)" if log: "log_ok s" and app: "appends s t"
  proof -
    obtain fs where "sc_fires t = sc_fires s @ map fire_entry fs" using app unfolding appends_def by blast
    moreover have "fire_entry f = fire_entry (snd (fire_entry f))" for f by (simp add: fire_entry_def)
    ultimately show ?thesis
      using log_ok_mono [OF log, of "t\<lparr>sc_fires := sc_fires s\<rparr>"] assms(1)
      by (auto simp: log_ok_def fire_entry_def)
  qed
  then show ?thesis using assms unfolding log_grows_def by blast
qed

lemma log_same: "sc_fires t = sc_fires s \<Longrightarrow> appends s t"
  by (simp add: appends_def exI [of _ "[]"])

lemma untouched_log:
  "wp (add_schedule zones sd first now) (\<lambda>_. appends s) (\<lambda>_. appends s) s"
  "wp (set_enabled zones k b now) (\<lambda>_. appends s) (\<lambda>_. appends s) s"
  "wp (get_schedule k) (\<lambda>_. appends s) (\<lambda>_. appends s) s"
  "wp list_schedules (\<lambda>_. appends s) (\<lambda>_. appends s) s"
  "wp (list_fires k') (\<lambda>_. appends s) (\<lambda>_. appends s) s"
  unfolding add_schedule_def set_enabled_def get_schedule_def list_schedules_def list_fires_def
  by (intro wp_intros; simp add: log_same)+

lemma tick_appends:
  assumes "table_ok zones s"
  shows "wp (scheduler_tick port zones now) (\<lambda>_. appends s) (\<lambda>_. appends s) s"
proof -
  have loop: "wp (map_each (\<lambda>sd. fire_due_locked port zones sd x) (due_list t x)) (\<lambda>_. appends s) (\<lambda>_. appends s) t"
    if t: "table_ok zones t" "sc_fires t = sc_fires s" for t x
    by (rule wp_mono [OF tick_loop [of "due_list t x" zones t x port]])
       (use due_list_facts [OF t(1)] table_okD(3) [OF t(1)] t(2) in \<open>auto simp: accounts_def appends_def\<close>)
  have current: "wp (sc_current now) (\<lambda>_ t. table_ok zones t \<and> sc_fires t = sc_fires s) (\<lambda>_. appends s) s"
    using assms by (intro wp_sc_currentI) (simp_all add: log_same)
  show ?thesis
    unfolding tick_unfold
    by (intro wp_andThenI wp_mono [OF current] wp_readsI wp_mono [OF loop]) (simp_all add: wp_ret [abs_def])
qed

lemma current_from:
  assumes "R s" "R (sc_tick s)" "\<And>e. E e s" "\<And>x t. R t \<Longrightarrow> wp (k x) Q E t"
  shows "wp (andThen (sc_current now) k) Q E s"
  using assms by (intro wp_andThenI wp_sc_currentI) simp_all

lemma run_now_log: "wp (run_now port k now) (\<lambda>_. log_grows zones s) (\<lambda>_. log_grows zones s) s"
proof -
  have new: "log_grows zones s t" if t: "sc_fires t = AList.update (sf_schedule_id f, ''manual:'' @ sf_id f) f (sc_fires s)"
    and f: "sf_id f = drawn_id u" and env: "sc_env t = sc_env (sc_next_id u)" and u: "env_le (sc_env s) (sc_env u)" for f t u
  proof -
    have le: "env_le (sc_env s) (sc_env t)" using env_le_trans [OF u env_le_draw(2)] env by simp
    have "log_ok t \<and> prefix (sc_fires s) (sc_fires t)" if log: "log_ok s" and ok: "env_ok (sc_env t)"
    proof -
      let ?k = "(sf_schedule_id f, ''manual:'' @ sf_id f)"
      have "sf_id f \<notin> drawn_ids (sc_env u)" using fresh_id [of "sc_env u"] ok f env by simp
      then have fresh: "sf_id f \<notin> drawn_ids (sc_env s)" using drawn_mono [OF u] by blast
      have "?k \<notin> fst ` set (sc_fires s)"
      proof
        assume "?k \<in> fst ` set (sc_fires s)"
        then obtain g where "(?k, g) \<in> set (sc_fires s)" by force
        from log_okD [OF log this] show False using fresh by (auto simp: fire_entry_def cron_fire_key_def)
      qed
      then have fires: "sc_fires t = sc_fires s @ [(?k, f)]" using t by (simp add: update_fresh)
      have "sf_id f \<in> drawn_ids (sc_env t)" using f env by (simp add: drawn_ids_def)
      moreover have "log_ok (t\<lparr>sc_fires := sc_fires s\<rparr>)" by (rule log_ok_mono [OF log]) (use le in simp_all)
      ultimately show ?thesis unfolding fires log_ok_def by simp
    qed
    then show ?thesis using le unfolding log_grows_def by blast
  qed
  have same: "log_grows zones s t" if "sc_fires t = sc_fires s" "env_le (sc_env s) (sc_env t)" for t
    using that by (intro log_grows_appends log_same)
  have call: "wp (andThen (require_schedule k) (\<lambda>sd.
      andThen sc_new_id (\<lambda>manual_id.
      andThen (on_queue (qp_enqueue port (schedule_args sd (''schedule-manual:'' @ sd_id sd @ '':'' @ manual_id) x))) (\<lambda>result.
      andThen (put_fire (sd_id sd, ''manual:'' @ manual_id) (fire sd manual_id result)) (\<lambda>_. ret (fire sd manual_id result))))))
      (\<lambda>_. log_grows zones s) (\<lambda>_. log_grows zones s) u"
    if "sc_fires u = sc_fires s" "env_le (sc_env s) (sc_env u)"
      "\<And>sd i r. sf_id (fire sd i r) = i \<and> sf_schedule_id (fire sd i r) = sd_id sd" for u x fire
  proof (intro wp_intros on_queue_keeps)
    fix d q y assume "map_of (sc_schedules u) k = Some d"
    show "log_grows zones s (sc_next_id u\<lparr>sc_queue := q, sc_fires := AList.update (sd_id d, ''manual:'' @ drawn_id u)
        (fire d (drawn_id u) y) (sc_fires (sc_next_id u\<lparr>sc_queue := q\<rparr>))\<rparr>)"
      by (rule new [where u = u and f = "fire d (drawn_id u) y"]) (use that in simp_all)
  next
    fix d q assume "map_of (sc_schedules u) k = Some d"
    show "log_grows zones s (sc_next_id u\<lparr>sc_queue := q\<rparr>)"
      by (rule same) (use that env_le_trans [OF that(2) env_le_draw(2)] in simp_all)
  qed (use that same in auto)
  show ?thesis
    unfolding run_now_def Let_def
    by (rule current_from [where R = "\<lambda>u. sc_fires u = sc_fires s \<and> env_le (sc_env s) (sc_env u)"];
        (rule call)?; simp add: same)
qed

lemma grows_op:
  assumes "clock.steps m" "table_ok zones s \<Longrightarrow> wp m (\<lambda>_. appends s) (\<lambda>_. appends s) s"
  shows "log_grows zones s (snd (m s))"
  using assms by (intro log_grows_appends) (simp_all add: clock.stepsD wp_final)

lemma serve_grows: "log_grows zones s (sched_serve digest zones r s)"
proof (cases r)
  case (RunNowRequest k now)
  then show ?thesis using run_now_log [of "task_queue_port digest" k now zones s] by (simp add: wp_final)
next
  case (QueueCall r')
  then show ?thesis by (simp add: log_grows_appends log_same)
qed (simp_all add: grows_op clock_operations untouched_log tick_appends)

lemma log_grows_history:
  assumes "table_ok zones s"
  shows "log_grows zones s (fold (sched_serve digest zones) rs s)"
  using assms
proof (induction rs arbitrary: s)
  case Nil
  then show ?case by (simp add: log_grows_def)
next
  case (Cons r rs)
  from Cons.IH [OF serve_table [OF Cons.prems], of digest r] serve_grows [of zones s digest r] serve_table [OF Cons.prems, of digest r]
  show ?case
    unfolding log_grows_def fold_simps comp_apply
    by (meson env_le_trans env_ok_mono prefix_order.trans)
qed

section \<open>A sample schedule\<close>

definition every_minute :: CronExpression where
  "every_minute = \<lparr>ce_minute = \<lparr>cf_values = {0..59}, cf_wildcard = True\<rparr>, ce_hour = \<lparr>cf_values = {0..23}, cf_wildcard = True\<rparr>,
     ce_day_of_month = \<lparr>cf_values = {1..31}, cf_wildcard = True\<rparr>, ce_month = \<lparr>cf_values = {1..12}, cf_wildcard = True\<rparr>,
     ce_day_of_week = \<lparr>cf_values = {0..6}, cf_wildcard = True\<rparr>\<rparr>"

lemma star_field:
  assumes "a \<le> b" "sunday \<Longrightarrow> b < 7"
  shows "cron_field_parse ''*'' a b sunday = Inr \<lparr>cf_values = {a..b}, cf_wildcard = True\<rparr>"
proof -
  have "step_range a b 1 = [a..b]" using assms(1) by (intro nth_equalityI) (simp_all add: step_range_def)
  then have "parse_part a b sunday ''*'' = Inr [a..b]"
    using assms by (auto simp: parse_part_def partition_at_def parse_step_def part_bounds_def Let_def intro: map_idI)
  then show ?thesis unfolding cron_field_parse_def by simp
qed

lemma every_minute_parse: "cron_parse ''* * * * *'' = Inr every_minute"
proof -
  have w: "py_words ''* * * * *'' = [''*'', ''*'', ''*'', ''*'', ''*'']" by code_simp
  show ?thesis unfolding cron_parse_def cron_fields_def w by (simp add: star_field calendar_feasible_def every_minute_def)
qed

lemma every_minute_matches: "local_match every_minute t"
proof -
  have "0 \<le> dt_minute t \<and> dt_minute t \<le> 59"
    using div_bounds [of 60000000 "t mod 3600000000"] pos_mod_bound [of 3600000000 t] pos_mod_sign [of 3600000000 t]
    by (simp add: dt_minute_def minute_us_def pos_imp_zdiv_nonneg_iff)
  moreover have "0 \<le> dt_hour t \<and> dt_hour t \<le> 23"
    using div_bounds [of 3600000000 "t mod 86400000000"] pos_mod_bound [of 86400000000 t] pos_mod_sign [of 86400000000 t]
    by (simp add: dt_hour_def minute_us_def day_us_def pos_imp_zdiv_nonneg_iff)
  moreover have "1 \<le> dt_month t \<and> dt_month t \<le> 12 \<and> 1 \<le> dt_day t \<and> dt_day t \<le> 31"
    unfolding dt_month_def dt_day_def by (rule civil_month_day_range [of _ "fst (civil (day_of t))"]) simp
  moreover have "(dt_weekday t + 1) mod 7 < 7" by simp
  ultimately show ?thesis by (simp add: local_match_def every_minute_def Let_def)
qed

lemma every_minute_next:
  assumes "zones tz = Some z"
  shows "next_after zones every_minute (Aware t) tz search_window = Inr (minute_floor t + minute_us)"
proof -
  obtain k where k: "search_window = Suc k" by (simp add: search_window_def)
  show ?thesis using assms unfolding k by (simp add: next_after_def find_zone_def matches_in_zone_def every_minute_matches)
qed

definition demo_zones :: zones where
  "demo_zones = (\<lambda>name. if name = ''UTC'' then Some (\<lambda>_. 0) else None)"

definition demo_schedule :: "text_t \<Rightarrow> AutomationSchedule" where
  "demo_schedule k = \<lparr>sd_id = k, sd_name = ''nightly'', sd_task_type = ''run'', sd_payload = JObj [], sd_queue = ''default'',
     sd_priority = 50, sd_max_attempts = 3, sd_cron = ''* * * * *'', sd_timezone = ''UTC'', sd_misfire_policy = FireOnce,
     sd_overlap_policy = Forbid, sd_misfire_grace_seconds = 60, sd_catch_up_limit = 3, sd_enabled = True,
     sd_next_run_at = None, sd_last_run_at = None, sd_version = 0, sd_created_at = 0, sd_updated_at = 0\<rparr>"

definition add_demo :: "text_t \<Rightarrow> int \<Rightarrow> sched_request" where
  "add_demo k minute = AddRequest (demo_schedule k) (Some (Aware (minute * minute_us))) (Some (Aware 0))"

definition demo_start :: "nat \<Rightarrow> task_queue scheduler" where
  "demo_start n = sched_history (\<lambda>_. ''d'') demo_zones demo_env demo_env n []"

lemma add_demo_result:
  assumes "map_of (sc_schedules s) k = None"
  shows "sched_serve digest demo_zones (add_demo k m) s =
    s\<lparr>sc_schedules := AList.update k ((demo_schedule k)\<lparr>sd_next_run_at := Some (m * minute_us)\<rparr>) (sc_schedules s),
      sc_expressions := AList.update k every_minute (sc_expressions s)\<rparr>"
proof -
  have n: "next_after demo_zones every_minute (Aware 0) ''UTC'' search_window = Inr minute_us"
    by (subst every_minute_next [of _ _ "\<lambda>_. 0"]) (simp_all add: demo_zones_def minute_floor_def)
  show ?thesis
    by (cases s) (use assms in \<open>simp add: add_demo_def add_schedule_def run_simps sc_current_def demo_schedule_def
      every_minute_parse n put_schedule_def Let_def\<close>)
qed

section \<open>Properties\<close>

text \<open>C25: In every history, a tick accounts for every occurrence: when it returns, each enabled schedule
  whose next run had come has a fire in the log for its recorded next run and for every later fire
  time up to now, skipped or fired as its misfire policy says; its next run is the first fire time
  after now; other schedules are unchanged; and the tick returns exactly the fires it appended to
  the log. When it raises, it has only appended to the log.\<close>

theorem tick_accounts:
  "tick_account zones now (sched_history digest zones env queue_env max_due rs)
     (scheduler_tick (task_queue_port digest) zones (Some (Aware now)) (sched_history digest zones env queue_env max_due rs))"
  by (rule tick_account_wp [OF history_table])

text \<open>C27: The log of fires only grows: whatever calls follow, the fires recorded so far stay, unchanged and in
  their order, so no occurrence is fired twice and no record is overwritten, not even by a manual
  run.\<close>

theorem fire_log_only_grows:
  assumes "env_ok (sc_env (sched_history digest zones env queue_env max_due (rs @ rs2)))"
  shows "prefix (sc_fires (sched_history digest zones env queue_env max_due rs))
     (sc_fires (sched_history digest zones env queue_env max_due (rs @ rs2)))"
proof -
  let ?start = "start_scheduler env queue_env max_due" and ?s = "sched_history digest zones env queue_env max_due rs"
  let ?t = "sched_history digest zones env queue_env max_due (rs @ rs2)"
  have t: "?t = fold (sched_serve digest zones) rs2 ?s" by (simp add: sched_history_def)
  have empty: "log_ok ?start" "table_ok zones ?start" by (simp_all add: log_ok_def start_scheduler_def table_ok_def)
  have first: "log_grows zones ?start ?s"
    using log_grows_history [OF empty(2), of digest rs] by (simp add: sched_history_def)
  have second: "log_grows zones ?s ?t" unfolding t by (rule log_grows_history [OF history_table])
  then have "env_ok (sc_env ?s)" using assms by (auto simp: log_grows_def elim: env_ok_mono)
  then have "log_ok ?s" using first empty by (simp add: log_grows_def)
  then show ?thesis using second assms history_table by (simp add: log_grows_def)
qed

lemma run_now_few:
  "wp (run_now port k now) (\<lambda>_ t. id_count (sc_env t) \<le> Suc (id_count (sc_env s))) (\<lambda>_ t. id_count (sc_env t) \<le> Suc (id_count (sc_env s))) s"
  unfolding run_now_def Let_def by (intro wp_intros on_queue_keeps; simp)

lemma env_le_history: "env_le (sc_env s) (sc_env (fold (sched_serve digest zones) rs s))"
proof (induction rs arbitrary: s)
  case (Cons r rs)
  have "env_le (sc_env s) (sc_env (sched_serve digest zones r s))" using serve_grows unfolding log_grows_def by blast
  then show ?case using env_le_trans [OF _ Cons.IH] by simp
qed simp

lemma demo_runs_fair:
  "env_ok (sc_env (sched_history (\<lambda>_. ''d'') demo_zones demo_env demo_env 0
     ([add_demo ''n'' 1, RunNowRequest ''n'' None] @ [RunNowRequest ''n'' (Some (Aware 5))])))"
proof (rule demo_fair)
  let ?serve = "sched_serve (\<lambda>_. ''d'') demo_zones" and ?start = "start_scheduler demo_env demo_env 0"
  show "env_le demo_env (sc_env (sched_history (\<lambda>_. ''d'') demo_zones demo_env demo_env 0
     ([add_demo ''n'' 1, RunNowRequest ''n'' None] @ [RunNowRequest ''n'' (Some (Aware 5))])))"
    unfolding sched_history_def using env_le_history [of ?start] by (rule subst [rotated]) (simp add: start_scheduler_def)
  have few: "id_count (sc_env (?serve (RunNowRequest k now) s)) \<le> Suc (id_count (sc_env s))" for k now s
    using run_now_few [of "task_queue_port (\<lambda>_. ''d'')" k now s] by (simp add: wp_final)
  have "id_count (sc_env (?serve (add_demo ''n'' 1) ?start)) = 0"
    by (subst add_demo_result) (simp_all add: start_scheduler_def demo_env_def)
  then show "id_count (sc_env (sched_history (\<lambda>_. ''d'') demo_zones demo_env demo_env 0
     ([add_demo ''n'' 1, RunNowRequest ''n'' None] @ [RunNowRequest ''n'' (Some (Aware 5))]))) < 1000"
    using few [of "''n''" None "?serve (add_demo ''n'' 1) ?start"]
      few [of "''n''" "Some (Aware 5)" "?serve (RunNowRequest ''n'' None) (?serve (add_demo ''n'' 1) ?start)"]
    by (simp add: sched_history_def)
qed

theorem fire_log_only_grows_witness:
  "prefix (sc_fires (sched_history (\<lambda>_. ''d'') demo_zones demo_env demo_env 0 [add_demo ''n'' 1, RunNowRequest ''n'' None]))
     (sc_fires (sched_history (\<lambda>_. ''d'') demo_zones demo_env demo_env 0
       ([add_demo ''n'' 1, RunNowRequest ''n'' None] @ [RunNowRequest ''n'' (Some (Aware 5))])))"
  by (rule fire_log_only_grows [OF demo_runs_fair])

text \<open>How many occurrences a policy selects, and which.\<close>

definition misfire_split :: "AutomationSchedule \<Rightarrow> instant \<Rightarrow> instant list \<Rightarrow> instant list \<Rightarrow> bool" where
  "misfire_split sd now due selected \<longleftrightarrow> (case sd_misfire_policy sd of
       FireOnce \<Rightarrow> length selected = 1
     | CatchUpLimited \<Rightarrow> length selected = (if sd_catch_up_limit sd = 0 then length due else min (sd_catch_up_limit sd) (length due))
     | SkipMisfire \<Rightarrow> set selected = {t \<in> set due. now - seconds (sd_misfire_grace_seconds sd) \<le> t})"

text \<open>The misfire policy splits the due occurrences, in their order, into a skipped first part and a
  selected last part: the latest one for \<open>FIRE_ONCE\<close>, the latest up to the limit for
  \<open>CATCH_UP_LIMITED\<close>, those within the grace period for \<open>SKIP\<close>.\<close>

theorem misfire_policy_exact:
  assumes "sorted_wrt (<) due" "due \<noteq> []"
  shows "\<exists>selected skipped. apply_misfire_policy sd due now = (selected, skipped) \<and> skipped @ selected = due \<and>
     misfire_split sd now due selected"
proof -
  obtain selected skipped where p: "apply_misfire_policy sd due now = (selected, skipped)" by fastforce
  have "misfire_split sd now due selected"
    using p assms(2)
    by (auto simp: apply_misfire_policy_def misfire_split_def last_n_def but_last_n_def Let_def split: MisfirePolicy.splits)
  with p misfire_order [OF assms(1) p] show ?thesis by blast
qed

theorem misfire_policy_exact_witness:
  "\<exists>selected skipped. apply_misfire_policy (demo_schedule ''n'') [1, 2, 3] 3 = (selected, skipped) \<and>
     skipped @ selected = [1, 2, 3] \<and> misfire_split (demo_schedule ''n'') 3 [1, 2, 3] selected"
  by (rule misfire_policy_exact) simp_all

section \<open>A backlog\<close>

text \<open>The occurrences of a schedule between its recorded next run and \<open>now\<close> exceed the scheduler's limit.\<close>

definition backlog :: "zones \<Rightarrow> 'q scheduler \<Rightarrow> AutomationSchedule \<Rightarrow> instant \<Rightarrow> bool" where
  "backlog zones s sd now \<longleftrightarrow>
     (case (sd_next_run_at sd, cron_parse (sd_cron sd), zones (sd_timezone sd)) of
        (Some first, Inr e, Some z) \<Rightarrow> sc_max_due s < card (insert first {t. first < t \<and> t \<le> now \<and> fires_at e z t})
      | _ \<Rightarrow> False)"

lemma backlog_later:
  assumes "backlog zones s sd now" "now \<le> later"
  shows "backlog zones s sd later"
proof -
  have "card (insert first {t. first < t \<and> t \<le> now \<and> fires_at e z t}) \<le> card (insert first {t. first < t \<and> t \<le> later \<and> fires_at e z t})"
    for first e z
  proof (rule card_mono)
    have "{t. first < t \<and> t \<le> later \<and> fires_at e z t} \<subseteq> {first..later}" by auto
    then show "finite (insert first {t. first < t \<and> t \<le> later \<and> fires_at e z t})" using finite_subset by blast
  qed (use assms(2) in auto)
  then show ?thesis using assms(1) by (auto simp: backlog_def split: option.splits sum.splits intro: less_le_trans)
qed

lemma backlog_raises:
  assumes "table_ok zones s" "map_of (sc_schedules s) (sd_id sd) = Some sd" "due_schedule now sd" "backlog zones s sd now"
  shows "\<exists>x. fire_due_locked port zones sd now s = (Inl x, s)"
proof -
  obtain e z where e: "map_of (sc_expressions s) (sd_id sd) = Some e" "cron_parse (sd_cron sd) = Inr e"
    "zones (sd_timezone sd) = Some z" using table_okD(3) [OF assms(1,2)] unfolding wired_def by blast
  obtain first where first: "sd_next_run_at sd = Some first" "first \<le> now"
    using assms(3) by (auto simp: due_schedule_def split: option.splits)
  let ?run = "collect_due (\<lambda>t. next_after zones e (Aware t) (sd_timezone sd) search_window) now (sc_max_due s) first"
  have "?run \<noteq> Inr (due, cursor)" for due cursor
  proof
    assume "?run = Inr (due, cursor)"
    then have "occurrences e z first now due cursor \<and> length due \<le> sc_max_due s"
      by (intro collect_due_exact [OF _ _ first(2)]) (simp_all add: next_after_known [of zones, OF e(3)])
    then have "card (insert first {t. first < t \<and> t \<le> now \<and> fires_at e z t}) \<le> sc_max_due s"
      unfolding occurrences_def using card_length [of due] by force
    then show False using assms(4) e(2,3) first(1) by (simp add: backlog_def)
  qed
  then obtain x where "?run = Inl x" by (cases ?run) auto
  then show ?thesis by (simp add: fire_due_locked_def expression_of_def run_simps e(1) first(1))
qed

lemma backlog_stops:
  assumes "table_ok zones s" "due_list s now = sd # rest" "backlog zones s sd now"
  shows "\<exists>x. scheduler_tick port zones (Some (Aware now)) s = (Inl x, s)"
proof -
  have "map_of (sc_schedules s) (sd_id sd) = Some sd" "due_schedule now sd"
    using due_list_facts(1) [OF assms(1), of sd now] assms(2) by simp_all
  from backlog_raises [OF assms(1) this assms(3), of port] obtain x where "fire_due_locked port zones sd now s = (Inl x, s)" ..
  then show ?thesis unfolding tick_unfold sc_current_def by (simp add: run_simps assms(2))
qed

text \<open>The first schedule of the due list stays first.\<close>

lemma due_list_head:
  assumes "table_ok zones s" "due_list s now = sd # rest" "now \<le> later"
  shows "\<exists>rest'. due_list s later = sd # rest'"
proof -
  have order: "due_order t x = (case sd_next_run_at x of None \<Rightarrow> now | Some u \<Rightarrow> u, sd_id x)" if "due_schedule t x" for t x
    using that by (auto simp: due_order_def due_schedule_def split: option.splits)
  have sd: "map_of (sc_schedules s) (sd_id sd) = Some sd" "due_schedule now sd"
    using due_list_facts(1) [OF assms(1), of sd now] assms(2) by simp_all
  have sorted: "sorted (map (due_order t) (due_list s t))" for t unfolding due_list_def by (rule sorted_sort_key)
  have first: "due_order now sd \<le> due_order now x" if "x \<in> set (due_list s now)" for x
    using that sorted [of now] unfolding assms(2) by auto
  have "due_schedule later sd" using sd(2) assms(3) by (auto simp: due_schedule_def split: option.splits)
  then have mem: "sd \<in> set (due_list s later)" using due_list_facts(1) [OF assms(1)] sd(1) by blast
  have least: "due_order later sd \<le> due_order later x" if x: "x \<in> set (due_list s later)" for x
  proof (cases "due_schedule now x")
    case True
    then have "x \<in> set (due_list s now)" using x due_list_facts(1) [OF assms(1)] by blast
    then show ?thesis using first [of x] order [OF sd(2)] order [OF True] order [OF \<open>due_schedule later sd\<close>] x
        order [of later x] due_list_facts(1) [OF assms(1), of x later] by simp
  next
    case False
    then show ?thesis
      using x due_list_facts(1) [OF assms(1), of x later] sd(2)
      by (auto simp: due_schedule_def due_order_def less_eq_prod_def split: option.splits)
  qed
  obtain y ys where ys: "due_list s later = y # ys" using mem by (cases "due_list s later") auto
  have "due_order later y \<le> due_order later sd"
    using mem sorted [of later] unfolding ys by auto
  then have "due_order later y = due_order later sd" using least [of y] ys by simp
  then have "sd_id y = sd_id sd" by (simp add: due_order_def)
  then show ?thesis
    using ys sd(1) due_list_facts(1) [OF assms(1), of y later] by simp
qed

text \<open>C28: If the schedule that a tick serves first has more missed occurrences than the catch-up limit, the
  tick raises and changes nothing, and so does every later tick: no schedule fires again, under
  any misfire policy, until someone disables it.\<close>

theorem backlog_stops_every_tick:
  assumes "due_list (sched_history digest zones env queue_env max_due rs) now = sd # rest"
    and "backlog zones (sched_history digest zones env queue_env max_due rs) sd now" and "now \<le> later"
  shows "\<exists>x. scheduler_tick (task_queue_port digest) zones (Some (Aware later)) (sched_history digest zones env queue_env max_due rs) =
     (Inl x, sched_history digest zones env queue_env max_due rs)"
proof -
  obtain rest' where "due_list (sched_history digest zones env queue_env max_due rs) later = sd # rest'"
    using due_list_head [OF history_table assms(1,3)] ..
  then show ?thesis using backlog_stops [OF history_table] backlog_later [OF assms(2,3)] by blast
qed

lemma demo_state:
  "sched_history (\<lambda>_. ''d'') demo_zones demo_env demo_env 0 [add_demo ''n'' 1, add_demo ''z'' 2] =
    (start_scheduler demo_env demo_env 0)
      \<lparr>sc_schedules := [(''n'', (demo_schedule ''n'')\<lparr>sd_next_run_at := Some minute_us\<rparr>),
        (''z'', (demo_schedule ''z'')\<lparr>sd_next_run_at := Some (2 * minute_us)\<rparr>)],
       sc_expressions := [(''n'', every_minute), (''z'', every_minute)]\<rparr>"
  unfolding sched_history_def fold.simps comp_apply id_apply
  by (subst add_demo_result, simp add: start_scheduler_def, subst add_demo_result) (simp_all add: start_scheduler_def)

theorem backlog_stops_every_tick_witness:
  "\<exists>x. scheduler_tick (task_queue_port (\<lambda>_. ''d'')) demo_zones (Some (Aware (10 * minute_us)))
      (sched_history (\<lambda>_. ''d'') demo_zones demo_env demo_env 0 [add_demo ''n'' 1, add_demo ''z'' 2]) =
     (Inl x, sched_history (\<lambda>_. ''d'') demo_zones demo_env demo_env 0 [add_demo ''n'' 1, add_demo ''z'' 2])"
proof (rule backlog_stops_every_tick)
  let ?s = "sched_history (\<lambda>_. ''d'') demo_zones demo_env demo_env 0 [add_demo ''n'' 1, add_demo ''z'' 2]"
  show "due_list ?s (2 * minute_us) = [(demo_schedule ''n'')\<lparr>sd_next_run_at := Some minute_us\<rparr>,
      (demo_schedule ''z'')\<lparr>sd_next_run_at := Some (2 * minute_us)\<rparr>]"
    unfolding demo_state
    by (simp add: due_list_def due_schedule_def due_order_def demo_schedule_def minute_us_def insort_key_def)
  have "{t. minute_us < t \<and> t \<le> 2 * minute_us \<and> fires_at every_minute (\<lambda>_. 0) t} = {2 * minute_us}"
  proof (intro equalityI subsetI)
    fix t assume "t \<in> {t. minute_us < t \<and> t \<le> 2 * minute_us \<and> fires_at every_minute (\<lambda>_. 0) t}"
    then have t: "minute_us < t" "t \<le> 2 * minute_us" "t mod minute_us = 0" by (simp_all add: fires_at_def)
    then obtain q where "t = minute_us * q" by blast
    then show "t \<in> {2 * minute_us}" using t(1,2) by (simp add: minute_us_def)
  qed (simp add: fires_at_def matches_in_zone_def every_minute_matches minute_us_def)
  then show "backlog demo_zones ?s ((demo_schedule ''n'')\<lparr>sd_next_run_at := Some minute_us\<rparr>) (2 * minute_us)"
    unfolding demo_state
    by (simp add: backlog_def demo_schedule_def every_minute_parse demo_zones_def start_scheduler_def minute_us_def)
qed (simp add: minute_us_def)

end
