(* ===== verification/Overlap.thy ===== *)
theory Overlap
  imports Scheduler_Properties
begin

text \<open>
  The overlap policies. The scheduler relies on its queue only through the port; the locale
  \<open>queue_port\<close> states what it relies on, and is interpreted on the task queue.
\<close>

section \<open>The contract of the port\<close>

definition uncancelled :: "AutomationTask list \<Rightarrow> AutomationTask list" where
  "uncancelled ts = filter (\<lambda>t. \<not> tk_cancel_requested t) ts"

lemma uncancelled_le: "length (uncancelled ts) \<le> length ts"
  by (simp add: uncancelled_def)

text \<open>A schedule that does not allow overlaps, counting all active tasks or only those not asked to stop.\<close>

definition exclusive :: "bool \<Rightarrow> AutomationSchedule \<Rightarrow> bool" where
  "exclusive all sd = (if all then sd_overlap_policy sd = Forbid else sd_overlap_policy sd \<noteq> Allow)"

locale queue_port =
  fixes port :: "'q TaskQueuePort"
    and good :: "'q \<Rightarrow> bool"
    and active :: "'q \<Rightarrow> text_t \<Rightarrow> AutomationTask list"
  assumes active_law: "qp_active_for_schedule port k q = (Inr (active q k), q)"
    and enqueue_good: "good q \<Longrightarrow> qp_enqueue port a q = (r, q') \<Longrightarrow> good q'"
    and enqueue_active: "good q \<Longrightarrow> qp_enqueue port a q = (r, q') \<Longrightarrow>
      length (active q' k) \<le> length (active q k) + (if ea_source_schedule_id a = Some k then 1 else 0)"
    and enqueue_uncancelled: "good q \<Longrightarrow> qp_enqueue port a q = (r, q') \<Longrightarrow>
      length (uncancelled (active q' k)) \<le> length (uncancelled (active q k)) + (if ea_source_schedule_id a = Some k then 1 else 0)"
    and cancel_good: "good q \<Longrightarrow> qp_request_cancel port i now q = (c, q') \<Longrightarrow> good q'"
    and cancel_active: "good q \<Longrightarrow> qp_request_cancel port i now q = (c, q') \<Longrightarrow> length (active q' k) \<le> length (active q k)"
    and cancel_uncancelled: "good q \<Longrightarrow> qp_request_cancel port i now q = (Inr t, q') \<Longrightarrow>
      uncancelled (active q' k) = filter (\<lambda>t. tk_id t \<noteq> i) (uncancelled (active q k))"
    and cancel_failed: "good q \<Longrightarrow> qp_request_cancel port i now q = (Inl e, q') \<Longrightarrow> active q' k = active q k"
begin

definition counted :: "bool \<Rightarrow> 'q \<Rightarrow> text_t \<Rightarrow> AutomationTask list" where
  "counted all q k = (if all then active q k else uncancelled (active q k))"

lemma counted_simps [simp]: "counted True q k = active q k" "counted False q k = uncancelled (active q k)"
  by (simp_all add: counted_def)

lemma on_queue_run:
  "m (sc_queue s) = (r, q) \<Longrightarrow> wp (on_queue m) Q E s =
     (case r of Inl e \<Rightarrow> E e (s\<lparr>sc_queue := q\<rparr>) | Inr x \<Rightarrow> Q x (s\<lparr>sc_queue := q\<rparr>))"
  by (simp add: wp_def on_queue_def split: sum.split)

text \<open>At most \<open>n\<close> tasks of schedule \<open>k\<close> are active, or active and not asked to stop.\<close>

definition at_most :: "bool \<Rightarrow> nat \<Rightarrow> text_t \<Rightarrow> 'q scheduler \<Rightarrow> bool" where
  "at_most all n k s \<longleftrightarrow> good (sc_queue s) \<and> length (counted all (sc_queue s) k) \<le> n"

lemma at_most_queue: "sc_queue t = sc_queue s \<Longrightarrow> at_most all n k t = at_most all n k s"
  by (simp add: at_most_def)

lemma enqueue_at_most:
  assumes "good (sc_queue s)" and "\<And>q. good q \<Longrightarrow>
      length (counted all q k) \<le> length (counted all (sc_queue s) k) + (if ea_source_schedule_id a = Some k then 1 else 0) \<Longrightarrow>
      at_most all n k (s\<lparr>sc_queue := q\<rparr>)"
  shows "wp (on_queue (qp_enqueue port a)) (\<lambda>_. at_most all n k) (\<lambda>_. at_most all n k) s"
proof (cases "qp_enqueue port a (sc_queue s)")
  case (Pair r q')
  have "at_most all n k (s\<lparr>sc_queue := q'\<rparr>)"
    using enqueue_good [OF assms(1) Pair] enqueue_active [OF assms(1) Pair, of k] enqueue_uncancelled [OF assms(1) Pair, of k]
    by (intro assms(2); cases all; simp)
  then show ?thesis unfolding on_queue_run [of "qp_enqueue port a", OF Pair] by (simp split: sum.split)
qed

lemma cancel_at_most:
  assumes "at_most all n k s"
  shows "wp (on_queue (qp_request_cancel port i now)) (\<lambda>_. at_most all n k) (\<lambda>_. at_most all n k) s"
proof (cases "qp_request_cancel port i now (sc_queue s)")
  case (Pair r q')
  have good: "good (sc_queue s)" using assms by (simp add: at_most_def)
  have "length (uncancelled (active q' k)) \<le> length (uncancelled (active (sc_queue s) k))"
  proof (cases r)
    case (Inr t)
    then show ?thesis using cancel_uncancelled [OF good] Pair by simp
  next
    case (Inl e)
    then show ?thesis using cancel_failed [OF good] Pair by simp
  qed
  then have "at_most all n k (s\<lparr>sc_queue := q'\<rparr>)"
    using assms cancel_good [OF good Pair] cancel_active [OF good Pair, of k] by (cases all) (simp_all add: at_most_def)
  then show ?thesis unfolding on_queue_run [of "qp_request_cancel port i now", OF Pair] by (simp split: sum.split)
qed

text \<open>Cancelling every active task leaves none that is not asked to stop.\<close>

lemma cancel_all:
  assumes "good (sc_queue s)"
  shows "wp (for_each (\<lambda>t. andThen (on_queue (qp_request_cancel port (tk_id t) now)) (\<lambda>_. ret ())) ts)
    (\<lambda>_ u. good (sc_queue u) \<and> uncancelled (active (sc_queue u) k) =
       filter (\<lambda>t. tk_id t \<notin> tk_id ` set ts) (uncancelled (active (sc_queue s) k))) (\<lambda>_ _. True) s"
  using assms
proof (induction ts arbitrary: s)
  case Nil
  then show ?case by (simp add: wp_simps)
next
  case (Cons t ts)
  have "wp (on_queue (qp_request_cancel port (tk_id t) now)) (\<lambda>_ u. good (sc_queue u) \<and> uncancelled (active (sc_queue u) k) =
       filter (\<lambda>x. tk_id x \<noteq> tk_id t) (uncancelled (active (sc_queue s) k))) (\<lambda>_ _. True) s"
  proof (cases "qp_request_cancel port (tk_id t) now (sc_queue s)")
    case (Pair r q')
    then show ?thesis
      unfolding on_queue_run [of "qp_request_cancel port (tk_id t) now", OF Pair]
      using cancel_good [OF Cons.prems Pair] cancel_uncancelled [OF Cons.prems, of "tk_id t" now]
      by (cases r) simp_all
  qed
  then show ?case
    unfolding for_each.simps
    by (intro wp_andThenI wp_mono [OF \<open>wp _ _ _ s\<close>] wp_retI wp_mono [OF Cons.IH])
       (auto intro!: filter_cong)
qed

lemma record_fire_at_most:
  "at_most all n k s \<Longrightarrow> wp (record_fire sd u st now) (\<lambda>_. at_most all n k) (\<lambda>_. at_most all n k) s"
  unfolding record_fire_def Let_def by (intro wp_intros; simp add: at_most_def)

text \<open>One occurrence, for a schedule that does not allow overlaps, or for another schedule.\<close>

lemma enqueue_free:
  assumes "at_most all n k s" "1 \<le> n" "sd_id sd = k \<Longrightarrow> at_most all 0 k s"
  shows "wp (on_queue (qp_enqueue port (schedule_args sd key u))) (\<lambda>_. at_most all n k) (\<lambda>_. at_most all n k) s"
  using assms by (intro enqueue_at_most) (auto simp: at_most_def schedule_args_def split: if_splits)

lemma fire_selected_at_most:
  assumes s: "at_most all n k s" and n: "1 \<le> n" and sd: "sd_id sd = k \<Longrightarrow> exclusive all sd"
  shows "wp (fire_selected port sd now u) (\<lambda>_. at_most all n k) (\<lambda>_. at_most all n k) s"
proof -
  let ?key = "cron_fire_key (sd_id sd) u"
  let ?cancels = "\<lambda>ts. for_each (\<lambda>t. andThen (on_queue (qp_request_cancel port (tk_id t) (Some (Aware now)))) (\<lambda>_. ret ())) ts"
  have fire: "wp (andThen (on_queue (qp_enqueue port (schedule_args sd key u))) (\<lambda>result. andThen sc_new_id (\<lambda>i.
          let fire = \<lparr>sf_id = i, sf_schedule_id = sd_id sd, sf_scheduled_for = u, sf_status = Enqueued,
                      sf_task_id = Some (tk_id (er_task result)), sf_created_at = now\<rparr> in
          andThen (put_fire ?key fire) (\<lambda>_. ret (Some fire))))) (\<lambda>_. at_most all n k) (\<lambda>_. at_most all n k) t"
    if "at_most all n k t" "sd_id sd = k \<Longrightarrow> at_most all 0 k t" for t key
    by (intro wp_andThenI wp_mono [OF enqueue_free [OF that(1) n]] wp_sc_new_idI wp_letI wp_put_fireI wp_retI)
       (use that(2) in \<open>simp_all add: at_most_def\<close>)
  have keep: "wp (?cancels ts) (\<lambda>_. at_most all n k) (\<lambda>_. at_most all n k) s" for ts
    using s by (rule wp_for_each) (intro wp_andThenI wp_retI wp_mono [OF cancel_at_most]; assumption)
  have good: "good (sc_queue s)" using s by (simp add: at_most_def)
  have cancelled: "wp (?cancels (active (sc_queue s) (sd_id sd))) (\<lambda>_ t. at_most all n k t \<and> (sd_id sd = k \<longrightarrow> at_most all 0 k t))
      (\<lambda>_. at_most all n k) s" if "sd_overlap_policy sd = Replace"
  proof (rule wp_mono [OF wp_both [OF keep cancel_all [OF good, where k = k]]])
    fix x t assume t: "at_most all n k t \<and> good (sc_queue t) \<and> uncancelled (active (sc_queue t) k) =
       filter (\<lambda>t. tk_id t \<notin> tk_id ` set (active (sc_queue s) (sd_id sd))) (uncancelled (active (sc_queue s) k))"
    have "at_most all 0 k t" if k: "sd_id sd = k"
    proof -
      have "\<not> all" using sd [OF k] \<open>sd_overlap_policy sd = Replace\<close> by (cases all) (simp_all add: exclusive_def)
      moreover have "uncancelled (active (sc_queue t) k) = []" using t k by (auto simp: uncancelled_def filter_empty_conv)
      ultimately show ?thesis using t by (simp add: at_most_def)
    qed
    then show "at_most all n k t \<and> (sd_id sd = k \<longrightarrow> at_most all 0 k t)" using t by blast
  qed simp
  have idle: "at_most all 0 k s" if "sd_id sd = k" "sd_overlap_policy sd = Forbid \<longrightarrow> active (sc_queue s) (sd_id sd) = []"
    "sd_overlap_policy sd \<noteq> Replace"
  proof -
    have "sd_overlap_policy sd = Forbid"
      using that(3) sd [OF that(1)] by (cases "sd_overlap_policy sd") (auto simp: exclusive_def split: if_splits)
    then have "active (sc_queue s) k = []" using that by simp
    then have "counted all (sc_queue s) k = []" by (cases all) (simp_all add: uncancelled_def)
    then show ?thesis using good by (simp add: at_most_def)
  qed
  have ask: "wp (on_queue (qp_active_for_schedule port (sd_id sd))) Q E s" if "Q (active (sc_queue s) (sd_id sd)) s" for Q E
    using that by (simp add: wp_on_queue) (simp add: wp_def active_law)
  show ?thesis
    unfolding fire_selected_def Let_def [of "?key"]
    by (intro fire wp_andThenI wp_readsI wp_ifI wp_retI ask record_fire_at_most s wp_mono [OF cancelled])
       (use s idle in auto)
qed

lemma fire_due_at_most:
  assumes "at_most all n k s" "1 \<le> n" "sd_id sd = k \<Longrightarrow> exclusive all sd"
  shows "wp (fire_due_locked port zones sd now) (\<lambda>_. at_most all n k) (\<lambda>_. at_most all n k) s"
proof -
  let ?keeps = "\<lambda>m s. wp m (\<lambda>_. at_most all n k) (\<lambda>_. at_most all n k) s"
  have loop: "?keeps (map_each f xs) t" if "at_most all n k t" "\<And>x u. at_most all n k u \<Longrightarrow> ?keeps (f x) u"
    for f :: "instant \<Rightarrow> ('q, ScheduleFire option) sched_op" and xs t
    using that(1) by (rule wp_map_each [where R = "\<lambda>_ _. True"]) (simp_all add: that(2))
  have fire: "?keeps (andThen (map_each (\<lambda>t. record_fire sd t SkippedMisfire now) skipped) (\<lambda>missed.
         andThen (map_each (fire_selected port sd now) selected) (\<lambda>fired.
         andThen (put_schedule sd') (\<lambda>_. ret (some_fires (missed @ fired)))))) s" for skipped selected sd'
    by (intro wp_andThenI wp_mono [OF loop [OF assms(1) record_fire_at_most]] wp_mono [OF loop [OF _ fire_selected_at_most]]
          wp_put_scheduleI wp_retI)
       (use assms in \<open>simp_all add: at_most_def\<close>)
  show ?thesis
    unfolding fire_due_locked_def
    by (intro wp_andThenI wp_expression_ofI wp_from_sumI wp_readsI wp_caseI wp_retI wp_case_pairI)
       (auto simp: assms(1) intro: fire split: prod.split)
qed

text \<open>
  A tick starts no second task for schedule \<open>k\<close>, counting all active tasks under \<open>FORBID\<close> and those not
  asked to stop under \<open>REPLACE\<close>.
\<close>

lemma tick_at_most:
  assumes table: "table_ok zones s" and s: "at_most all n k s" "1 \<le> n"
    and k: "\<And>sd. map_of (sc_schedules s) k = Some sd \<Longrightarrow> exclusive all sd"
  shows "wp (scheduler_tick port zones (Some (Aware now))) (\<lambda>_. at_most all n k) (\<lambda>_. at_most all n k) s"
proof -
  have "wp (map_each (\<lambda>sd. fire_due_locked port zones sd now) (due_list s now)) (\<lambda>_. at_most all n k) (\<lambda>_. at_most all n k) s"
  proof (rule wp_map_each [where R = "\<lambda>_ _. True" and I = "at_most all n k", OF s(1)])
    fix sd t assume sd: "sd \<in> set (due_list s now)" and t: "at_most all n k t"
    have "exclusive all sd" if "sd_id sd = k" using due_list_facts(1) [OF table] sd that k by blast
    then show "wp (fire_due_locked port zones sd now) (\<lambda>y u. True \<and> at_most all n k u) (\<lambda>_. at_most all n k) t"
      using fire_due_at_most [OF t s(2)] by simp
  qed
  then show ?thesis
    unfolding tick_unfold
    by (intro wp_andThenI wp_sc_currentI wp_readsI) (auto simp: wp_ret [abs_def] s(1))
qed

end

section \<open>The task queue fulfils it\<close>

text \<open>Tasks stored under their own identifier.\<close>

definition keyed :: "task_queue \<Rightarrow> bool" where
  "keyed q \<longleftrightarrow> distinct (map fst (q_tasks q)) \<and> (\<forall>k t. map_of (q_tasks q) k = Some t \<longrightarrow> tk_id t = k)"

definition active_tasks :: "task_queue \<Rightarrow> text_t \<Rightarrow> AutomationTask list" where
  "active_tasks q k = filter (\<lambda>t. tk_source_schedule_id t = Some k \<and> is_active (tk_status t)) (map snd (q_tasks q))"

lemma keyed_same: "keyed q \<Longrightarrow> q_tasks q' = q_tasks q \<Longrightarrow> keyed q'"
  by (simp add: keyed_def)

lemma length_filter_update:
  "length (filter P (map snd (AList.update k v d))) \<le> length (filter P (map snd d)) + (if P v then 1 else 0)"
  by (induction d) auto

lemma filter_update_same:
  assumes "distinct (map fst d)" "map_of d k = Some old" "P v = P old" "\<not> P v"
  shows "filter P (map snd (AList.update k v d)) = filter P (map snd d)"
  using assms by (induction d) (auto split: if_splits)

lemma length_filter_replace:
  assumes "distinct (map fst d)" "map_of d k = Some old" "P v \<Longrightarrow> P old"
  shows "length (filter P (map snd (AList.update k v d))) \<le> length (filter P (map snd d))"
  using assms by (induction d) (auto split: if_splits)

lemma filter_update_drop:
  assumes "distinct (map fst d)" "map_of d k = Some old" "\<not> P v" "\<And>k x. (k, x) \<in> set d \<Longrightarrow> g x = k"
  shows "filter P (map snd (AList.update k v d)) = filter (\<lambda>x. g x \<noteq> k) (filter P (map snd d))"
  using assms
proof (induction d)
  case (Cons p d)
  obtain i x where p: "p = (i, x)" by fastforce
  show ?case
  proof (cases "i = k")
    case True
    then have "k \<notin> fst ` set d" using Cons.prems(1) p by simp
    then have "\<forall>y \<in> set (map snd d). g y \<noteq> k" using Cons.prems(4) by force
    then have "filter (\<lambda>x. g x \<noteq> k) (filter P (map snd d)) = filter P (map snd d)" by (intro filter_True) auto
    moreover have "g x = k" using Cons.prems(4) p True by simp
    ultimately show ?thesis using True p Cons.prems(3) by simp
  next
    case False
    then have "map_of d k = Some old" "distinct (map fst d)" using Cons.prems(1,2) p by simp_all
    moreover have "g x \<noteq> k" using Cons.prems(4) [of i x] p False by simp
    ultimately show ?thesis using Cons p False by simp
  qed
qed simp

lemma keyed_update: "keyed q \<Longrightarrow> q_tasks q' = AList.update (tk_id t) t (q_tasks q) \<Longrightarrow> keyed q'"
  by (auto simp: keyed_def distinct_update update_conv' simp del: map_of_eq_Some_iff split: if_splits)

lemma uncancelled_active:
  "uncancelled (active_tasks q k) =
     filter (\<lambda>t. \<not> tk_cancel_requested t \<and> tk_source_schedule_id t = Some k \<and> is_active (tk_status t)) (map snd (q_tasks q))"
  unfolding uncancelled_def active_tasks_def filter_filter by (rule filter_cong) auto

text \<open>What an enqueue and a cancellation may do to the tasks.\<close>

definition enqueued :: "enqueue_args \<Rightarrow> task_queue \<Rightarrow> task_queue \<Rightarrow> bool" where
  "enqueued a q q' \<longleftrightarrow> q_tasks q' = q_tasks q \<or>
     (\<exists>t. tk_source_schedule_id t = ea_source_schedule_id a \<and> q_tasks q' = AList.update (tk_id t) t (q_tasks q))"

lemma enqueued_same: "q_tasks q' = q_tasks q \<Longrightarrow> enqueued a q q'"
  by (simp add: enqueued_def)

lemma enqueued_new:
  "q_tasks q' = AList.update i t (q_tasks q) \<Longrightarrow> tk_id t = i \<Longrightarrow> tk_source_schedule_id t = ea_source_schedule_id a \<Longrightarrow> enqueued a q q'"
  unfolding enqueued_def by blast

lemma enqueue_effect: "wp (enqueue digest a) (\<lambda>_. enqueued a q) (\<lambda>_. enqueued a q) q"
  unfolding enqueue_def insert_task_def
  by (intro wp_intros; (simp add: enqueued_same; fail)?; (rule enqueued_new, simp, simp, simp)?)

definition cancelled :: "text_t \<Rightarrow> task_queue \<Rightarrow> task_queue \<Rightarrow> bool" where
  "cancelled i q q' \<longleftrightarrow> (\<exists>t u. map_of (q_tasks q) i = Some t \<and> tk_id u = tk_id t \<and>
     tk_source_schedule_id u = tk_source_schedule_id t \<and> (is_active (tk_status u) \<longrightarrow> is_active (tk_status t) \<and> tk_cancel_requested u) \<and>
     q_tasks q' = AList.update (tk_id u) u (q_tasks q))"

lemma cancelled_by:
  "q_tasks q' = AList.update j u (q_tasks q) \<Longrightarrow> tk_id u = j \<Longrightarrow> map_of (q_tasks q) i = Some t \<Longrightarrow> tk_id u = tk_id t \<Longrightarrow>
     tk_source_schedule_id u = tk_source_schedule_id t \<Longrightarrow>
     (is_active (tk_status u) \<Longrightarrow> is_active (tk_status t) \<and> tk_cancel_requested u) \<Longrightarrow> cancelled i q q'"
  unfolding cancelled_def by blast

lemma cancel_effect: "wp (request_cancel i now) (\<lambda>_. cancelled i q) (\<lambda>_ q'. q_tasks q' = q_tasks q) q"
  unfolding request_cancel_def q_current_def
  by (intro wp_intros; (simp; fail)?; (rule cancelled_by, simp, simp, simp)?) (auto simp: is_active_def split: if_splits)

lemma keyed_ids: "keyed q \<Longrightarrow> (k, x) \<in> set (q_tasks q) \<Longrightarrow> tk_id x = k"
  unfolding keyed_def using map_of_SomeI by metis

lemma enqueued_keyed: "keyed q \<Longrightarrow> enqueued a q q' \<Longrightarrow> keyed q'"
  unfolding enqueued_def by (auto intro: keyed_same keyed_update)

lemma enqueued_length:
  assumes "enqueued a q q'" "\<And>t. P t \<Longrightarrow> tk_source_schedule_id t = Some k"
  shows "length (filter P (map snd (q_tasks q'))) \<le>
    length (filter P (map snd (q_tasks q))) + (if ea_source_schedule_id a = Some k then 1 else 0)"
proof -
  have "length (filter P (map snd (AList.update (tk_id t) t (q_tasks q)))) \<le>
      length (filter P (map snd (q_tasks q))) + (if ea_source_schedule_id a = Some k then 1 else 0)"
    if "tk_source_schedule_id t = ea_source_schedule_id a" for t
    using length_filter_update [of P "tk_id t" t "q_tasks q"] assms(2) [of t] that by (auto split: if_splits)
  then show ?thesis using assms(1) unfolding enqueued_def by auto
qed

lemma cancelled_obtain:
  assumes "keyed q" "cancelled i q q'"
  obtains t u where "map_of (q_tasks q) i = Some t" "tk_source_schedule_id u = tk_source_schedule_id t"
    "is_active (tk_status u) \<longrightarrow> is_active (tk_status t) \<and> tk_cancel_requested u" "tk_id u = i"
    "q_tasks q' = AList.update i u (q_tasks q)"
  using assms unfolding cancelled_def keyed_def by metis

lemma cancelled_laws:
  assumes q: "keyed q" and c: "cancelled i q q'"
  shows "keyed q'" "length (active_tasks q' k) \<le> length (active_tasks q k)"
    "uncancelled (active_tasks q' k) = filter (\<lambda>t. tk_id t \<noteq> i) (uncancelled (active_tasks q k))"
proof -
  obtain t u where t: "map_of (q_tasks q) i = Some t" and u: "tk_source_schedule_id u = tk_source_schedule_id t"
    "is_active (tk_status u) \<longrightarrow> is_active (tk_status t) \<and> tk_cancel_requested u" "tk_id u = i"
    and q': "q_tasks q' = AList.update i u (q_tasks q)" by (rule cancelled_obtain [OF assms])
  have keys: "distinct (map fst (q_tasks q))" using q by (simp add: keyed_def)
  show "keyed q'" using keyed_update [OF q, of q' u] q' u(3) by simp
  show "length (active_tasks q' k) \<le> length (active_tasks q k)"
    unfolding active_tasks_def q' by (rule length_filter_replace [OF keys t]) (use u in auto)
  show "uncancelled (active_tasks q' k) = filter (\<lambda>t. tk_id t \<noteq> i) (uncancelled (active_tasks q k))"
    unfolding uncancelled_active q' by (rule filter_update_drop [OF keys t]) (use u keyed_ids [OF q] in auto)
qed

lemma task_port_simps [simp]:
  "qp_active_for_schedule (task_queue_port digest) = active_for_schedule"
  "qp_enqueue (task_queue_port digest) = enqueue digest" "qp_request_cancel (task_queue_port digest) = request_cancel"
  by (simp_all add: task_queue_port_def)

lemma enqueue_run: "enqueue digest a q = (r, q') \<Longrightarrow> enqueued a q q'"
  using enqueue_effect [of digest a q] by (simp add: wp_def split: sum.splits)

lemma cancel_run:
  "request_cancel i now q = (Inr t, q') \<Longrightarrow> cancelled i q q'"
  "request_cancel i now q = (Inl e, q') \<Longrightarrow> q_tasks q' = q_tasks q"
  using cancel_effect [of i now q] by (simp_all add: wp_def)

interpretation tasks: queue_port "task_queue_port digest" keyed active_tasks for digest
proof (unfold_locales, unfold task_port_simps)
  show "active_for_schedule k q = (Inr (active_tasks q k), q)" for k q
    by (simp add: active_for_schedule_def active_tasks_def run_simps)
next
  fix q a r q' k assume q: "keyed q" and run: "enqueue digest a q = (r, q')"
  show "keyed q'" using q enqueue_run [OF run] by (rule enqueued_keyed)
  show "length (active_tasks q' k) \<le> length (active_tasks q k) + (if ea_source_schedule_id a = Some k then 1 else 0)"
    unfolding active_tasks_def by (rule enqueued_length [OF enqueue_run [OF run]]) simp
  show "length (uncancelled (active_tasks q' k)) \<le> length (uncancelled (active_tasks q k)) +
      (if ea_source_schedule_id a = Some k then 1 else 0)"
    unfolding uncancelled_active by (rule enqueued_length [OF enqueue_run [OF run]]) simp
next
  fix q i now q' k and c :: "automation_error + AutomationTask"
  assume q: "keyed q" and run: "request_cancel i now q = (c, q')"
  have "keyed q' \<and> length (active_tasks q' k) \<le> length (active_tasks q k)"
  proof (cases c)
    case (Inr t)
    then show ?thesis using cancelled_laws [OF q cancel_run(1)] run by simp
  next
    case (Inl e)
    then have "q_tasks q' = q_tasks q" using cancel_run(2) run by simp
    then show ?thesis using keyed_same [OF q] by (simp add: active_tasks_def)
  qed
  then show "keyed q'" "length (active_tasks q' k) \<le> length (active_tasks q k)" by simp_all
next
  fix q i now q' k and t :: AutomationTask
  assume "keyed q" "request_cancel i now q = (Inr t, q')"
  then show "uncancelled (active_tasks q' k) = filter (\<lambda>t. tk_id t \<noteq> i) (uncancelled (active_tasks q k))"
    using cancelled_laws(3) cancel_run(1) by blast
next
  fix q i now q' k and e :: automation_error
  assume "request_cancel i now q = (Inl e, q')"
  then show "active_tasks q' k = active_tasks q k" using cancel_run(2) by (simp add: active_tasks_def)
qed

section \<open>Over histories\<close>

interpretation keys: stepwise "\<lambda>q q'. keyed q \<longrightarrow> keyed q'"
  by unfold_locales auto

lemma keys_calls [steps_intros]:
  "keys.steps q_now" "keys.steps q_new_id" "keys.steps q_token" "keys.steps q_entropy" "keys.steps (put_task t)"
  "keys.steps (writes (q_idempotency_update h))"
  by (auto simp: keys.steps_def run_simps q_now_def q_new_id_def q_token_def q_entropy_def put_task_def
      intro: keyed_same keyed_update)

lemma keys_helpers [steps_intros]: "keys.steps (q_current now)" "keys.steps (require_task k)"
  unfolding q_current_def require_task_def by (intro steps_intros)+

lemma keys_operations:
  "keys.steps (enqueue digest a)" "keys.steps (queue_get k)" "keys.steps list_tasks"
  "keys.steps (claim digest w queues n now)" "keys.steps (task_heartbeat digest k w token n now)"
  "keys.steps (complete digest k w token r now)" "keys.steps (fail_task digest k w token code retryable now)"
  "keys.steps (request_cancel k now)" "keys.steps (acknowledge_cancel digest k w token now)"
  "keys.steps (recover_expired now)" "keys.steps (active_for_schedule k)"
  unfolding enqueue_def insert_task_def queue_get_def list_tasks_def claim_def grant_def task_heartbeat_def complete_def
    fail_task_def request_cancel_def acknowledge_cancel_def recover_expired_def recover_expired_locked_def recover_task_def
    active_for_schedule_def require_valid_lease_def
  by (intro steps_intros)+

lemma serve_keyed: "keyed q \<Longrightarrow> keyed (serve digest r q)"
  using keys_operations [THEN keys.stepsD] by (cases r) auto

text \<open>The scheduler's calls change the queue through the port only.\<close>

interpretation queue_keys: stepwise "\<lambda>s t. keyed (sc_queue s) \<longrightarrow> keyed (sc_queue t)"
  by unfold_locales auto

lemma queue_keys_on_queue [steps_intros]: "keys.steps m \<Longrightarrow> queue_keys.steps (on_queue m)"
  by (auto simp: queue_keys.steps_def on_queue_def split: prod.split dest: keys.stepsD)

lemma queue_keys_calls [steps_intros]:
  "queue_keys.steps sc_now" "queue_keys.steps sc_new_id" "queue_keys.steps (put_schedule sd)" "queue_keys.steps (put_fire key fire)"
  "queue_keys.steps (writes (sc_expressions_update h))"
  by (auto simp: queue_keys.steps_def run_simps sc_now_def sc_new_id_def put_schedule_def put_fire_def)

lemma queue_keys_helpers [steps_intros]:
  "queue_keys.steps (sc_current now)" "queue_keys.steps (require_schedule k)" "queue_keys.steps (expression_of k)"
  unfolding sc_current_def require_schedule_def expression_of_def by (intro steps_intros)+

lemma queue_keys_operations:
  "queue_keys.steps (add_schedule zones sd first now)" "queue_keys.steps (get_schedule k)" "queue_keys.steps list_schedules"
  "queue_keys.steps (list_fires k')" "queue_keys.steps (set_enabled zones k b now)"
  "queue_keys.steps (scheduler_tick (task_queue_port digest) zones now)"
  "queue_keys.steps (run_now (task_queue_port digest) k now)"
  unfolding add_schedule_def get_schedule_def list_schedules_def list_fires_def set_enabled_def scheduler_tick_def run_now_def
    fire_due_locked_def fire_selected_def record_fire_def task_port_simps
  by (intro steps_intros keys_operations)+

lemma queue_keys_after:
  assumes "keyed (sc_queue s)"
  shows "queue_keys.steps m \<Longrightarrow> keyed (sc_queue (snd (m s)))"
  using assms queue_keys.stepsD [of m s] by simp

lemma sched_serve_keyed:
  assumes "keyed (sc_queue s)"
  shows "keyed (sc_queue (sched_serve digest zones r s))"
proof (cases r)
  case (QueueCall r')
  then show ?thesis using serve_keyed [OF assms] by simp
qed (simp_all only: sched_serve.simps queue_keys_after [OF assms] queue_keys_operations)

lemma fold_keyed: "keyed (sc_queue s) \<Longrightarrow> keyed (sc_queue (fold (sched_serve digest zones) rs s))"
proof (induction rs arbitrary: s)
  case (Cons r rs)
  from Cons.IH [OF sched_serve_keyed [OF Cons.prems]] show ?case unfolding fold_simps .
qed simp

lemma history_keyed: "keyed (sc_queue (sched_history digest zones env queue_env max_due rs))"
  unfolding sched_history_def by (rule fold_keyed) (simp add: start_scheduler_def start_queue_def keyed_def)

text \<open>A tick starts no second task of schedule \<open>k\<close>.\<close>

definition overlap_respected :: "text_t \<Rightarrow> task_queue scheduler \<Rightarrow> task_queue scheduler \<Rightarrow> bool" where
  "overlap_respected k s t \<longleftrightarrow> (case map_of (sc_schedules s) k of None \<Rightarrow> True | Some sd \<Rightarrow>
     (case sd_overlap_policy sd of
        Allow \<Rightarrow> True
      | Forbid \<Rightarrow> length (active_tasks (sc_queue t) k) \<le> max 1 (length (active_tasks (sc_queue s) k))
      | Replace \<Rightarrow> length (uncancelled (active_tasks (sc_queue t) k)) \<le> max 1 (length (uncancelled (active_tasks (sc_queue s) k)))))"

lemma tick_respects_overlap:
  assumes "table_ok zones s" "keyed (sc_queue s)"
  shows "overlap_respected k s (snd (scheduler_tick (task_queue_port digest) zones (Some (Aware now)) s))"
proof -
  let ?t = "snd (scheduler_tick (task_queue_port digest) zones (Some (Aware now)) s)"
  have counted: "length (tasks.counted all (sc_queue ?t) k) \<le> max 1 (length (tasks.counted all (sc_queue s) k))"
    if "map_of (sc_schedules s) k = Some sd" "exclusive all sd" for all sd
  proof -
    have "tasks.at_most all (max 1 (length (tasks.counted all (sc_queue s) k))) k s"
      using assms(2) by (simp add: tasks.at_most_def)
    then have "tasks.at_most all (max 1 (length (tasks.counted all (sc_queue s) k))) k ?t"
      using tasks.tick_at_most [OF assms(1), of all _ k digest now] that by (simp add: wp_final)
    then show ?thesis by (simp add: tasks.at_most_def)
  qed
  show ?thesis
    using counted [of _ True] counted [of _ False]
    by (auto simp: overlap_respected_def exclusive_def split: option.split OverlapPolicy.split)
qed

text \<open>C26: Ticks respect the overlap policy, in every history in which workers and other clients use the queue
  too: under \<open>FORBID\<close> a tick, however many occurrences and schedules it fires, leaves at most one
  active task of the schedule, unless there were more before; under \<open>REPLACE\<close> at most one active
  task that is not asked to stop. Manual runs are not limited.\<close>

theorem ticks_respect_overlap:
  "overlap_respected k (sched_history digest zones env queue_env max_due rs)
     (snd (scheduler_tick (task_queue_port digest) zones (Some (Aware now))
        (sched_history digest zones env queue_env max_due rs)))"
  by (rule tick_respects_overlap [OF history_table history_keyed])

end
