(* ===== verification/Pipeline_Models.thy ===== *)
theory Pipeline_Models
  imports Automation_Models
begin

text \<open>
  \<open>pipeline/models.py\<close> and \<open>pipeline/errors.py\<close>: pipeline runs with their stages and jobs, the
  trigger and callback requests with pydantic's validation as predicates, and the errors.
\<close>

section \<open>Status\<close>

datatype PipelineStatus = PQueued | PRunning | PSucceeded | PFailed | PCancelled

definition p_terminal :: "PipelineStatus \<Rightarrow> bool" where
  "p_terminal st \<longleftrightarrow> st \<in> {PSucceeded, PFailed, PCancelled}"

fun status_value :: "PipelineStatus \<Rightarrow> text_t" where
  "status_value PQueued = ''queued''"
| "status_value PRunning = ''running''"
| "status_value PSucceeded = ''succeeded''"
| "status_value PFailed = ''failed''"
| "status_value PCancelled = ''cancelled''"

section \<open>Requests\<close>

record PipelineJobSpec =
  js_name :: text_t
  js_duration_ms :: int
  js_should_fail :: bool

record PipelineStageSpec =
  ss_name :: text_t
  ss_jobs :: "PipelineJobSpec list"

record PipelineTriggerRequest =
  rq_name :: text_t
  rq_stages :: "PipelineStageSpec list"
  rq_idempotency_key :: "text_t option"
  rq_auto_start :: bool
  rq_variables :: "(text_t \<times> text_t) list"

definition text_within :: "nat \<Rightarrow> nat \<Rightarrow> text_t \<Rightarrow> bool" where
  "text_within a b s \<longleftrightarrow> a \<le> length s \<and> length s \<le> b"

definition optional_text_within :: "nat \<Rightarrow> nat \<Rightarrow> text_t option \<Rightarrow> bool" where
  "optional_text_within a b x = (case x of None \<Rightarrow> True | Some s \<Rightarrow> text_within a b s)"

definition job_spec_valid :: "PipelineJobSpec \<Rightarrow> bool" where
  "job_spec_valid j \<longleftrightarrow> text_within 1 100 (js_name j) \<and> 0 \<le> js_duration_ms j \<and> js_duration_ms j \<le> 60000"

definition stage_spec_valid :: "PipelineStageSpec \<Rightarrow> bool" where
  "stage_spec_valid s \<longleftrightarrow> text_within 1 100 (ss_name s) \<and> 1 \<le> length (ss_jobs s) \<and> length (ss_jobs s) \<le> 20 \<and>
     list_all job_spec_valid (ss_jobs s) \<and> distinct (map js_name (ss_jobs s))"

definition sensitive_markers :: "text_t list" where
  "sensitive_markers = [''secret'', ''token'', ''password'', ''passwd'', ''credential'', ''api_key'', ''apikey'',
     ''private_key'', ''authorization'']"

definition variables_json :: "(text_t \<times> text_t) list \<Rightarrow> json" where
  "variables_json vars = JObj (map (\<lambda>(k, v). (k, JStr v)) vars)"

text \<open>\<open>bounded_non_secret_variables\<close>\<close>

definition variables_valid :: "(text_t \<times> text_t) list \<Rightarrow> bool" where
  "variables_valid vars \<longleftrightarrow> length vars \<le> 50 \<and>
     list_all (\<lambda>(key, item). \<not> list_ex (\<lambda>marker. sublist marker (py_casefold key)) sensitive_markers \<and>
       key \<noteq> [] \<and> length key \<le> 128 \<and> length item \<le> 4096 \<and> list_all (\<lambda>c. 32 \<le> code_of c) key) vars \<and>
     utf8_length (json_dumps (variables_json vars)) \<le> 32768"

text \<open>\<open>stage_names_are_unique\<close> and the bounds of the fields.\<close>

definition trigger_valid :: "PipelineTriggerRequest \<Rightarrow> bool" where
  "trigger_valid r \<longleftrightarrow> text_within 1 100 (rq_name r) \<and> 1 \<le> length (rq_stages r) \<and> length (rq_stages r) \<le> 20 \<and>
     list_all stage_spec_valid (rq_stages r) \<and> optional_text_within 1 200 (rq_idempotency_key r) \<and>
     variables_valid (rq_variables r) \<and> distinct (map ss_name (rq_stages r)) \<and>
     (let jobs = concat (map ss_jobs (rq_stages r)) in
      length jobs \<le> 100 \<and> sum_list (map js_duration_ms jobs) \<le> 300000)"

section \<open>Runs\<close>

text \<open>The fields that \<open>_transition\<close> works on, common to runs, stages and jobs.\<close>

record progress =
  pg_status :: PipelineStatus
  pg_started_at :: "instant option"
  pg_finished_at :: "instant option"
  pg_message :: "text_t option"

definition not_started :: progress where
  "not_started = \<lparr>pg_status = PQueued, pg_started_at = None, pg_finished_at = None, pg_message = None\<rparr>"

record PipelineJobResult =
  jr_name :: text_t
  jr_duration_ms :: int
  jr_should_fail :: bool
  jr_progress :: progress

record PipelineStageResult =
  sr_name :: text_t
  sr_jobs :: "PipelineJobResult list"
  sr_progress :: progress

record PipelineRun =
  pl_id :: text_t
  pl_name :: text_t
  pl_stages :: "PipelineStageResult list"
  pl_variables :: json
  pl_idempotency_key :: "text_t option"
  pl_created_at :: instant
  pl_progress :: progress

record PipelineTriggerResult =
  tr_pipeline :: PipelineRun
  tr_replayed :: bool

record PipelineCancellationResult =
  cr_pipeline :: PipelineRun
  cr_replayed :: bool

section \<open>Callbacks\<close>

datatype CallbackTarget = TargetPipeline | TargetStage | TargetJob

fun target_value :: "CallbackTarget \<Rightarrow> text_t" where
  "target_value TargetPipeline = ''pipeline''"
| "target_value TargetStage = ''stage''"
| "target_value TargetJob = ''job''"

record PipelineCallbackRequest =
  cb_event_id :: text_t
  cb_target :: CallbackTarget
  cb_status :: PipelineStatus
  cb_stage_name :: "text_t option"
  cb_job_name :: "text_t option"
  cb_message :: "text_t option"

definition callback_valid :: "PipelineCallbackRequest \<Rightarrow> bool" where
  "callback_valid c \<longleftrightarrow> text_within 1 200 (cb_event_id c) \<and> optional_text_within 1 100 (cb_stage_name c) \<and>
     optional_text_within 1 100 (cb_job_name c) \<and> optional_text_within 0 500 (cb_message c) \<and>
     (case cb_target c of
        TargetPipeline \<Rightarrow> cb_stage_name c = None \<and> cb_job_name c = None
      | TargetStage \<Rightarrow> cb_stage_name c \<noteq> None \<and> cb_job_name c = None
      | TargetJob \<Rightarrow> cb_stage_name c \<noteq> None \<and> cb_job_name c \<noteq> None)"

record PipelineCallbackResult =
  kr_pipeline :: PipelineRun
  kr_duplicate :: bool

section \<open>Errors\<close>

datatype pipeline_error =
    PipelineNotFoundError text_t
  | PipelineTransitionError text_t
  | PipelineInvariantError text_t
  | PipelineIdempotencyConflictError text_t
  | PipelineTargetNotFoundError text_t
  | PipelineServiceClosedError text_t
  | PipelineStorageError text_t  \<comment> \<open>raised by the persistence adapter\<close>
  | PipelineValueError text_t
  | PipelineKeyError text_t

text \<open>\<open>map_pipeline_error\<close>: HTTP status and code; the last line is for errors of other classes.\<close>

fun map_pipeline_error :: "pipeline_error \<Rightarrow> (int \<times> int \<times> text_t) option" where
  "map_pipeline_error (PipelineNotFoundError m) = Some (404, 40420, m)"
| "map_pipeline_error (PipelineTargetNotFoundError m) = Some (404, 40420, m)"
| "map_pipeline_error (PipelineServiceClosedError m) = Some (503, 50320, m)"
| "map_pipeline_error (PipelineInvariantError m) = Some (409, 40921, m)"
| "map_pipeline_error (PipelineTransitionError m) = Some (409, 40920, m)"
| "map_pipeline_error (PipelineIdempotencyConflictError m) = Some (409, 40922, m)"
| "map_pipeline_error _ = None"

end
