(* ===== verification/Pipeline_Tree.thy ===== *)
theory Pipeline_Tree
  imports Pipeline_Models
begin

text \<open>
  The part of \<open>pipeline/service.py\<close> that changes one run: the transitions of runs, stages and jobs,
  their propagation to parents and children, and the application of a provider's callback. The
  source passes references into the run; here a \<open>place\<close> names the run, a stage or a job, and a
  program works on the run and the clock.
\<close>

section \<open>Places\<close>

datatype place = RunPlace | StagePlace nat | JobPlace nat nat

record tree_state =
  ts_env :: aenv
  ts_run :: PipelineRun

type_synonym 'a tree_op = "(tree_state, pipeline_error, 'a) prog"

fun progress_at :: "place \<Rightarrow> PipelineRun \<Rightarrow> progress" where
  "progress_at RunPlace r = pl_progress r"
| "progress_at (StagePlace i) r = sr_progress (pl_stages r ! i)"
| "progress_at (JobPlace i j) r = jr_progress (sr_jobs (pl_stages r ! i) ! j)"

definition set_job :: "nat \<Rightarrow> progress \<Rightarrow> PipelineStageResult \<Rightarrow> PipelineStageResult" where
  "set_job j g s = s\<lparr>sr_jobs := (sr_jobs s)[j := (sr_jobs s ! j)\<lparr>jr_progress := g\<rparr>]\<rparr>"

fun set_progress :: "place \<Rightarrow> progress \<Rightarrow> PipelineRun \<Rightarrow> PipelineRun" where
  "set_progress RunPlace g r = r\<lparr>pl_progress := g\<rparr>"
| "set_progress (StagePlace i) g r = r\<lparr>pl_stages := (pl_stages r)[i := (pl_stages r ! i)\<lparr>sr_progress := g\<rparr>]\<rparr>"
| "set_progress (JobPlace i j) g r = r\<lparr>pl_stages := (pl_stages r)[i := set_job j g (pl_stages r ! i)]\<rparr>"

definition status_at :: "place \<Rightarrow> PipelineRun \<Rightarrow> PipelineStatus" where
  "status_at p r = pg_status (progress_at p r)"

abbreviation stage_name :: "PipelineRun \<Rightarrow> nat \<Rightarrow> text_t" where
  "stage_name r i \<equiv> sr_name (pl_stages r ! i)"

abbreviation stage_jobs :: "PipelineRun \<Rightarrow> nat \<Rightarrow> PipelineJobResult list" where
  "stage_jobs r i \<equiv> sr_jobs (pl_stages r ! i)"

abbreviation job_name :: "PipelineRun \<Rightarrow> nat \<Rightarrow> nat \<Rightarrow> text_t" where
  "job_name r i j \<equiv> jr_name (stage_jobs r i ! j)"

section \<open>Transitions\<close>

definition t_now :: "instant tree_op" where
  "t_now = (\<lambda>s. (Inr (now_at (ts_env s) (now_count (ts_env s))), s\<lparr>ts_env := (ts_env s)\<lparr>now_count := Suc (now_count (ts_env s))\<rparr>\<rparr>))"

definition on_run :: "(PipelineRun \<Rightarrow> 'a) \<Rightarrow> 'a tree_op" where
  "on_run f = reads (\<lambda>s. f (ts_run s))"

definition put_progress :: "place \<Rightarrow> progress \<Rightarrow> unit tree_op" where
  "put_progress p g = writes (ts_run_update (set_progress p g))"

fun allowed_transitions :: "PipelineStatus \<Rightarrow> PipelineStatus list" where
  "allowed_transitions PQueued = [PRunning, PCancelled]"
| "allowed_transitions PRunning = [PSucceeded, PFailed, PCancelled]"
| "allowed_transitions _ = []"

definition cannot_transition :: "PipelineStatus \<Rightarrow> PipelineStatus \<Rightarrow> pipeline_error" where
  "cannot_transition old new =
     PipelineTransitionError (''cannot transition '' @ status_value old @ '' to '' @ status_value new)"

definition assert_transition_allowed :: "PipelineStatus \<Rightarrow> PipelineStatus \<Rightarrow> unit tree_op" where
  "assert_transition_allowed old new =
     (if old = new then ret ()
      else if old = PQueued \<and> new \<in> {PSucceeded, PFailed} then ret ()
      else ensure (new \<in> set (allowed_transitions old)) (cannot_transition old new))"

definition moved :: "PipelineStatus \<Rightarrow> text_t option \<Rightarrow> instant \<Rightarrow> progress \<Rightarrow> progress" where
  "moved new message changed_at g =
     \<lparr>pg_status = new,
      pg_started_at = (if new = PRunning \<and> pg_started_at g = None then Some changed_at else pg_started_at g),
      pg_finished_at = (if p_terminal new then Some changed_at else pg_finished_at g),
      pg_message = (case message of None \<Rightarrow> pg_message g | Some m \<Rightarrow> Some m)\<rparr>"

definition transition :: "place \<Rightarrow> PipelineStatus \<Rightarrow> text_t option \<Rightarrow> unit tree_op" where
  "transition p new message =
     andThen (on_run (progress_at p)) (\<lambda>g.
     if pg_status g = new then ret ()
     else
       andThen (ensure (new \<in> set (allowed_transitions (pg_status g))) (cannot_transition (pg_status g) new)) (\<lambda>_.
       andThen t_now (\<lambda>changed_at.
       put_progress p (moved new message changed_at g))))"

definition start :: "place \<Rightarrow> unit tree_op" where
  "start p =
     andThen (on_run (status_at p)) (\<lambda>st.
     if st = PQueued then transition p PRunning None
     else ensure (st = PRunning) (PipelineTransitionError (''cannot start a '' @ status_value st @ '' result'')))"

definition finish :: "place \<Rightarrow> PipelineStatus \<Rightarrow> text_t option \<Rightarrow> unit tree_op" where
  "finish p new message =
     andThen (ensure (p_terminal new) (PipelineValueError ''_finish requires a terminal status'')) (\<lambda>_.
     andThen (on_run (status_at p)) (\<lambda>st.
     if st = new then ret ()
     else
       andThen (if st = PQueued \<and> new \<noteq> PCancelled then start p else ret ()) (\<lambda>_.
       transition p new message)))"

section \<open>Propagation\<close>

definition cancel_unless_terminal :: "text_t \<Rightarrow> place \<Rightarrow> unit tree_op" where
  "cancel_unless_terminal message p =
     andThen (on_run (status_at p)) (\<lambda>st.
     if p_terminal st then ret () else finish p PCancelled (Some message))"

definition cancel_unfinished_jobs :: "nat \<Rightarrow> text_t \<Rightarrow> unit tree_op" where
  "cancel_unfinished_jobs i message =
     andThen (on_run (\<lambda>r. length (stage_jobs r i))) (\<lambda>n.
     for_each (\<lambda>j. cancel_unless_terminal message (JobPlace i j)) [0..<n])"

definition cancel_unfinished_children :: "text_t \<Rightarrow> unit tree_op" where
  "cancel_unfinished_children message =
     andThen (on_run (\<lambda>r. length (pl_stages r))) (\<lambda>n.
     for_each (\<lambda>i.
       andThen (cancel_unfinished_jobs i message) (\<lambda>_.
       cancel_unless_terminal message (StagePlace i))) [0..<n])"

definition mark_terminal :: "unit tree_op" where
  "mark_terminal =
     andThen (on_run (status_at RunPlace)) (\<lambda>st.
     ensure (p_terminal st) (PipelineInvariantError ''completion requires a terminal pipeline''))"

definition jobs_succeeded :: "PipelineStageResult \<Rightarrow> bool" where
  "jobs_succeeded s \<longleftrightarrow> list_all (\<lambda>j. pg_status (jr_progress j) = PSucceeded) (sr_jobs s)"

definition stage_status :: "PipelineStageResult \<Rightarrow> PipelineStatus" where
  "stage_status s = pg_status (sr_progress s)"

definition stages_succeeded :: "PipelineRun \<Rightarrow> bool" where
  "stages_succeeded r \<longleftrightarrow> list_all (\<lambda>s. stage_status s = PSucceeded) (pl_stages r)"

definition aggregate_success :: "nat option \<Rightarrow> unit tree_op" where
  "aggregate_success stage =
     andThen
       (case stage of
          None \<Rightarrow> ret ()
        | Some i \<Rightarrow>
            andThen (on_run (\<lambda>r. jobs_succeeded (pl_stages r ! i))) (\<lambda>all.
            if all then finish (StagePlace i) PSucceeded None else ret ())) (\<lambda>_.
     andThen (on_run stages_succeeded) (\<lambda>all.
     if all then andThen (finish RunPlace PSucceeded None) (\<lambda>_. mark_terminal) else ret ()))"

definition fail_run :: "text_t option \<Rightarrow> unit tree_op" where
  "fail_run message =
     andThen (finish RunPlace PFailed message) (\<lambda>_.
     andThen (cancel_unfinished_children ''not executed after the pipeline failed'') (\<lambda>_.
     mark_terminal))"

definition fail_job :: "nat \<Rightarrow> nat \<Rightarrow> text_t option \<Rightarrow> unit tree_op" where
  "fail_job i j message =
     andThen (finish (JobPlace i j) PFailed message) (\<lambda>_.
     andThen (on_run (\<lambda>r. (stage_name r i, job_name r i j))) (\<lambda>(stage, job).
     andThen (finish (StagePlace i) PFailed (Some (''job '' @ job @ '' failed''))) (\<lambda>_.
     andThen (cancel_unfinished_jobs i ''not executed after an earlier job failed'') (\<lambda>_.
     fail_run (Some (''stage '' @ stage @ '', job '' @ job @ '' failed''))))))"

section \<open>The checks of the source\<close>

definition assert_stage_invariants :: "PipelineStageResult \<Rightarrow> unit tree_op" where
  "assert_stage_invariants s =
     andThen (ensure (\<not> (stage_status s = PSucceeded \<and> \<not> jobs_succeeded s))
       (PipelineInvariantError (''succeeded stage '' @ sr_name s @ '' has an unfinished job''))) (\<lambda>_.
     ensure (\<not> (p_terminal (stage_status s) \<and> \<not> list_all (\<lambda>j. p_terminal (pg_status (jr_progress j))) (sr_jobs s)))
       (PipelineInvariantError (''terminal stage '' @ sr_name s @ '' has an active job'')))"

definition assert_run_invariants :: "unit tree_op" where
  "assert_run_invariants =
     andThen (on_run (\<lambda>r. r)) (\<lambda>r.
     andThen (for_each assert_stage_invariants (pl_stages r)) (\<lambda>_.
     andThen (ensure (\<not> (status_at RunPlace r = PSucceeded \<and> \<not> stages_succeeded r))
       (PipelineInvariantError ''succeeded pipeline has a non-succeeded stage'')) (\<lambda>_.
     ensure (\<not> (p_terminal (status_at RunPlace r) \<and> \<not> list_all (\<lambda>s. p_terminal (stage_status s)) (pl_stages r)))
       (PipelineInvariantError ''terminal pipeline has an active stage''))))"

section \<open>Callbacks\<close>

text \<open>\<open>next((item for item in xs if item.name == name), None)\<close>, as an index.\<close>

fun index_where :: "('a \<Rightarrow> bool) \<Rightarrow> 'a list \<Rightarrow> nat option" where
  "index_where p [] = None"
| "index_where p (x # xs) = (if p x then Some 0 else map_option Suc (index_where p xs))"

definition stage_for_callback :: "PipelineCallbackRequest \<Rightarrow> PipelineRun \<Rightarrow> nat option" where
  "stage_for_callback c r =
     (case cb_stage_name c of None \<Rightarrow> None | Some name \<Rightarrow> index_where (\<lambda>s. sr_name s = name) (pl_stages r))"

definition name_text :: "text_t option \<Rightarrow> text_t" where
  "name_text x = (case x of None \<Rightarrow> ''None'' | Some s \<Rightarrow> s)"

definition callback_target :: "PipelineCallbackRequest \<Rightarrow> place tree_op" where
  "callback_target c =
     (if cb_target c = TargetPipeline then ret RunPlace
      else
        andThen (on_run (stage_for_callback c)) (\<lambda>stage.
        andThen (from_option (PipelineTargetNotFoundError (''stage not found: '' @ name_text (cb_stage_name c))) stage) (\<lambda>i.
        if cb_target c = TargetStage then ret (StagePlace i)
        else
          andThen (on_run (\<lambda>r. index_where (\<lambda>j. Some (jr_name j) = cb_job_name c) (stage_jobs r i))) (\<lambda>job.
          andThen (from_option (PipelineTargetNotFoundError (''job not found: '' @ name_text (cb_job_name c))) job) (\<lambda>j.
          ret (JobPlace i j))))))"

definition cannot_change_child :: "PipelineStatus \<Rightarrow> text_t \<Rightarrow> pipeline_error" where
  "cannot_change_child st what =
     PipelineTransitionError (''cannot change a child of a '' @ status_value st @ '' '' @ what)"

definition validate_callback :: "PipelineCallbackRequest \<Rightarrow> place \<Rightarrow> unit tree_op" where
  "validate_callback c target =
     andThen (on_run (\<lambda>r. r)) (\<lambda>r.
     andThen (ensure (\<not> (cb_target c \<noteq> TargetPipeline \<and> p_terminal (status_at RunPlace r)))
       (cannot_change_child (status_at RunPlace r) ''pipeline'')) (\<lambda>_.
     let stage = stage_for_callback c r in
     andThen
       (case stage of
          None \<Rightarrow> ret ()
        | Some i \<Rightarrow> ensure (\<not> (cb_target c = TargetJob \<and> p_terminal (status_at (StagePlace i) r)))
            (cannot_change_child (status_at (StagePlace i) r) ''stage'')) (\<lambda>_.
     andThen (assert_transition_allowed (status_at target r) (cb_status c)) (\<lambda>_.
     if cb_status c \<noteq> PSucceeded then ret ()
     else case cb_target c of
         TargetPipeline \<Rightarrow>
           ensure (list_all (\<lambda>s. stage_status s = PSucceeded \<and> jobs_succeeded s) (pl_stages r))
             (PipelineInvariantError ''pipeline cannot succeed until every stage and job succeeds'')
       | TargetStage \<Rightarrow>
           (case stage of
              None \<Rightarrow> raise (PipelineValueError ''AssertionError'')
            | Some i \<Rightarrow> ensure (jobs_succeeded (pl_stages r ! i))
                (PipelineInvariantError ''stage cannot succeed until every job succeeds''))
       | TargetJob \<Rightarrow> ret ()))))"

definition apply_pipeline_callback :: "PipelineCallbackRequest \<Rightarrow> unit tree_op" where
  "apply_pipeline_callback c =
     (case cb_status c of
        PQueued \<Rightarrow> transition RunPlace PQueued (cb_message c)
      | PRunning \<Rightarrow> start RunPlace
      | PSucceeded \<Rightarrow> andThen (finish RunPlace PSucceeded (cb_message c)) (\<lambda>_. mark_terminal)
      | PFailed \<Rightarrow> fail_run (cb_message c)
      | PCancelled \<Rightarrow>
          andThen (finish RunPlace PCancelled (cb_message c)) (\<lambda>_.
          andThen (cancel_unfinished_children ''pipeline was cancelled by provider'') (\<lambda>_.
          mark_terminal)))"

definition apply_stage_callback :: "PipelineCallbackRequest \<Rightarrow> nat \<Rightarrow> unit tree_op" where
  "apply_stage_callback c i =
     (case cb_status c of
        PQueued \<Rightarrow> transition (StagePlace i) PQueued (cb_message c)
      | PRunning \<Rightarrow> andThen (start RunPlace) (\<lambda>_. start (StagePlace i))
      | PSucceeded \<Rightarrow>
          andThen (start RunPlace) (\<lambda>_.
          andThen (finish (StagePlace i) PSucceeded (cb_message c)) (\<lambda>_.
          aggregate_success (Some i)))
      | PFailed \<Rightarrow>
          andThen (start RunPlace) (\<lambda>_.
          andThen (finish (StagePlace i) PFailed (cb_message c)) (\<lambda>_.
          andThen (cancel_unfinished_jobs i ''not executed after the stage failed'') (\<lambda>_.
          andThen (on_run (\<lambda>r. stage_name r i)) (\<lambda>name.
          fail_run (Some (''stage '' @ name @ '' failed''))))))
      | PCancelled \<Rightarrow>
          andThen (finish (StagePlace i) PCancelled (cb_message c)) (\<lambda>_.
          andThen (cancel_unfinished_jobs i ''stage was cancelled by provider'') (\<lambda>_.
          andThen (on_run (\<lambda>r. stage_name r i)) (\<lambda>name.
          andThen (finish RunPlace PCancelled (Some (''stage '' @ name @ '' was cancelled''))) (\<lambda>_.
          andThen (cancel_unfinished_children ''not executed after a stage was cancelled'') (\<lambda>_.
          mark_terminal))))))"

definition apply_job_callback :: "PipelineCallbackRequest \<Rightarrow> nat \<Rightarrow> nat \<Rightarrow> unit tree_op" where
  "apply_job_callback c i j =
     (case cb_status c of
        PQueued \<Rightarrow> transition (JobPlace i j) PQueued (cb_message c)
      | PRunning \<Rightarrow> andThen (start RunPlace) (\<lambda>_. andThen (start (StagePlace i)) (\<lambda>_. start (JobPlace i j)))
      | PSucceeded \<Rightarrow>
          andThen (start RunPlace) (\<lambda>_.
          andThen (start (StagePlace i)) (\<lambda>_.
          andThen (finish (JobPlace i j) PSucceeded (cb_message c)) (\<lambda>_.
          aggregate_success (Some i))))
      | PFailed \<Rightarrow>
          andThen (start RunPlace) (\<lambda>_.
          andThen (start (StagePlace i)) (\<lambda>_.
          fail_job i j (cb_message c)))
      | PCancelled \<Rightarrow>
          andThen (finish (JobPlace i j) PCancelled (cb_message c)) (\<lambda>_.
          andThen (on_run (\<lambda>r. (stage_name r i, job_name r i j))) (\<lambda>(stage, job).
          andThen (finish (StagePlace i) PCancelled (Some (''job '' @ job @ '' was cancelled''))) (\<lambda>_.
          andThen (cancel_unfinished_jobs i ''not executed after a job was cancelled'') (\<lambda>_.
          andThen (finish RunPlace PCancelled (Some (''stage '' @ stage @ '', job '' @ job @ '' was cancelled''))) (\<lambda>_.
          andThen (cancel_unfinished_children ''not executed after a job was cancelled'') (\<lambda>_.
          mark_terminal)))))))"

definition apply_to_target :: "PipelineCallbackRequest \<Rightarrow> place \<Rightarrow> unit tree_op" where
  "apply_to_target c target =
     (case target of
        RunPlace \<Rightarrow> apply_pipeline_callback c
      | StagePlace i \<Rightarrow> apply_stage_callback c i
      | JobPlace i j \<Rightarrow> apply_job_callback c i j)"

section \<open>The edits of the service methods\<close>

text \<open>The parts of \<open>_initialize_locked\<close>, \<open>cancel\<close>, \<open>apply_callback\<close> and \<open>shutdown\<close> that work on one run.\<close>

definition recover_run :: "bool tree_op" where
  "recover_run =
     andThen (on_run (status_at RunPlace)) (\<lambda>st.
     andThen
       (if p_terminal st then ret ()
        else
          andThen (finish RunPlace PCancelled (Some ''pipeline interrupted by service restart'')) (\<lambda>_.
          cancel_unfinished_children ''not resumed after service restart'')) (\<lambda>_.
     andThen assert_run_invariants (\<lambda>_.
     andThen mark_terminal (\<lambda>_.
     ret (\<not> p_terminal st)))))"

definition cancel_tree :: "unit tree_op" where
  "cancel_tree =
     andThen (finish RunPlace PCancelled (Some ''cancelled by user'')) (\<lambda>_.
     andThen (cancel_unfinished_children ''pipeline was cancelled'') (\<lambda>_.
     andThen mark_terminal (\<lambda>_.
     assert_run_invariants)))"

definition callback_tree :: "PipelineCallbackRequest \<Rightarrow> unit tree_op" where
  "callback_tree c =
     andThen (callback_target c) (\<lambda>target.
     andThen (validate_callback c target) (\<lambda>_.
     andThen (apply_to_target c target) (\<lambda>_.
     assert_run_invariants)))"

definition shut_run :: "unit tree_op" where
  "shut_run =
     andThen (on_run (status_at RunPlace)) (\<lambda>st.
     if p_terminal st then ret ()
     else
       andThen (finish RunPlace PCancelled (Some ''pipeline service shut down'')) (\<lambda>_.
       andThen (cancel_unfinished_children ''pipeline service shut down'') (\<lambda>_.
       andThen mark_terminal (\<lambda>_.
       assert_run_invariants))))"

end
