(* ===== verification/Pipeline_Laws.thy ===== *)
theory Pipeline_Laws
  imports Pipeline_Tree Stepwise
begin

text \<open>
  What the operations on one run do to the statuses. \<open>view r\<close> maps each place of a run to its
  status; the exact effect of every operation is a rule on views. \<open>run_ok\<close> is the consistency of
  parents and children; the source checks a part of it in \<open>_assert_run_invariants\<close>.
\<close>

section \<open>Views\<close>

definition places :: "PipelineRun \<Rightarrow> place set" where
  "places r = {RunPlace} \<union> {StagePlace i | i. i < length (pl_stages r)} \<union>
     {JobPlace i j | i j. i < length (pl_stages r) \<and> j < length (stage_jobs r i)}"

lemma in_places [simp]:
  "RunPlace \<in> places r"
  "StagePlace i \<in> places r \<longleftrightarrow> i < length (pl_stages r)"
  "JobPlace i j \<in> places r \<longleftrightarrow> i < length (pl_stages r) \<and> j < length (stage_jobs r i)"
  by (auto simp: places_def)

type_synonym view = "place \<Rightarrow> PipelineStatus option"

definition view :: "PipelineRun \<Rightarrow> view" where
  "view r = (\<lambda>p. if p \<in> places r then Some (status_at p r) else None)"

lemma dom_view: "dom (view r) = places r"
  by (auto simp: view_def split: if_splits)

lemma view_SomeD: "view r p = Some c \<Longrightarrow> p \<in> places r \<and> status_at p r = c"
  by (auto simp: view_def split: if_splits)

lemma view_run: "view r RunPlace = Some (status_at RunPlace r)"
  by (simp add: view_def)

lemma set_job_simps [simp]:
  "length (sr_jobs (set_job j g s)) = length (sr_jobs s)"
  "sr_progress (set_job j g s) = sr_progress s"
  "sr_name (set_job j g s) = sr_name s"
  by (simp_all add: set_job_def)

lemma places_set_progress [simp]: "places (set_progress p g r) = places r"
proof (cases p)
  case (StagePlace i)
  then show ?thesis by (cases "i < length (pl_stages r)") (auto simp: places_def nth_list_update)
next
  case (JobPlace i j)
  then show ?thesis by (cases "i < length (pl_stages r)") (auto simp: places_def nth_list_update)
qed (simp add: places_def)

lemma progress_at_set_progress:
  "p \<in> places r \<Longrightarrow> progress_at q (set_progress p g r) = (if q = p then g else progress_at q r)"
  by (cases p; cases q) (auto simp: nth_list_update set_job_def)

lemma view_set_progress: "p \<in> places r \<Longrightarrow> view (set_progress p g r) = (view r)(p \<mapsto> pg_status g)"
  by (auto simp: view_def fun_eq_iff status_at_def progress_at_set_progress)

section \<open>Consistency\<close>

fun child_ok :: "PipelineStatus \<Rightarrow> PipelineStatus \<Rightarrow> bool" where
  "child_ok PQueued c = (c = PQueued)"
| "child_ok PRunning c = (c \<in> {PQueued, PRunning, PSucceeded})"
| "child_ok PSucceeded c = (c = PSucceeded)"
| "child_ok _ c = p_terminal c"

definition run_ok :: "PipelineRun \<Rightarrow> bool" where
  "run_ok r \<longleftrightarrow> list_all (\<lambda>s. child_ok (status_at RunPlace r) (stage_status s) \<and>
     list_all (\<lambda>j. child_ok (stage_status s) (pg_status (jr_progress j))) (sr_jobs s)) (pl_stages r)"

definition view_ok :: "view \<Rightarrow> bool" where
  "view_ok V \<longleftrightarrow> (\<forall>i c. V (StagePlace i) = Some c \<longrightarrow> child_ok (the (V RunPlace)) c) \<and>
     (\<forall>i j c. V (JobPlace i j) = Some c \<longrightarrow> V (StagePlace i) \<noteq> None \<and> child_ok (the (V (StagePlace i))) c)"

lemma stage_at: "stage_status (pl_stages r ! i) = status_at (StagePlace i) r"
  by (simp add: stage_status_def status_at_def)

lemma job_at: "pg_status (jr_progress (stage_jobs r i ! j)) = status_at (JobPlace i j) r"
  by (simp add: status_at_def)

lemma run_ok_view: "run_ok r \<longleftrightarrow> view_ok (view r)"
  by (auto simp: run_ok_def view_ok_def list_all_length stage_at job_at view_def)

section \<open>Transitions\<close>

lemmas tree_op_defs = on_run_def t_now_def put_progress_def

lemma wp_on_run [wp_intros]: "Q (f (ts_run s)) s \<Longrightarrow> wp (on_run f) Q E s"
  by (simp add: on_run_def wp_reads)

abbreviation tview :: "tree_state \<Rightarrow> view" where
  "tview s \<equiv> view (ts_run s)"

abbreviation tstatus :: "place \<Rightarrow> tree_state \<Rightarrow> PipelineStatus" where
  "tstatus p s \<equiv> status_at p (ts_run s)"

lemma tview_SomeI: "p \<in> places (ts_run s) \<Longrightarrow> tview s p = Some (tstatus p s)"
  by (simp add: view_def)

lemma wp_transition:
  assumes "tview s p = Some c" and "new \<in> set (allowed_transitions c)"
    and "\<And>t. tview t = (tview s)(p \<mapsto> new) \<Longrightarrow> Q () t"
  shows "wp (transition p new message) Q E s"
proof -
  have p: "p \<in> places (ts_run s)" "pg_status (progress_at p (ts_run s)) = c"
    using view_SomeD [OF assms(1)] by (auto simp: status_at_def)
  have "c \<noteq> new" using assms(2) by (cases c) auto
  then show ?thesis
    using assms(2) p
    by (simp add: transition_def wp_simps tree_op_defs wp_def ret_def reads_def run_simps)
      (rule assms(3), simp add: view_set_progress moved_def)
qed

lemma wp_transition_same:
  "tview s p = Some new \<Longrightarrow> Q () s \<Longrightarrow> wp (transition p new message) Q E s"
  by (drule view_SomeD) (simp add: transition_def on_run_def wp_simps status_at_def)

lemma wp_start:
  assumes "tview s p = Some c" "c \<in> {PQueued, PRunning}"
    and "\<And>t. tview t = (tview s)(p \<mapsto> PRunning) \<Longrightarrow> Q () t"
  shows "wp (start p) Q E s"
proof (cases c)
  case PQueued
  then show ?thesis
    using assms unfolding start_def
    by (auto intro!: wp_intros wp_transition [where c = PQueued] dest: view_SomeD)
next
  case PRunning
  then have "(tview s)(p \<mapsto> PRunning) = tview s" using assms(1) by auto
  then show ?thesis
    using assms PRunning unfolding start_def
    by (auto intro!: wp_intros dest: view_SomeD)
qed (use assms in simp_all)

definition may_finish :: "PipelineStatus \<Rightarrow> PipelineStatus \<Rightarrow> bool" where
  "may_finish c new \<longleftrightarrow> p_terminal new \<and> (\<not> p_terminal c \<or> c = new)"

lemma wp_finish:
  assumes "tview s p = Some c" "may_finish c new"
    and "\<And>t. tview t = (tview s)(p \<mapsto> new) \<Longrightarrow> Q () t"
  shows "wp (finish p new message) Q E s"
proof (cases "c = new")
  case True
  then have "(tview s)(p \<mapsto> new) = tview s" using assms(1) by auto
  then show ?thesis
    using assms True unfolding finish_def may_finish_def
    by (auto intro!: wp_intros dest: view_SomeD)
next
  case False
  then have st: "tstatus p s = c" "\<not> p_terminal c" "p_terminal new"
    using assms by (auto simp: may_finish_def dest: view_SomeD)
  have moved: "wp (transition p new message) Q E t" if "tview t = (tview s)(p \<mapsto> PRunning)" for t
    by (rule wp_transition [where c = PRunning]) (use that st assms(3) in \<open>auto simp: p_terminal_def\<close>)
  show ?thesis
  proof (cases "c = PQueued \<and> new \<noteq> PCancelled")
    case True
    then show ?thesis
      unfolding finish_def
      using st False assms
      by (auto intro!: wp_intros wp_start [where c = PQueued] moved)
  next
    case no: False
    have "new \<in> set (allowed_transitions c)" using no st by (cases c) (auto simp: p_terminal_def)
    then show ?thesis
      unfolding finish_def
      using st False assms no
      by (auto intro!: wp_intros wp_transition [where c = c])
  qed
qed

section \<open>Cancellation of the rest\<close>

definition stopped :: "PipelineStatus \<Rightarrow> PipelineStatus" where
  "stopped c = (if p_terminal c then c else PCancelled)"

definition stop_at :: "(place \<Rightarrow> bool) \<Rightarrow> view \<Rightarrow> view" where
  "stop_at P V = (\<lambda>p. if P p then map_option stopped (V p) else V p)"

lemma stop_at_none: "(\<And>p. \<not> P p) \<Longrightarrow> stop_at P V = V"
  by (simp add: stop_at_def)

lemma stop_at_add: "V p = Some c \<Longrightarrow> (stop_at P V)(p \<mapsto> stopped c) = stop_at (\<lambda>q. P q \<or> q = p) V"
  by (auto simp: stop_at_def fun_eq_iff)

lemma stopped_simps [simp]: "stopped (stopped c) = stopped c" "p_terminal (stopped c)"
  by (auto simp: stopped_def p_terminal_def)

lemma wp_cancel_unless_terminal:
  assumes "tview s p = Some c" and "\<And>t. tview t = (tview s)(p \<mapsto> stopped c) \<Longrightarrow> Q () t"
  shows "wp (cancel_unless_terminal message p) Q E s"
proof (cases "p_terminal c")
  case True
  then have "(tview s)(p \<mapsto> stopped c) = tview s" using assms(1) by (auto simp: stopped_def)
  then show ?thesis
    unfolding cancel_unless_terminal_def using assms True
    by (auto intro!: wp_intros dest: view_SomeD)
next
  case False
  then show ?thesis
    unfolding cancel_unless_terminal_def using assms
    by (auto intro!: wp_intros wp_finish [where c = c] simp: may_finish_def p_terminal_def stopped_def dest: view_SomeD)
qed

lemma wp_for_each_upto:
  assumes "I 0 s" and "\<And>k t. k < n \<Longrightarrow> I k t \<Longrightarrow> wp (f k) (\<lambda>_. I (Suc k)) E t" and "\<And>t. I n t \<Longrightarrow> Q () t"
  shows "wp (for_each f [0..<n]) Q E s"
proof -
  have loop: "wp (for_each f [k..<n]) Q E t" if "I k t" "k \<le> n" for k t
    using that
  proof (induction "n - k" arbitrary: k t)
    case 0
    then show ?case by (simp add: wp_ret assms(3))
  next
    case (Suc d)
    then have "k < n" by simp
    then have "wp (f k) (\<lambda>_. wp (for_each f [Suc k..<n]) Q E) E t"
      by (intro wp_mono [OF assms(2) [OF _ Suc.prems(1)]]) (use Suc in auto)
    then show ?case using \<open>k < n\<close> by (simp add: upt_conv_Cons wp_andThen)
  qed
  show ?thesis using loop [OF assms(1)] by simp
qed

fun job_of :: "nat \<Rightarrow> place \<Rightarrow> bool" where
  "job_of i (JobPlace i' j) = (i' = i)"
| "job_of i _ = False"

fun below_stage :: "nat \<Rightarrow> place \<Rightarrow> bool" where
  "below_stage k RunPlace = False"
| "below_stage k (StagePlace i) = (i < k)"
| "below_stage k (JobPlace i j) = (i < k)"

lemma stop_at_stop_at: "stop_at P (stop_at Q V) = stop_at (\<lambda>p. P p \<or> Q p) V"
  by (auto simp: stop_at_def fun_eq_iff option.map_comp comp_def)

lemma stop_at_cong: "(\<And>p. V p \<noteq> None \<Longrightarrow> P p = Q p) \<Longrightarrow> stop_at P V = stop_at Q V"
  unfolding stop_at_def fun_eq_iff by (metis option.map(1))

lemma stop_at_other: "\<not> P p \<Longrightarrow> stop_at P V p = V p"
  by (simp add: stop_at_def)

lemma dom_stop_at [simp]: "dom (stop_at P V) = dom V"
  by (auto simp: stop_at_def dom_def)

lemma stop_at_None [simp]: "stop_at P V p = None \<longleftrightarrow> V p = None"
  by (simp add: stop_at_def)

lemma tview_places: "tview t p = None \<longleftrightarrow> p \<notin> places (ts_run t)"
  by (simp add: view_def)

lemma wp_cancel_unfinished_jobs:
  assumes "i < length (pl_stages (ts_run s))" and "\<And>t. tview t = stop_at (job_of i) (tview s) \<Longrightarrow> Q () t"
  shows "wp (cancel_unfinished_jobs i message) Q E s"
proof -
  define n where "n = length (stage_jobs (ts_run s) i)"
  define P where "P = (\<lambda>k p. \<exists>j<k. p = JobPlace i j)"
  have all: "stop_at (P n) (tview s) = stop_at (job_of i) (tview s)"
  proof (rule stop_at_cong)
    fix p assume "tview s p \<noteq> None"
    then show "P n p = job_of i p"
      by (cases p) (auto simp: P_def n_def tview_places)
  qed
  have step: "wp (cancel_unless_terminal message (JobPlace i k)) (\<lambda>_ u. tview u = stop_at (P (Suc k)) (tview s)) E t"
    if "k < n" "tview t = stop_at (P k) (tview s)" for k t
  proof -
    have "tview s (JobPlace i k) \<noteq> None" using that assms(1) by (simp add: tview_places n_def)
    then obtain c where c: "tview s (JobPlace i k) = Some c" by blast
    then have "tview t (JobPlace i k) = Some c" by (simp add: that(2) stop_at_other P_def)
    moreover have "(tview t)(JobPlace i k \<mapsto> stopped c) = stop_at (P (Suc k)) (tview s)"
      unfolding that(2) stop_at_add [where V = "tview s", OF c]
      by (rule stop_at_cong) (auto simp: P_def less_Suc_eq)
    ultimately show ?thesis by (intro wp_cancel_unless_terminal [where c = c]) (simp_all only:)
  qed
  show ?thesis
    unfolding cancel_unfinished_jobs_def
    by (intro wp_intros, fold n_def, rule wp_for_each_upto [where I = "\<lambda>k t. tview t = stop_at (P k) (tview s)"])
      (use assms(2) step in \<open>auto simp: stop_at_none P_def simp flip: all\<close>)
qed

lemma wp_cancel_unfinished_children:
  assumes "\<And>t. tview t = stop_at (\<lambda>p. p \<noteq> RunPlace) (tview s) \<Longrightarrow> Q () t"
  shows "wp (cancel_unfinished_children message) Q E s"
proof -
  define n where "n = length (pl_stages (ts_run s))"
  define P where "P = below_stage"
  have start: "stop_at (P 0) (tview s) = tview s"
  proof (rule stop_at_none)
    show "\<not> P 0 p" for p by (cases p) (simp_all add: P_def)
  qed
  have all: "stop_at (P n) (tview s) = stop_at (\<lambda>p. p \<noteq> RunPlace) (tview s)"
  proof (rule stop_at_cong)
    fix p assume "tview s p \<noteq> None"
    then show "P n p = (p \<noteq> RunPlace)"
      by (cases p) (auto simp: P_def n_def tview_places)
  qed
  have step: "wp (andThen (cancel_unfinished_jobs k message) (\<lambda>_. cancel_unless_terminal message (StagePlace k)))
      (\<lambda>_ u. tview u = stop_at (P (Suc k)) (tview s)) E t"
    if k: "k < n" and t: "tview t = stop_at (P k) (tview s)" for k t
  proof -
    have "tview s (StagePlace k) \<noteq> None" using k by (simp add: tview_places n_def)
    then obtain c where c: "tview s (StagePlace k) = Some c" by blast
    have kt: "k < length (pl_stages (ts_run t))"
      using c tview_places [of t "StagePlace k"] by (simp add: t)
    have fin: "(stop_at (job_of k) (stop_at (P k) (tview s)))(StagePlace k \<mapsto> stopped c) = stop_at (P (Suc k)) (tview s)"
      unfolding stop_at_stop_at stop_at_add [where V = "tview s", OF c]
    proof (rule stop_at_cong)
      fix p show "((job_of k p \<or> P k p) \<or> p = StagePlace k) = P (Suc k) p"
        by (cases p) (auto simp: P_def)
    qed
    have c': "stop_at (job_of k) (stop_at (P k) (tview s)) (StagePlace k) = Some c"
      by (simp add: stop_at_other P_def c)
    show ?thesis
      by (intro wp_andThenI wp_cancel_unfinished_jobs wp_cancel_unless_terminal [where c = c])
        (simp_all add: kt t c' fin)
  qed
  show ?thesis
    unfolding cancel_unfinished_children_def
    by (intro wp_intros, fold n_def, rule wp_for_each_upto [where I = "\<lambda>k t. tview t = stop_at (P k) (tview s)"])
      (use assms step in \<open>auto simp flip: all simp: start\<close>)
qed

end
