(* ===== verification/Pipeline_Callbacks.thy ===== *)
theory Pipeline_Callbacks
  imports Pipeline_Laws
begin

text \<open>
  Every operation on a run keeps its consistency \<open>run_ok\<close>, and a callback that is refused has not
  changed the run: \<open>_validate_callback\<close> refuses exactly what \<open>_apply_callback\<close> could not finish.
\<close>

section \<open>Consistent views\<close>

definition jobs_all :: "view \<Rightarrow> nat \<Rightarrow> bool" where
  "jobs_all V i \<longleftrightarrow> (\<forall>j c. V (JobPlace i j) = Some c \<longrightarrow> c = PSucceeded)"

definition stages_all :: "view \<Rightarrow> bool" where
  "stages_all V \<longleftrightarrow> (\<forall>i c. V (StagePlace i) = Some c \<longrightarrow> c = PSucceeded)"

lemma jobs_succeeded_view:
  "i < length (pl_stages r) \<Longrightarrow> jobs_succeeded (pl_stages r ! i) \<longleftrightarrow> jobs_all (view r) i"
  by (auto simp: jobs_succeeded_def jobs_all_def list_all_length job_at view_def)

lemma stages_succeeded_view: "stages_succeeded r \<longleftrightarrow> stages_all (view r)"
  by (auto simp: stages_succeeded_def stages_all_def list_all_length stage_at view_def)

text \<open>The part of consistency that holds also in the middle of an operation.\<close>

definition jobs_ok :: "view \<Rightarrow> bool" where
  "jobs_ok V \<longleftrightarrow> (\<forall>i j c. V (JobPlace i j) = Some c \<longrightarrow>
     V (StagePlace i) \<noteq> None \<and> (V (StagePlace i) = Some PSucceeded \<longrightarrow> c = PSucceeded))"

lemma view_ok_jobs_ok: "view_ok V \<Longrightarrow> jobs_ok V"
  unfolding view_ok_def jobs_ok_def by (metis child_ok.simps(3) option.sel)

lemma view_ok_stage: "view_ok V \<Longrightarrow> V (StagePlace i) = Some c \<Longrightarrow> V RunPlace = Some d \<Longrightarrow> child_ok d c"
  by (fastforce simp: view_ok_def)

lemma view_ok_job: "view_ok V \<Longrightarrow> V (JobPlace i j) = Some c \<Longrightarrow> V (StagePlace i) = Some d \<Longrightarrow> child_ok d c"
  by (fastforce simp: view_ok_def)

lemma jobs_ok_stage: "jobs_ok V \<Longrightarrow> c \<noteq> PSucceeded \<Longrightarrow> jobs_ok (V(StagePlace i \<mapsto> c))"
  by (auto simp: jobs_ok_def)

lemma jobs_ok_run: "jobs_ok V \<Longrightarrow> jobs_ok (V(RunPlace \<mapsto> c))"
  by (auto simp: jobs_ok_def)

lemma jobs_ok_job:
  "jobs_ok V \<Longrightarrow> V (StagePlace i) = Some d \<Longrightarrow> d \<noteq> PSucceeded \<Longrightarrow> jobs_ok (V(JobPlace i j \<mapsto> c))"
  by (auto simp: jobs_ok_def)

lemma jobs_ok_stop: "jobs_ok V \<Longrightarrow> jobs_ok (stop_at P V)"
  by (fastforce simp: jobs_ok_def stop_at_def stopped_def p_terminal_def split: if_splits)

lemma view_ok_stop:
  assumes "jobs_ok V" "V RunPlace = Some d" "d \<in> {PFailed, PCancelled}"
  shows "view_ok (stop_at (\<lambda>p. p \<noteq> RunPlace) V)"
proof -
  have "child_ok (stopped x) (stopped c)" if "x = PSucceeded \<longrightarrow> c = PSucceeded" for x c
    using that by (cases x) (auto simp: stopped_def p_terminal_def)
  then show ?thesis
    using assms unfolding view_ok_def jobs_ok_def stop_at_def by fastforce
qed

lemma view_ok_start_run:
  "view_ok V \<Longrightarrow> V RunPlace = Some c \<Longrightarrow> c \<in> {PQueued, PRunning} \<Longrightarrow> view_ok (V(RunPlace \<mapsto> PRunning))"
  by (auto simp: view_ok_def) (metis child_ok.simps(1))+

lemma view_ok_start_stage:
  assumes "view_ok V" "V RunPlace = Some PRunning" "V (StagePlace i) = Some c" "c \<in> {PQueued, PRunning}"
  shows "view_ok (V(StagePlace i \<mapsto> PRunning))"
proof (cases "c = PRunning")
  case True
  then show ?thesis using assms by (simp add: fun_upd_idem)
next
  case False
  then have "j = PQueued" if "V (JobPlace i k) = Some j" for j k
    using view_ok_job [OF assms(1) that assms(3)] assms(4) by simp
  then show ?thesis using assms by (auto simp: view_ok_def)
qed

lemma view_ok_job_step:
  assumes "view_ok V" "V (StagePlace i) = Some PRunning" "c \<in> {PQueued, PRunning, PSucceeded}"
  shows "view_ok (V(JobPlace i j \<mapsto> c))"
  using assms by (auto simp: view_ok_def)

lemma view_ok_stage_succeeds:
  assumes "view_ok V" "V RunPlace = Some PRunning" "jobs_all V i"
  shows "view_ok (V(StagePlace i \<mapsto> PSucceeded))"
  using assms by (auto simp: view_ok_def jobs_all_def)

lemma view_ok_run_succeeds: "view_ok V \<Longrightarrow> stages_all V \<Longrightarrow> view_ok (V(RunPlace \<mapsto> PSucceeded))"
  by (auto simp: view_ok_def stages_all_def)

section \<open>Propagation\<close>

lemma wp_mark_terminal: "tview s RunPlace = Some c \<Longrightarrow> p_terminal c \<Longrightarrow> Q () s \<Longrightarrow> wp mark_terminal Q E s"
  unfolding mark_terminal_def by (intro wp_intros) (auto dest: view_SomeD)

text \<open>Views of runs with the same places.\<close>

definition alike :: "view \<Rightarrow> view \<Rightarrow> bool" where
  "alike V W \<longleftrightarrow> dom V = dom W"

lemma alike_refl [simp]: "alike V V"
  by (simp add: alike_def)

lemma alike_set: "alike V W \<Longrightarrow> V p = Some c \<Longrightarrow> alike (V(p \<mapsto> d)) W"
  by (auto simp: alike_def)

lemma alike_stop [simp]: "alike (stop_at P V) W \<longleftrightarrow> alike V W"
  by (simp add: alike_def)

lemma wp_aggregate_success:
  assumes ok: "view_ok (tview s)" and run: "tview s RunPlace = Some PRunning"
    and stage: "\<And>i. stage = Some i \<Longrightarrow> \<exists>c. tview s (StagePlace i) = Some c"
    and Q: "\<And>t. view_ok (tview t) \<Longrightarrow> alike (tview t) (tview s) \<Longrightarrow> Q () t"
  shows "wp (aggregate_success stage) Q E s"
proof -
  let ?V = "\<lambda>t. view_ok (tview t) \<and> tview t RunPlace = Some PRunning \<and> alike (tview t) (tview s)"
  have second: "wp (andThen (on_run stages_succeeded) (\<lambda>all.
      if all then andThen (finish RunPlace PSucceeded None) (\<lambda>_. mark_terminal) else ret ())) Q E t" if "?V t" for t
    using that
    by (intro wp_finish [where c = PRunning] wp_mark_terminal [where c = PSucceeded] wp_intros)
      (auto simp: may_finish_def p_terminal_def stages_succeeded_view
        intro!: Q view_ok_run_succeeds alike_set [where c = PRunning])
  show ?thesis
  proof (cases stage)
    case None
    then show ?thesis
      unfolding aggregate_success_def using second [of s] ok run by (auto simp: wp_simps)
  next
    case (Some i)
    then obtain c where c: "tview s (StagePlace i) = Some c" using stage by blast
    then have i: "i < length (pl_stages (ts_run s))" by (auto dest: view_SomeD)
    have "may_finish c PSucceeded" using view_ok_stage [OF ok c run] by (auto simp: may_finish_def p_terminal_def)
    then show ?thesis
      unfolding aggregate_success_def Some option.case
      using i c ok run
      by (intro wp_finish [where c = c] second wp_intros)
        (auto simp: jobs_succeeded_view intro!: view_ok_stage_succeeds alike_set [where c = c] second)
  qed
qed

lemma wp_close_run:
  assumes "jobs_ok (tview s)" "tview s RunPlace = Some c" "may_finish c d" "d \<in> {PFailed, PCancelled}"
    and Q: "\<And>t. view_ok (tview t) \<Longrightarrow> alike (tview t) (tview s) \<Longrightarrow> Q () t"
  shows "wp (andThen (finish RunPlace d message) (\<lambda>_.
    andThen (cancel_unfinished_children rest) (\<lambda>_. mark_terminal))) Q E s"
proof (intro wp_andThenI wp_finish [where c = c] wp_cancel_unfinished_children wp_mark_terminal [where c = d])
  fix t u assume t: "tview t = (tview s)(RunPlace \<mapsto> d)" and u: "tview u = stop_at (\<lambda>p. p \<noteq> RunPlace) (tview t)"
  show "tview u RunPlace = Some d" by (simp only: u t stop_at_def) simp
  show "Q () u"
  proof (rule Q)
    show "view_ok (tview u)"
      unfolding u t by (rule view_ok_stop [where d = d]) (use assms in \<open>auto intro: jobs_ok_run\<close>)
    show "alike (tview u) (tview s)" by (simp only: u t alike_stop) (use assms in \<open>auto intro: alike_set\<close>)
  qed
qed (use assms in \<open>auto simp: p_terminal_def\<close>)

lemma wp_fail_run:
  assumes "jobs_ok (tview s)" "tview s RunPlace = Some c" "may_finish c PFailed"
    and "\<And>t. view_ok (tview t) \<Longrightarrow> alike (tview t) (tview s) \<Longrightarrow> Q () t"
  shows "wp (fail_run message) Q E s"
  unfolding fail_run_def by (rule wp_close_run) (use assms in auto)

lemma jobs_of_simps [simp]: "stop_at (job_of i) V RunPlace = V RunPlace" "stop_at (job_of i) V (StagePlace k) = V (StagePlace k)"
  by (simp_all add: stop_at_other)

lemma wp_fail_job:
  assumes "jobs_ok (tview s)" "tview s RunPlace = Some PRunning"
    and "tview s (StagePlace i) = Some c" "c \<in> {PQueued, PRunning}"
    and "tview s (JobPlace i j) = Some b" "may_finish b PFailed"
    and Q: "\<And>t. view_ok (tview t) \<Longrightarrow> alike (tview t) (tview s) \<Longrightarrow> Q () t"
  shows "wp (fail_job i j message) Q E s"
  unfolding fail_job_def
proof (rule wp_andThenI, rule wp_finish [where c = b], rule assms(5), rule assms(6))
  fix t assume t: "tview t = (tview s)(JobPlace i j \<mapsto> PFailed)"
  have i: "i < length (pl_stages (ts_run u))" if "alike (tview u) (tview t)" for u
    using that assms(3) dom_view [of "ts_run u"] by (auto simp: alike_def t)
  have jt: "jobs_ok (tview t)" "alike (tview t) (tview s)"
    using assms by (auto simp: t intro: jobs_ok_job alike_set)
  show "wp (andThen (on_run (\<lambda>r. (stage_name r i, job_name r i j))) (\<lambda>(stage, job).
     andThen (finish (StagePlace i) PFailed (Some (''job '' @ job @ '' failed''))) (\<lambda>_.
     andThen (cancel_unfinished_jobs i ''not executed after an earlier job failed'') (\<lambda>_.
     fail_run (Some (''stage '' @ stage @ '', job '' @ job @ '' failed'')))))) Q E t"
  proof (intro wp_andThenI wp_on_run wp_case_pairI)
    fix x y z w
    show "wp (finish (StagePlace i) PFailed x) (\<lambda>_. wp (andThen (cancel_unfinished_jobs i y) (\<lambda>_. fail_run z)) Q E) E t"
    proof (rule wp_finish [where c = c])
      fix u assume u: "tview u = (tview t)(StagePlace i \<mapsto> PFailed)"
      have ju: "jobs_ok (tview u)" "alike (tview u) (tview t)" "tview u RunPlace = Some PRunning"
        using jt assms(2,3) by (auto simp: u t intro: jobs_ok_stage alike_set)
      show "wp (andThen (cancel_unfinished_jobs i y) (\<lambda>_. fail_run z)) Q E u"
      proof (rule wp_andThenI, rule wp_cancel_unfinished_jobs [OF i [OF ju(2)]], rule wp_fail_run [where c = PRunning])
        fix v w assume v: "tview v = stop_at (job_of i) (tview u)" and w: "view_ok (tview w)" "alike (tview w) (tview v)"
        show "Q () w"
          by (rule Q [OF w(1)]) (use w(2) ju(2) jt(2) in \<open>simp add: v alike_def\<close>)
      qed (auto simp: ju may_finish_def p_terminal_def intro: jobs_ok_stop)
    qed (use assms in \<open>auto simp: t may_finish_def p_terminal_def\<close>)
  qed
qed

section \<open>The checks of the source\<close>

lemma wp_assert_run_invariants:
  assumes "view_ok (tview s)" "Q () s"
  shows "wp assert_run_invariants Q E s"
proof -
  let ?r = "ts_run s"
  have ok: "run_ok ?r" using assms(1) by (simp add: run_ok_view)
  have stage: "wp (assert_stage_invariants x) (\<lambda>_ t. t = s \<and> True) E s" if "x \<in> set (pl_stages ?r)" for x
  proof -
    have "list_all (\<lambda>j. child_ok (stage_status x) (pg_status (jr_progress j))) (sr_jobs x)"
      using ok that by (simp add: run_ok_def list_all_iff)
    then show ?thesis
      unfolding assert_stage_invariants_def
      by (cases "stage_status x") (auto simp: wp_simps jobs_succeeded_def list_all_iff p_terminal_def)
  qed
  have "stages_succeeded ?r" if "status_at RunPlace ?r = PSucceeded"
    using ok that by (simp add: run_ok_def stages_succeeded_def list_all_iff)
  moreover have "list_all (\<lambda>x. p_terminal (stage_status x)) (pl_stages ?r)" if "p_terminal (status_at RunPlace ?r)"
    using ok that by (cases "status_at RunPlace ?r") (auto simp: run_ok_def list_all_iff p_terminal_def)
  ultimately show ?thesis
    unfolding assert_run_invariants_def
    by (intro wp_intros wp_for_each_check [where P = "\<lambda>_. True"] stage) (auto simp: assms(2))
qed

section \<open>Targets\<close>

lemma index_where_Some: "index_where P xs = Some i \<Longrightarrow> i < length xs \<and> P (xs ! i)"
  by (induction xs arbitrary: i) (auto split: if_splits)

text \<open>A target fits a callback when it is the place that the callback names.\<close>

definition target_fits :: "PipelineCallbackRequest \<Rightarrow> PipelineRun \<Rightarrow> place \<Rightarrow> bool" where
  "target_fits c r p \<longleftrightarrow> p \<in> places r \<and>
     (case p of RunPlace \<Rightarrow> cb_target c = TargetPipeline
      | StagePlace i \<Rightarrow> cb_target c = TargetStage \<and> stage_for_callback c r = Some i
      | JobPlace i j \<Rightarrow> cb_target c = TargetJob \<and> stage_for_callback c r = Some i)"

lemma wp_callback_target:
  assumes "\<And>p. target_fits c (ts_run s) p \<Longrightarrow> Q p s" and "\<And>m. E (PipelineTargetNotFoundError m) s"
  shows "wp (callback_target c) Q E s"
proof -
  have stage: "i < length (pl_stages (ts_run s))" if "stage_for_callback c (ts_run s) = Some i" for i
    using that by (auto simp: stage_for_callback_def dest: index_where_Some split: option.splits)
  have target: "cb_target c = TargetJob" if "cb_target c \<noteq> TargetPipeline" "cb_target c \<noteq> TargetStage"
    using that by (cases "cb_target c") auto
  show ?thesis
    unfolding callback_target_def
    by (intro wp_intros assms) (auto simp: target_fits_def stage intro: target dest: index_where_Some)
qed

section \<open>Validation\<close>

definition reaches :: "PipelineStatus \<Rightarrow> PipelineStatus \<Rightarrow> bool" where
  "reaches c new \<longleftrightarrow> c = new \<or> c = PQueued \<or> c = PRunning \<and> new \<noteq> PQueued"

lemma wp_assert_transition_allowed:
  "wp (assert_transition_allowed c new) (\<lambda>_ t. t = s \<and> reaches c new) (\<lambda>e t. t = s) s"
  unfolding assert_transition_allowed_def reaches_def
  by (cases c; cases new) (auto simp: wp_simps)

text \<open>What a validated callback finds.\<close>

definition callback_fits :: "PipelineCallbackRequest \<Rightarrow> place \<Rightarrow> view \<Rightarrow> bool" where
  "callback_fits c p V \<longleftrightarrow> (\<exists>d. V p = Some d \<and> reaches d (cb_status c)) \<and>
     (p \<noteq> RunPlace \<longrightarrow> (\<exists>d. V RunPlace = Some d \<and> \<not> p_terminal d)) \<and>
     (\<forall>i j. p = JobPlace i j \<longrightarrow> (\<exists>d. V (StagePlace i) = Some d \<and> \<not> p_terminal d)) \<and>
     (cb_status c = PSucceeded \<longrightarrow> (p = RunPlace \<longrightarrow> stages_all V) \<and> (\<forall>i. p = StagePlace i \<longrightarrow> jobs_all V i))"

lemma stage_succeeded_view: "stages_all (view r)"
  if "list_all (\<lambda>s. stage_status s = PSucceeded \<and> jobs_succeeded s) (pl_stages r)"
  using that by (auto simp: stages_succeeded_view [symmetric] stages_succeeded_def list_all_iff)

lemma wp_validate_callback:
  assumes "target_fits c (ts_run s) p"
    and "callback_fits c p (tview s) \<Longrightarrow> Q () s" and "\<And>e. E e s"
  shows "wp (validate_callback c p) Q E s"
proof -
  have at: "tview s q = Some (tstatus q s)" if "q \<in> places (ts_run s)" for q
    using that by (rule tview_SomeI)
  have check: "wp (assert_transition_allowed d e) R E s" if "reaches d e \<Longrightarrow> R () s" for d e R
    by (rule wp_mono [OF wp_assert_transition_allowed]) (use that assms(3) in auto)
  show ?thesis
  proof (cases p)
    case RunPlace
    then show ?thesis
      unfolding validate_callback_def
      using assms by (intro wp_intros check)
        (auto simp: target_fits_def callback_fits_def at wp_simps stage_succeeded_view split: option.splits)
  next
    case (StagePlace i)
    then show ?thesis
      unfolding validate_callback_def
      using assms by (intro wp_intros check)
        (auto simp: target_fits_def callback_fits_def at wp_simps jobs_succeeded_view split: option.splits)
  next
    case (JobPlace i j)
    then show ?thesis
      unfolding validate_callback_def
      using assms by (intro wp_intros check)
        (auto simp: target_fits_def callback_fits_def at wp_simps split: option.splits)
  qed
qed

section \<open>Application\<close>

lemma live_cases: "\<not> p_terminal d \<longleftrightarrow> d \<in> {PQueued, PRunning}"
  by (cases d) (auto simp: p_terminal_def)

lemma reaches_may_finish: "reaches d new \<Longrightarrow> p_terminal new \<Longrightarrow> may_finish d new"
  by (auto simp: reaches_def may_finish_def p_terminal_def)

lemma reaches_start: "reaches d PRunning \<Longrightarrow> d \<in> {PQueued, PRunning}"
  by (auto simp: reaches_def)

lemma reaches_queued: "reaches d PQueued \<Longrightarrow> d = PQueued"
  by (auto simp: reaches_def)

lemma wp_start_run:
  assumes "view_ok (tview s)" "tview s RunPlace = Some d" "\<not> p_terminal d"
    and "\<And>t. view_ok (tview t) \<Longrightarrow> tview t = (tview s)(RunPlace \<mapsto> PRunning) \<Longrightarrow> Q () t"
  shows "wp (start RunPlace) Q E s"
  by (rule wp_start [where c = d]) (use assms in \<open>auto simp: live_cases intro!: view_ok_start_run assms(4)\<close>)

lemma wp_start_stage:
  assumes "view_ok (tview s)" "tview s RunPlace = Some PRunning" "tview s (StagePlace i) = Some d" "\<not> p_terminal d"
    and "\<And>t. view_ok (tview t) \<Longrightarrow> tview t = (tview s)(StagePlace i \<mapsto> PRunning) \<Longrightarrow> Q () t"
  shows "wp (start (StagePlace i)) Q E s"
  by (rule wp_start [where c = d]) (use assms in \<open>auto simp: live_cases intro!: view_ok_start_stage [where c = d] assms(5)\<close>)

lemma wp_apply_pipeline_callback:
  assumes ok: "view_ok (tview s)" and fits: "callback_fits c RunPlace (tview s)"
    and Q: "\<And>t. view_ok (tview t) \<Longrightarrow> alike (tview t) (tview s) \<Longrightarrow> Q () t"
  shows "wp (apply_pipeline_callback c) Q E s"
proof -
  obtain d where d: "tview s RunPlace = Some d" "reaches d (cb_status c)"
    using fits by (auto simp: callback_fits_def)
  have fin: "may_finish d (cb_status c)" if "p_terminal (cb_status c)" using reaches_may_finish [OF d(2) that] .
  show ?thesis
  proof (cases "cb_status c")
    case PQueued
    then show ?thesis
      using d ok by (auto simp: apply_pipeline_callback_def dest!: reaches_queued intro!: wp_transition_same Q)
  next
    case PRunning
    then have "\<not> p_terminal d" using reaches_start [of d] d(2) by (simp add: live_cases)
    then show ?thesis
      using PRunning d ok
      by (auto simp: apply_pipeline_callback_def intro!: wp_start_run [where d = d] Q alike_set [where c = d])
  next
    case PSucceeded
    then have "stages_all (tview s)" using fits by (simp add: callback_fits_def)
    then show ?thesis
      using PSucceeded d ok fin
      by (auto simp: apply_pipeline_callback_def p_terminal_def intro!: wp_andThenI wp_finish [where c = d]
        wp_mark_terminal [where c = PSucceeded] Q alike_set [where c = d] view_ok_run_succeeds)
  next
    case PFailed
    then show ?thesis
      using d fin view_ok_jobs_ok [OF ok]
      by (auto simp: apply_pipeline_callback_def p_terminal_def intro!: wp_fail_run [where c = d] Q)
  next
    case PCancelled
    then show ?thesis
      using d fin view_ok_jobs_ok [OF ok]
      by (auto simp: apply_pipeline_callback_def p_terminal_def intro!: wp_close_run [where c = d] Q)
  qed
qed

text \<open>The end of a stage that pulls the run with it.\<close>

lemma wp_close_stage:
  assumes "jobs_ok (tview s)" "tview s (StagePlace i) = Some c" "may_finish c d" "d \<in> {PFailed, PCancelled}"
    and "\<And>t. jobs_ok (tview t) \<Longrightarrow> alike (tview t) (tview s) \<Longrightarrow> tview t RunPlace = tview s RunPlace \<Longrightarrow> wp m Q E t"
  shows "wp (andThen (finish (StagePlace i) d message) (\<lambda>_. andThen (cancel_unfinished_jobs i rest) (\<lambda>_. m))) Q E s"
proof (intro wp_andThenI wp_finish [where c = c] wp_cancel_unfinished_jobs)
  fix t u assume t: "tview t = (tview s)(StagePlace i \<mapsto> d)"
  show "i < length (pl_stages (ts_run t))"
    using view_SomeD [of "ts_run t" "StagePlace i"] by (simp add: t)
  assume u: "tview u = stop_at (job_of i) (tview t)"
  show "wp m Q E u"
    by (rule assms(5)) (use assms(1-4) in \<open>auto simp: u t intro!: jobs_ok_stop jobs_ok_stage alike_set\<close>)
qed (use assms in auto)

lemma wp_apply_stage_callback:
  assumes ok: "view_ok (tview s)" and fits: "callback_fits c (StagePlace i) (tview s)"
    and Q: "\<And>t. view_ok (tview t) \<Longrightarrow> alike (tview t) (tview s) \<Longrightarrow> Q () t"
  shows "wp (apply_stage_callback c i) Q E s"
proof -
  obtain d e where d: "tview s (StagePlace i) = Some d" "reaches d (cb_status c)"
    and e: "tview s RunPlace = Some e" "\<not> p_terminal e"
    using fits by (auto simp: callback_fits_def)
  have fin: "may_finish d (cb_status c)" if "p_terminal (cb_status c)" using reaches_may_finish [OF d(2) that] .
  have same: "alike (tview t) (tview s)" if "alike (tview t) ((tview s)(RunPlace \<mapsto> PRunning))" for t
    using that e(1) by (auto simp: alike_def)
  show ?thesis
  proof (cases "cb_status c")
    case PQueued
    then show ?thesis
      using d ok by (auto simp: apply_stage_callback_def dest!: reaches_queued intro!: wp_transition_same Q)
  next
    case PRunning
    then have "\<not> p_terminal d" using reaches_start [of d] d(2) by (simp add: live_cases)
    then show ?thesis
      using PRunning d e ok
      by (auto simp: apply_stage_callback_def intro!: wp_andThenI wp_start_run [where d = e] wp_start_stage [where d = d] Q)
        (auto simp: alike_def)
  next
    case PSucceeded
    then have "jobs_all (tview s) i" using fits by (simp add: callback_fits_def)
    then have jobs: "jobs_all ((tview s)(RunPlace \<mapsto> PRunning)) i" by (simp add: jobs_all_def)
    show ?thesis
      using PSucceeded d e ok fin jobs
      by (auto simp: apply_stage_callback_def p_terminal_def intro!: wp_andThenI wp_start_run [where d = e] wp_finish [where c = d]
        wp_aggregate_success view_ok_stage_succeeds Q same)
        (auto simp: alike_def)
  next
    case PFailed
    then show ?thesis
      using d e ok fin
      by (auto simp: apply_stage_callback_def p_terminal_def intro!: wp_andThenI [of "start RunPlace"] wp_start_run [where d = e]
        wp_close_stage [where c = d] wp_andThenI [of "on_run f" for f] wp_on_run wp_fail_run [where c = PRunning] Q)
        (auto simp: may_finish_def p_terminal_def alike_def insert_absorb domI dest: view_ok_jobs_ok)
  next
    case PCancelled
    then show ?thesis
      using d e ok fin
      by (auto simp: apply_stage_callback_def p_terminal_def intro!: 
        wp_close_stage [where c = d] wp_andThenI [of "on_run f" for f] wp_on_run wp_close_run [where c = e] Q)
        (auto simp: may_finish_def p_terminal_def alike_def dest: view_ok_jobs_ok)
  qed
qed

lemma wp_apply_job_callback:
  assumes ok: "view_ok (tview s)" and fits: "callback_fits c (JobPlace i j) (tview s)"
    and Q: "\<And>t. view_ok (tview t) \<Longrightarrow> alike (tview t) (tview s) \<Longrightarrow> Q () t"
  shows "wp (apply_job_callback c i j) Q E s"
proof -
  obtain d f e where d: "tview s (JobPlace i j) = Some d" "reaches d (cb_status c)"
    and f: "tview s (StagePlace i) = Some f" "\<not> p_terminal f"
    and e: "tview s RunPlace = Some e" "\<not> p_terminal e"
    using fits by (auto simp: callback_fits_def)
  have fin: "may_finish d (cb_status c)" if "p_terminal (cb_status c)" using reaches_may_finish [OF d(2) that] .
  have started: "wp (andThen (start RunPlace) (\<lambda>_. andThen (start (StagePlace i)) (\<lambda>_. m))) Q E s"
    if "\<And>t. view_ok (tview t) \<Longrightarrow> tview t = (tview s)(RunPlace \<mapsto> PRunning, StagePlace i \<mapsto> PRunning) \<Longrightarrow> wp m Q E t" for m
    using d e f ok that
    by (auto intro!: wp_andThenI wp_start_run [where d = e] wp_start_stage [where d = f])
  have places: "alike (tview t) (tview s)"
    if "alike (tview t) ((tview s)(RunPlace \<mapsto> PRunning, StagePlace i \<mapsto> PRunning))" for t
    using that d e f by (simp add: alike_def insert_absorb domI)
  show ?thesis
  proof (cases "cb_status c")
    case PQueued
    then show ?thesis
      using d ok by (auto simp: apply_job_callback_def dest!: reaches_queued intro!: wp_transition_same Q)
  next
    case PRunning
    then have live: "d \<in> {PQueued, PRunning}" using reaches_start [of d] d(2) by simp
    show ?thesis
      unfolding apply_job_callback_def PRunning PipelineStatus.case
    proof (rule started, rule wp_start [where c = d])
      fix t u assume t: "view_ok (tview t)" "tview t = (tview s)(RunPlace \<mapsto> PRunning, StagePlace i \<mapsto> PRunning)"
      show "tview t (JobPlace i j) = Some d" "d \<in> {PQueued, PRunning}" using live d t by auto
      assume u: "tview u = (tview t)(JobPlace i j \<mapsto> PRunning)"
      show "Q () u"
      proof (rule Q)
        show "view_ok (tview u)" unfolding u by (rule view_ok_job_step [OF t(1)]) (simp_all add: t(2))
        show "alike (tview u) (tview s)"
          using d e f by (simp add: alike_def u t(2) insert_absorb domI)
      qed
    qed
  next
    case PSucceeded
    show ?thesis
      unfolding apply_job_callback_def PSucceeded PipelineStatus.case
    proof (rule started, rule wp_andThenI, rule wp_finish [where c = d])
      fix t u assume t: "view_ok (tview t)" "tview t = (tview s)(RunPlace \<mapsto> PRunning, StagePlace i \<mapsto> PRunning)"
      show "tview t (JobPlace i j) = Some d" "may_finish d PSucceeded"
        using d t fin PSucceeded by (auto simp: p_terminal_def)
      assume u: "tview u = (tview t)(JobPlace i j \<mapsto> PSucceeded)"
      have ut: "alike (tview u) (tview t)" unfolding u by (rule alike_set [where c = d]) (simp_all add: t d)
      show "wp (aggregate_success (Some i)) Q E u"
      proof (rule wp_aggregate_success)
        show "view_ok (tview u)" unfolding u by (rule view_ok_job_step [OF t(1)]) (simp_all add: t(2))
        show "Q () v" if "view_ok (tview v)" "alike (tview v) (tview u)" for v
          by (rule Q [OF that(1)], rule places) (use that(2) ut in \<open>simp add: alike_def t(2)\<close>)
      qed (simp_all add: u t(2))
    qed
  next
    case PFailed
    show ?thesis
      unfolding apply_job_callback_def PFailed PipelineStatus.case
    proof (rule started, rule wp_fail_job [where b = d and c = PRunning])
      fix t u assume t: "view_ok (tview t)" "tview t = (tview s)(RunPlace \<mapsto> PRunning, StagePlace i \<mapsto> PRunning)"
      show "jobs_ok (tview t)" using t(1) by (rule view_ok_jobs_ok)
      show "may_finish d PFailed" using fin PFailed by (simp add: p_terminal_def)
      assume u: "view_ok (tview u)" "alike (tview u) (tview t)"
      show "Q () u" by (rule Q [OF u(1)], rule places) (use u(2) t(2) in simp)
    qed (auto simp: d)
  next
    case PCancelled
    have fs: "f \<noteq> PSucceeded" "may_finish f PCancelled" "may_finish e PCancelled"
      using f(2) e(2) by (auto simp: p_terminal_def may_finish_def)
    have jobs: "jobs_ok ((tview s)(JobPlace i j \<mapsto> PCancelled))"
      by (rule jobs_ok_job [OF view_ok_jobs_ok [OF ok] f(1) fs(1)])
    have same: "alike ((tview s)(JobPlace i j \<mapsto> PCancelled)) (tview s)"
      by (rule alike_set [where c = d]) (simp_all add: d)
    show ?thesis
      unfolding apply_job_callback_def PCancelled PipelineStatus.case
    proof (rule wp_andThenI, rule wp_finish [OF d(1)])
      fix t assume t: "tview t = (tview s)(JobPlace i j \<mapsto> PCancelled)"
      show "wp (andThen (on_run (\<lambda>r. (stage_name r i, job_name r i j))) (\<lambda>(stage, job).
          andThen (finish (StagePlace i) PCancelled (Some (''job '' @ job @ '' was cancelled''))) (\<lambda>_.
          andThen (cancel_unfinished_jobs i ''not executed after a job was cancelled'') (\<lambda>_.
          andThen (finish RunPlace PCancelled (Some (''stage '' @ stage @ '', job '' @ job @ '' was cancelled''))) (\<lambda>_.
          andThen (cancel_unfinished_children ''not executed after a job was cancelled'') (\<lambda>_.
          mark_terminal)))))) Q E t"
        by (rule wp_andThenI, rule wp_on_run, simp only: prod.case, rule wp_close_stage [where c = f], simp only: t jobs)
          (auto simp: t f e fs intro!: wp_close_run [where c = e] Q,
            use same in \<open>simp add: t alike_def\<close>)
    qed (use fin PCancelled in \<open>simp add: p_terminal_def\<close>)
  qed
qed

lemma wp_apply_to_target:
  assumes "view_ok (tview s)" "callback_fits c p (tview s)"
    and "\<And>t. view_ok (tview t) \<Longrightarrow> alike (tview t) (tview s) \<Longrightarrow> Q () t"
  shows "wp (apply_to_target c p) Q E s"
  unfolding apply_to_target_def
  by (cases p) (use assms in \<open>auto intro!: wp_apply_pipeline_callback wp_apply_stage_callback wp_apply_job_callback\<close>)

text \<open>A callback is refused without a change of the run, or it is applied and leaves a consistent run.\<close>

lemma wp_callback_tree:
  assumes "view_ok (tview s)"
    and "\<And>t. view_ok (tview t) \<Longrightarrow> alike (tview t) (tview s) \<Longrightarrow> Q () t" and "\<And>e. E e s"
  shows "wp (callback_tree c) Q E s"
  unfolding callback_tree_def
proof (rule wp_andThenI, rule wp_callback_target)
  fix p assume "target_fits c (ts_run s) p"
  then show "wp (andThen (validate_callback c p) (\<lambda>_. andThen (apply_to_target c p) (\<lambda>_. assert_run_invariants))) Q E s"
    by (intro wp_andThenI wp_validate_callback)
      (auto intro!: assms wp_apply_to_target wp_assert_run_invariants)
qed (rule assms(3))

section \<open>The other edits\<close>

definition run_ends :: "view \<Rightarrow> bool" where
  "run_ends V \<longleftrightarrow> (\<exists>d. V RunPlace = Some d \<and> p_terminal d)"

lemma wp_close:
  assumes "view_ok (tview s)" "\<not> run_ends (tview s)"
    and "\<And>t. view_ok (tview t) \<Longrightarrow> run_ends (tview t) \<Longrightarrow> wp m Q E t"
  shows "wp (andThen (finish RunPlace PCancelled a) (\<lambda>_. andThen (cancel_unfinished_children b) (\<lambda>_. m))) Q E s"
proof (intro wp_andThenI)
  obtain c where c: "tview s RunPlace = Some c" by (simp add: view_run)
  show "wp (finish RunPlace PCancelled a) (\<lambda>_. wp (andThen (cancel_unfinished_children b) (\<lambda>_. m)) Q E) E s"
  proof (rule wp_finish [OF c])
    show "may_finish c PCancelled" using assms(2) c by (auto simp: run_ends_def may_finish_def p_terminal_def)
    fix t assume t: "tview t = (tview s)(RunPlace \<mapsto> PCancelled)"
    show "wp (andThen (cancel_unfinished_children b) (\<lambda>_. m)) Q E t"
    proof (rule wp_andThenI, rule wp_cancel_unfinished_children, rule assms(3))
      fix u assume u: "tview u = stop_at (\<lambda>p. p \<noteq> RunPlace) (tview t)"
      show "view_ok (tview u)"
        unfolding u t by (rule view_ok_stop [where d = PCancelled]) (auto intro: jobs_ok_run view_ok_jobs_ok [OF assms(1)])
      show "run_ends (tview u)" by (simp add: u t run_ends_def stop_at_other p_terminal_def)
    qed
  qed
qed

lemma wp_mark_ended: "run_ends (tview s) \<Longrightarrow> Q () s \<Longrightarrow> wp mark_terminal Q E s"
  by (auto simp: run_ends_def intro: wp_mark_terminal)

lemma run_ends_status: "run_ends (view r) \<longleftrightarrow> p_terminal (status_at RunPlace r)"
  by (simp add: run_ends_def view_run)

lemma wp_cancel_tree:
  assumes "view_ok (tview s)" "\<not> run_ends (tview s)"
    and "\<And>t. view_ok (tview t) \<Longrightarrow> run_ends (tview t) \<Longrightarrow> Q () t"
  shows "wp cancel_tree Q E s"
  unfolding cancel_tree_def
  by (intro wp_close wp_mark_ended wp_assert_run_invariants wp_andThenI assms)

lemma wp_shut_run:
  assumes "view_ok (tview s)" and "\<And>t. view_ok (tview t) \<Longrightarrow> run_ends (tview t) \<Longrightarrow> Q () t"
  shows "wp shut_run Q E s"
  unfolding shut_run_def
  by (intro wp_andThenI wp_on_run wp_ifI wp_retI wp_close wp_mark_ended wp_assert_run_invariants)
    (auto simp: run_ends_status assms)

lemma wp_recover_run:
  assumes "view_ok (tview s)"
    and "\<And>t. view_ok (tview t) \<Longrightarrow> run_ends (tview t) \<Longrightarrow>
      (run_ends (tview s) \<longrightarrow> t = s) \<Longrightarrow> Q (\<not> run_ends (tview s)) t"
  shows "wp recover_run Q E s"
proof (cases "run_ends (tview s)")
  case True
  then show ?thesis
    unfolding recover_run_def
    using assms by (intro wp_andThenI wp_on_run) (auto simp: run_ends_status intro!: wp_intros wp_assert_run_invariants wp_mark_ended)
next
  case False
  have "wp (andThen (finish RunPlace PCancelled a) (\<lambda>_. andThen (cancel_unfinished_children b) (\<lambda>_. writes (\<lambda>u. u)))) (\<lambda>_ t. view_ok (tview t) \<and> run_ends (tview t)) E s" for a b
    by (rule wp_close) (auto simp: assms(1) False wp_writes)
  then have closed: "wp (andThen (finish RunPlace PCancelled a) (\<lambda>_. cancel_unfinished_children b))
      (\<lambda>_ t. view_ok (tview t) \<and> run_ends (tview t)) E s" for a b
    by (simp add: wp_andThen [abs_def] wp_writes [abs_def])
  show ?thesis
    unfolding recover_run_def
  proof (intro wp_andThenI [of "on_run _"] wp_on_run, rule wp_andThenI, rule wp_ifI)
    assume "p_terminal (tstatus RunPlace s)"
    then show "wp (ret ()) (\<lambda>_. wp (andThen assert_run_invariants (\<lambda>_. andThen mark_terminal (\<lambda>_. ret (\<not> p_terminal (tstatus RunPlace s))))) Q E) E s"
      using False by (simp add: run_ends_status)
  next
    have "wp (andThen assert_run_invariants (\<lambda>_. andThen mark_terminal (\<lambda>_. ret (\<not> p_terminal (tstatus RunPlace s))))) Q E t"
      if "view_ok (tview t) \<and> run_ends (tview t)" for t
      using that assms(2) [of t] False
      by (intro wp_andThenI wp_assert_run_invariants wp_mark_ended wp_retI) (auto simp: run_ends_status)
    then show "wp (andThen (finish RunPlace PCancelled (Some ''pipeline interrupted by service restart''))
        (\<lambda>_. cancel_unfinished_children ''not resumed after service restart''))
        (\<lambda>_. wp (andThen assert_run_invariants (\<lambda>_. andThen mark_terminal (\<lambda>_. ret (\<not> p_terminal (tstatus RunPlace s))))) Q E) E s"
      by (intro wp_mono [OF closed])
  qed
qed

end
