(* ===== verification/Pipeline_Evolution.thy ===== *)
theory Pipeline_Evolution
  imports Pipeline_Callbacks
begin

text \<open>
  How a run changes over time: its plan never, a status only forward, and a finished run, stage or
  job not at all. Every operation on a run is built from \<open>_transition\<close>, so the locale
  \<open>stepwise\<close> carries the fact from that one to all.
\<close>

section \<open>Progress\<close>

text \<open>The timestamps that go with a status.\<close>

definition stamps_ok :: "progress \<Rightarrow> bool" where
  "stamps_ok g \<longleftrightarrow> (pg_finished_at g \<noteq> None \<longleftrightarrow> p_terminal (pg_status g)) \<and>
     (pg_status g = PQueued \<longrightarrow> pg_started_at g = None) \<and>
     (pg_status g \<in> {PRunning, PSucceeded, PFailed} \<longrightarrow> pg_started_at g \<noteq> None)"

definition precedes :: "PipelineStatus \<Rightarrow> PipelineStatus \<Rightarrow> bool" where
  "precedes c d \<longleftrightarrow> c = PQueued \<and> d \<noteq> PQueued \<or> c = PRunning \<and> p_terminal d"

definition moves :: "progress \<Rightarrow> progress \<Rightarrow> bool" where
  "moves g h \<longleftrightarrow> g = h \<or> precedes (pg_status g) (pg_status h) \<and>
     (pg_started_at g \<noteq> None \<longrightarrow> pg_started_at h = pg_started_at g) \<and> (stamps_ok g \<longrightarrow> stamps_ok h)"

lemma moves_refl [simp]: "moves g g"
  by (simp add: moves_def)

lemma moves_trans: "moves g h \<Longrightarrow> moves h k \<Longrightarrow> moves g k"
  by (auto simp: moves_def precedes_def p_terminal_def)

lemma moves_terminal: "moves g h \<Longrightarrow> p_terminal (pg_status g) \<Longrightarrow> h = g"
  by (auto simp: moves_def precedes_def p_terminal_def)

lemma moves_stamps: "moves g h \<Longrightarrow> stamps_ok g \<Longrightarrow> stamps_ok h"
  by (auto simp: moves_def)

lemma moves_moved:
  "new \<in> set (allowed_transitions (pg_status g)) \<Longrightarrow> moves g (moved new message t g)"
  by (cases "pg_status g"; cases new) (auto simp: moves_def precedes_def moved_def stamps_ok_def p_terminal_def)

section \<open>Plans\<close>

definition plan_of :: "PipelineRun \<Rightarrow> PipelineRun" where
  "plan_of r = r\<lparr>pl_progress := not_started,
     pl_stages := map (\<lambda>s. s\<lparr>sr_progress := not_started, sr_jobs := map (jr_progress_update (\<lambda>_. not_started)) (sr_jobs s)\<rparr>) (pl_stages r)\<rparr>"

lemma map_list_update_same: "f y = f (xs ! i) \<Longrightarrow> map f (xs[i := y]) = map f xs"
  by (metis list_update_beyond list_update_id map_update linorder_not_less)

lemma plan_set_progress [simp]: "plan_of (set_progress p g r) = plan_of r"
  by (cases p) (simp_all add: plan_of_def set_job_def map_list_update_same)

lemma plan_stages: "plan_of r = plan_of t \<Longrightarrow> length (pl_stages r) = length (pl_stages t)"
  by (auto simp: plan_of_def dest!: arg_cong [where f = "length \<circ> pl_stages"])

lemma plan_id: "plan_of r = plan_of t \<Longrightarrow> pl_id r = pl_id t"
  by (drule arg_cong [where f = pl_id]) (simp add: plan_of_def)

lemma plan_jobs:
  assumes "plan_of r = plan_of t" "i < length (pl_stages r)"
  shows "length (stage_jobs r i) = length (stage_jobs t i)"
proof -
  have "length (sr_jobs (pl_stages (plan_of r) ! i)) = length (sr_jobs (pl_stages (plan_of t) ! i))"
    using assms(1) by simp
  then show ?thesis using assms plan_stages [OF assms(1)] by (simp add: plan_of_def)
qed

lemma plan_places: "plan_of r = plan_of t \<Longrightarrow> places r = places t"
  using plan_stages [of r t] plan_jobs [of r t] by (auto simp: places_def)

lemma plan_should_fail:
  assumes "plan_of r = plan_of t" "i < length (pl_stages r)" "j < length (stage_jobs r i)"
  shows "jr_should_fail (stage_jobs r i ! j) = jr_should_fail (stage_jobs t i ! j)"
proof -
  have "jr_should_fail (sr_jobs (pl_stages (plan_of r) ! i) ! j) = jr_should_fail (sr_jobs (pl_stages (plan_of t) ! i) ! j)"
    using assms(1) by simp
  then show ?thesis using assms plan_stages [OF assms(1)] plan_jobs [OF assms(1,2)] by (simp add: plan_of_def)
qed

section \<open>Evolution\<close>

definition run_evolves :: "PipelineRun \<Rightarrow> PipelineRun \<Rightarrow> bool" where
  "run_evolves r t \<longleftrightarrow> plan_of t = plan_of r \<and> (\<forall>p \<in> places r. moves (progress_at p r) (progress_at p t))"

lemma run_evolves_refl [simp]: "run_evolves r r"
  by (simp add: run_evolves_def)

lemma run_evolves_trans: "run_evolves r t \<Longrightarrow> run_evolves t u \<Longrightarrow> run_evolves r u"
  unfolding run_evolves_def using plan_places [of t r] moves_trans by metis

lemma run_evolves_terminal:
  "run_evolves r t \<Longrightarrow> p \<in> places r \<Longrightarrow> p_terminal (status_at p r) \<Longrightarrow> progress_at p t = progress_at p r"
  by (auto simp: run_evolves_def status_at_def dest: moves_terminal)

lemma run_evolves_id: "run_evolves r t \<Longrightarrow> pl_id t = pl_id r"
  unfolding run_evolves_def by (blast intro: plan_id)

definition run_stamps_ok :: "PipelineRun \<Rightarrow> bool" where
  "run_stamps_ok r \<longleftrightarrow> stamps_ok (pl_progress r) \<and> list_all (\<lambda>s. stamps_ok (sr_progress s) \<and>
     list_all (\<lambda>j. stamps_ok (jr_progress j)) (sr_jobs s)) (pl_stages r)"

lemma run_stamps_places: "run_stamps_ok r \<longleftrightarrow> (\<forall>p \<in> places r. stamps_ok (progress_at p r))"
proof
  assume "run_stamps_ok r"
  then show "\<forall>p \<in> places r. stamps_ok (progress_at p r)"
    by (auto simp: run_stamps_ok_def places_def list_all_length)
next
  assume all: "\<forall>p \<in> places r. stamps_ok (progress_at p r)"
  have "stamps_ok (progress_at RunPlace r)" using all by (rule bspec) simp
  moreover have "stamps_ok (progress_at (StagePlace i) r)" if "i < length (pl_stages r)" for i
    using all by (rule bspec) (simp add: that)
  moreover have "stamps_ok (progress_at (JobPlace i j) r)" if "i < length (pl_stages r)" "j < length (stage_jobs r i)" for i j
    using all by (rule bspec) (simp add: that)
  ultimately show "run_stamps_ok r" by (simp add: run_stamps_ok_def list_all_length)
qed

lemma run_evolves_stamps: "run_evolves r t \<Longrightarrow> run_stamps_ok r \<Longrightarrow> run_stamps_ok t"
  unfolding run_stamps_places run_evolves_def using plan_places [of t r] moves_stamps by metis

text \<open>An edit reads the clock and draws no identifier.\<close>

definition env_later :: "aenv \<Rightarrow> aenv \<Rightarrow> bool" where
  "env_later e f \<longleftrightarrow> env_le e f \<and> id_count f = id_count e"

lemma env_later_refl [simp]: "env_later e e"
  by (simp add: env_later_def)

lemma env_later_trans: "env_later e f \<Longrightarrow> env_later f g \<Longrightarrow> env_later e g"
  by (auto simp: env_later_def intro: env_le_trans)

lemma env_later_le: "env_later e f \<Longrightarrow> env_le e f"
  by (simp add: env_later_def)

lemma env_later_now [simp]: "env_later e (e\<lparr>now_count := Suc (now_count e)\<rparr>)"
  by (simp add: env_later_def)

interpretation evo: stepwise "\<lambda>s (t :: tree_state). run_evolves (ts_run s) (ts_run t) \<and> env_later (ts_env s) (ts_env t)"
  by unfold_locales (auto intro: run_evolves_trans env_later_trans)

lemma set_progress_outside: "p \<notin> places r \<Longrightarrow> set_progress p g r = r"
  by (cases p) (auto simp: set_job_def list_update_beyond not_less)

lemma evolves_set_progress:
  assumes "moves (progress_at p r) g"
  shows "run_evolves r (set_progress p g r)"
  using assms set_progress_outside [of p r g]
  by (cases "p \<in> places r") (auto simp: run_evolves_def progress_at_set_progress)

lemma steps_on_run [steps_intros]: "evo.steps (on_run f)"
  by (simp add: on_run_def evo.steps_still)

lemma steps_transition [steps_intros]: "evo.steps (transition p new message)"
  unfolding evo.steps_def
proof (intro allI)
  fix s :: tree_state
  let ?g = "progress_at p (ts_run s)"
  show "run_evolves (ts_run s) (ts_run (snd (transition p new message s))) \<and> env_later (ts_env s) (ts_env (snd (transition p new message s)))"
    using moves_moved [of new ?g message]
    by (auto simp: transition_def tree_op_defs run_simps intro: evolves_set_progress)
qed

lemma steps_start [steps_intros]: "evo.steps (start p)"
  unfolding start_def by (intro steps_intros evo.steps_still)

lemma steps_finish [steps_intros]: "evo.steps (finish p new message)"
  unfolding finish_def by (intro steps_intros)

lemma steps_case_target [steps_intros]:
  "evo.steps a \<Longrightarrow> evo.steps b \<Longrightarrow> evo.steps d \<Longrightarrow>
     evo.steps (case x of TargetPipeline \<Rightarrow> a | TargetStage \<Rightarrow> b | TargetJob \<Rightarrow> d)"
  by (cases x) simp_all

lemma steps_case_place [steps_intros]:
  "evo.steps a \<Longrightarrow> (\<And>i. evo.steps (f i)) \<Longrightarrow> (\<And>i j. evo.steps (g i j)) \<Longrightarrow>
     evo.steps (case p of RunPlace \<Rightarrow> a | StagePlace i \<Rightarrow> f i | JobPlace i j \<Rightarrow> g i j)"
  by (cases p) simp_all

lemma steps_case_status [steps_intros]:
  "evo.steps a \<Longrightarrow> evo.steps b \<Longrightarrow> evo.steps d \<Longrightarrow> evo.steps e \<Longrightarrow> evo.steps h \<Longrightarrow>
     evo.steps (case y of PQueued \<Rightarrow> a | PRunning \<Rightarrow> b | PSucceeded \<Rightarrow> d | PFailed \<Rightarrow> e | PCancelled \<Rightarrow> h)"
  by (cases y) simp_all

lemmas edit_defs = cancel_unless_terminal_def cancel_unfinished_jobs_def cancel_unfinished_children_def mark_terminal_def
  aggregate_success_def fail_run_def fail_job_def assert_stage_invariants_def assert_run_invariants_def

lemma steps_edits [steps_intros]:
  "evo.steps (cancel_unfinished_children message)"
  "evo.steps (cancel_unfinished_jobs i message)" "evo.steps mark_terminal" "evo.steps (aggregate_success stage)"
  "evo.steps (fail_run reason)" "evo.steps (fail_job i j reason)" "evo.steps assert_run_invariants"
  unfolding edit_defs by (intro steps_intros)+

lemma steps_callback [steps_intros]: "evo.steps (callback_tree c)"
proof -
  have "evo.steps (callback_target c)" unfolding callback_target_def by (intro steps_intros)
  moreover have "evo.steps (validate_callback c p)" for p
    unfolding validate_callback_def assert_transition_allowed_def by (intro steps_intros)
  moreover have "evo.steps (apply_to_target c p)" for p
    unfolding apply_to_target_def apply_pipeline_callback_def apply_stage_callback_def apply_job_callback_def
    by (intro steps_intros)
  ultimately show ?thesis unfolding callback_tree_def by (intro steps_intros)
qed

lemma steps_service_edits [steps_intros]:
  "evo.steps recover_run" "evo.steps cancel_tree" "evo.steps shut_run"
  unfolding recover_run_def cancel_tree_def shut_run_def by (intro steps_intros)+

end
