(* ===== verification/Pipeline_Persistence.thy ===== *)
theory Pipeline_Persistence
  imports Pipeline_Models
begin

text \<open>
  \<open>pipeline/persistence.py\<close>: the storage port of the pipeline service and its two adapters. A
  database is its three tables with their keys, the JSON codec of pydantic (\<open>pd_dump\<close>, \<open>pd_parse\<close>)
  as parameters, and for each call an outcome, so that a call may fail before anything is
  committed or after the commit. A \<open>SELECT\<close> without \<open>ORDER BY\<close> returns its rows in an order that
  \<open>pd_rank\<close> chooses. The contract of the port is the locale \<open>pipeline_store\<close>.
\<close>

section \<open>The port\<close>

record PipelinePersistenceState =
  dr_runs :: "(text_t \<times> PipelineRun) list"
  dr_trigger_keys :: "(text_t \<times> (text_t \<times> text_t)) list"
  dr_callback_events :: "(text_t \<times> (text_t \<times> text_t) list) list"

definition no_runs :: PipelinePersistenceState where
  "no_runs = \<lparr>dr_runs = [], dr_trigger_keys = [], dr_callback_events = []\<rparr>"

record 'p PipelinePersistence =
  pp_load :: "('p, pipeline_error, PipelinePersistenceState) prog"
  pp_save :: "PipelinePersistenceState \<Rightarrow> ('p, pipeline_error, unit) prog"
  pp_clear :: "('p, pipeline_error, unit) prog"

section \<open>Tables\<close>

record 'j tables =
  tb_runs :: "(text_t \<times> 'j \<times> instant) list"
  tb_trigger_keys :: "(text_t \<times> text_t \<times> text_t) list"
  tb_callback_events :: "(text_t \<times> text_t \<times> text_t) list"

definition empty_tables :: "'j tables" where
  "empty_tables = \<lparr>tb_runs = [], tb_trigger_keys = [], tb_callback_events = []\<rparr>"

datatype db_outcome = Works | FailsBefore text_t | FailsAfter text_t

record 'j pipeline_db =
  pd_tables :: "'j tables"
  pd_dump :: "PipelineRun \<Rightarrow> 'j"
  pd_parse :: "'j \<Rightarrow> PipelineRun option"
  pd_outcome :: "nat \<Rightarrow> db_outcome"
  pd_calls :: nat
  pd_rank :: "nat \<Rightarrow> nat \<Rightarrow> nat"
  pd_now :: "nat \<Rightarrow> instant"
  pd_constraint_message :: text_t
  pd_validation_message :: text_t

type_synonym ('j, 'a) db_op = "('j pipeline_db, pipeline_error, 'a) prog"

text \<open>One transaction: its tables are kept when it commits, and only then.\<close>

definition transaction :: "('j pipeline_db \<Rightarrow> pipeline_error + 'j tables \<times> 'a) \<Rightarrow> ('j, 'a) db_op" where
  "transaction body = (\<lambda>s.
     let s' = s\<lparr>pd_calls := Suc (pd_calls s)\<rparr>
     in case pd_outcome s (pd_calls s) of
          FailsBefore m \<Rightarrow> (Inl (PipelineStorageError m), s')
        | outcome \<Rightarrow>
            (case body s of
               Inl e \<Rightarrow> (Inl e, s')
             | Inr (tables, x) \<Rightarrow>
                 (case outcome of FailsAfter m \<Rightarrow> Inl (PipelineStorageError m) | _ \<Rightarrow> Inr x, s'\<lparr>pd_tables := tables\<rparr>)))"

definition selected :: "'j pipeline_db \<Rightarrow> 'r list \<Rightarrow> 'r list" where
  "selected s rows = map (nth rows) (sort_key (pd_rank s (pd_calls s)) [0..<length rows])"

section \<open>Reading\<close>

text \<open>A dict comprehension over rows: a later row with the same key wins.\<close>

definition dict_of :: "('k \<times> 'v) list \<Rightarrow> ('k \<times> 'v) list" where
  "dict_of rows = fold (\<lambda>(k, v). AList.update k v) rows []"

definition decode_run :: "'j pipeline_db \<Rightarrow> text_t \<times> 'j \<times> instant \<Rightarrow> pipeline_error + text_t \<times> PipelineRun" where
  "decode_run s row = (case row of (run_id, snapshot_json, _) \<Rightarrow>
     (case pd_parse s snapshot_json of
        None \<Rightarrow> Inl (PipelineValueError (pd_validation_message s))
      | Some r \<Rightarrow> Inr (run_id, r)))"

text \<open>\<open>callback_events.setdefault(run_id, {})[event_id] = fingerprint\<close>\<close>

definition put_event ::
  "text_t \<times> text_t \<times> text_t \<Rightarrow> (text_t \<times> (text_t \<times> text_t) list) list \<Rightarrow> (text_t \<times> (text_t \<times> text_t) list) list" where
  "put_event row table = (case row of (run_id, event_id, fp) \<Rightarrow>
     AList.update run_id
       (AList.update event_id fp (case map_of table run_id of None \<Rightarrow> [] | Some es \<Rightarrow> es)) table)"

definition load_state :: "'j pipeline_db \<Rightarrow> pipeline_error + PipelinePersistenceState" where
  "load_state s =
     bind_sum (map_result (decode_run s) (selected s (tb_runs (pd_tables s)))) (\<lambda>rows.
     let runs = dict_of rows in
     Inr \<lparr>dr_runs = runs,
       dr_trigger_keys = dict_of (map (\<lambda>(key, run_id, fp). (key, (run_id, fp))) (selected s (tb_trigger_keys (pd_tables s)))),
       dr_callback_events = fold put_event (selected s (tb_callback_events (pd_tables s)))
         (map (\<lambda>(run_id, _). (run_id, [])) runs)\<rparr>)"

section \<open>Writing\<close>

definition constraint_error :: "'j pipeline_db \<Rightarrow> bool \<Rightarrow> pipeline_error + unit" where
  "constraint_error s holds = (if holds then Inr () else Inl (PipelineStorageError (pd_constraint_message s)))"

text \<open>The primary keys and the foreign keys of the three tables.\<close>

definition constraints_hold :: "'j tables \<Rightarrow> bool" where
  "constraints_hold t \<longleftrightarrow> distinct (map fst (tb_runs t)) \<and> distinct (map fst (tb_trigger_keys t)) \<and>
     distinct (map (\<lambda>(run_id, event_id, _). (run_id, event_id)) (tb_callback_events t)) \<and>
     list_all (\<lambda>(_, run_id, _). run_id \<in> set (map fst (tb_runs t))) (tb_trigger_keys t) \<and>
     list_all (\<lambda>(run_id, _, _). run_id \<in> set (map fst (tb_runs t))) (tb_callback_events t)"

definition tables_of :: "'j pipeline_db \<Rightarrow> PipelinePersistenceState \<Rightarrow> 'j tables" where
  "tables_of s d = \<lparr>tb_runs = map (\<lambda>(_, r). (pl_id r, pd_dump s r, pd_now s (pd_calls s))) (dr_runs d),
     tb_trigger_keys = map (\<lambda>(key, run_id, fp). (key, run_id, fp)) (dr_trigger_keys d),
     tb_callback_events = concat (map (\<lambda>(run_id, events). map (\<lambda>(event_id, fp). (run_id, event_id, fp)) events)
       (dr_callback_events d))\<rparr>"

definition replace_tables :: "PipelinePersistenceState \<Rightarrow> 'j pipeline_db \<Rightarrow> pipeline_error + 'j tables" where
  "replace_tables d s =
     (let tables = tables_of s d in bind_sum (constraint_error s (constraints_hold tables)) (\<lambda>_. Inr tables))"

section \<open>The adapter over the application's database\<close>

definition sqlalchemy_load :: "('j, PipelinePersistenceState) db_op" where
  "sqlalchemy_load = transaction (\<lambda>s. bind_sum (load_state s) (\<lambda>d. Inr (pd_tables s, d)))"

definition sqlalchemy_save :: "PipelinePersistenceState \<Rightarrow> ('j, unit) db_op" where
  "sqlalchemy_save d = transaction (\<lambda>s. bind_sum (replace_tables d s) (\<lambda>tables. Inr (tables, ())))"

definition sqlalchemy_clear :: "('j, unit) db_op" where
  "sqlalchemy_clear = transaction (\<lambda>s. Inr (empty_tables, ()))"

definition sqlalchemy_persistence :: "'j pipeline_db PipelinePersistence" where
  "sqlalchemy_persistence = \<lparr>pp_load = sqlalchemy_load, pp_save = sqlalchemy_save, pp_clear = sqlalchemy_clear\<rparr>"

section \<open>The adapter over one SQLite file\<close>

record 'j sqlite_file =
  sq_db :: "'j pipeline_db"
  sq_schema :: bool
  sq_initialize_schema :: bool
  sq_missing_table_message :: text_t

text \<open>\<open>_prepare_database\<close>, then the statements on tables that must exist.\<close>

definition sqlite_call :: "('j, 'a) db_op \<Rightarrow> ('j sqlite_file, pipeline_error, 'a) prog" where
  "sqlite_call m = (\<lambda>s.
     let s' = s\<lparr>sq_schema := sq_schema s \<or> sq_initialize_schema s\<rparr>
     in if sq_schema s' then (case m (sq_db s') of (r, db) \<Rightarrow> (r, s'\<lparr>sq_db := db\<rparr>))
        else (Inl (PipelineStorageError (sq_missing_table_message s')), s'))"

definition sqlite_load :: "('j sqlite_file, pipeline_error, PipelinePersistenceState) prog" where
  "sqlite_load = sqlite_call (transaction (\<lambda>s. bind_sum (load_state s) (\<lambda>d. Inr (pd_tables s, d))))"

definition sqlite_save :: "PipelinePersistenceState \<Rightarrow> ('j sqlite_file, pipeline_error, unit) prog" where
  "sqlite_save d = sqlite_call (transaction (\<lambda>s. bind_sum (replace_tables d s) (\<lambda>tables. Inr (tables, ()))))"

definition sqlite_clear :: "('j sqlite_file, pipeline_error, unit) prog" where
  "sqlite_clear = sqlite_call (transaction (\<lambda>s. Inr (empty_tables, ())))"

definition sqlite_persistence :: "'j sqlite_file PipelinePersistence" where
  "sqlite_persistence = \<lparr>pp_load = sqlite_load, pp_save = sqlite_save, pp_clear = sqlite_clear\<rparr>"

end
