(* ===== verification/Pipeline_Store.thy ===== *)
theory Pipeline_Store
  imports Pipeline_Persistence
begin

text \<open>
  The contract of the pipeline persistence port, interpreted on both adapters: what a load returns
  after a save, also when calls fail before or after their commit and rows come in any order.
\<close>

section \<open>Durable states\<close>

definition events_in :: "PipelinePersistenceState \<Rightarrow> text_t \<Rightarrow> text_t \<Rightarrow> text_t option" where
  "events_in d run_id event_id = (case map_of (dr_callback_events d) run_id of None \<Rightarrow> None | Some es \<Rightarrow> map_of es event_id)"

text \<open>Equal as dicts, up to the order of insertion.\<close>

definition same_state :: "PipelinePersistenceState \<Rightarrow> PipelinePersistenceState \<Rightarrow> bool" where
  "same_state d e \<longleftrightarrow> map_of (dr_runs d) = map_of (dr_runs e) \<and> map_of (dr_trigger_keys d) = map_of (dr_trigger_keys e) \<and>
     events_in d = events_in e"

definition storable :: "PipelinePersistenceState \<Rightarrow> bool" where
  "storable d \<longleftrightarrow> distinct (map fst (dr_runs d)) \<and> (\<forall>(run_id, r) \<in> set (dr_runs d). pl_id r = run_id) \<and>
     distinct (map fst (dr_trigger_keys d)) \<and> (\<forall>(key, run_id, fp) \<in> set (dr_trigger_keys d). run_id \<in> fst ` set (dr_runs d)) \<and>
     distinct (map fst (dr_callback_events d)) \<and>
     (\<forall>(run_id, es) \<in> set (dr_callback_events d). run_id \<in> fst ` set (dr_runs d) \<and> distinct (map fst es))"

lemma same_state_refl [simp]: "same_state d d"
  by (simp add: same_state_def)

lemma same_state_sym: "same_state d e \<Longrightarrow> same_state e d"
  by (simp add: same_state_def)

lemma same_state_trans: "same_state d e \<Longrightarrow> same_state e f \<Longrightarrow> same_state d f"
  by (simp add: same_state_def)

section \<open>The contract\<close>

locale pipeline_store =
  fixes port :: "'p PipelinePersistence"
    and good :: "'p \<Rightarrow> bool"
    and stored :: "'p \<Rightarrow> PipelinePersistenceState"
  assumes load_law: "good p \<Longrightarrow>
      wp (pp_load port) (\<lambda>d q. good q \<and> stored q = stored p \<and> storable d \<and> same_state d (stored p))
        (\<lambda>_ q. good q \<and> stored q = stored p) p"
    and save_law: "good p \<Longrightarrow> storable d \<Longrightarrow>
      wp (pp_save port d) (\<lambda>_ q. good q \<and> same_state d (stored q))
        (\<lambda>_ q. good q \<and> (stored q = stored p \<or> same_state d (stored q))) p"
    and clear_law: "good p \<Longrightarrow>
      wp (pp_clear port) (\<lambda>_ q. good q \<and> same_state no_runs (stored q))
        (\<lambda>_ q. good q \<and> (stored q = stored p \<or> same_state no_runs (stored q))) p"
begin

text \<open>A load after a save that returned gives the saved state.\<close>

lemma load_after_save:
  assumes "good p" "storable d" "pp_save port d p = (Inr (), q)" "pp_load port q = (Inr e, q')"
  shows "same_state e d"
proof -
  have "good q \<and> same_state d (stored q)" using wp_returns [OF save_law assms(3)] assms(1,2) by blast
  then show ?thesis
    using wp_returns [OF load_law assms(4)] same_state_trans same_state_sym by blast
qed

end

section \<open>Reading rows\<close>

lemma mset_selected: "mset (selected s rows) = mset rows"
proof -
  have "mset (selected s rows) = image_mset (nth rows) (mset [0..<length rows])"
    by (simp add: selected_def)
  also have "\<dots> = mset (map (nth rows) [0..<length rows])" by (simp only: mset_map)
  finally show ?thesis by (simp add: map_nth)
qed

lemma set_selected [simp]: "set (selected s rows) = set rows"
  by (metis mset_selected set_mset_mset)

lemma distinct_selected: "distinct (map f rows) \<Longrightarrow> distinct (map f (selected s rows))"
  using mset_selected [of s rows] by (metis mset_eq_imp_distinct_iff mset_map)

lemma dict_of_distinct:
  assumes "distinct (map fst rows)"
  shows "dict_of rows = rows"
proof -
  have "fold (\<lambda>(k, v). AList.update k v) rows acc = acc @ rows"
    if "distinct (map fst rows)" "fst ` set acc \<inter> fst ` set rows = {}" for acc
    using that
  proof (induction rows arbitrary: acc)
    case Nil
    then show ?case by simp
  next
    case (Cons row rows)
    obtain k v where row: "row = (k, v)" by (cases row)
    have "k \<notin> fst ` set acc" using Cons.prems(2) by (auto simp: row)
    then have up: "AList.update k v acc = acc @ [(k, v)]" by (rule update_fresh)
    show ?case using Cons.IH [of "acc @ [(k, v)]"] Cons.prems by (auto simp: row up)
  qed
  from this [of "[]"] assms show ?thesis by (simp add: dict_of_def)
qed

definition event_at :: "(text_t \<times> (text_t \<times> text_t) list) list \<Rightarrow> text_t \<times> text_t \<Rightarrow> text_t option" where
  "event_at table = (\<lambda>(run_id, event_id). case map_of table run_id of None \<Rightarrow> None | Some es \<Rightarrow> map_of es event_id)"

lemma event_at_put: "event_at (put_event (i, e, fp) table) = (event_at table)((i, e) \<mapsto> fp)"
  by (auto simp: event_at_def put_event_def fun_eq_iff update_conv' split: option.splits)

lemma event_at_fold:
  assumes "distinct (map (\<lambda>(i, e, _). (i, e)) rows)"
  shows "event_at (fold put_event rows table) (i, e) = Some fp \<longleftrightarrow>
    (i, e, fp) \<in> set rows \<or> (event_at table (i, e) = Some fp \<and> (i, e) \<notin> (\<lambda>(i, e, _). (i, e)) ` set rows)"
  using assms
proof (induction rows arbitrary: table)
  case Nil
  then show ?case by simp
next
  case (Cons row rows)
  obtain i' e' fp' where row: "row = (i', e', fp')" by (cases row)
  show ?case
    using Cons by (auto simp: row event_at_put image_iff split: if_splits) (force+)?
qed

definition events_ok :: "text_t set \<Rightarrow> (text_t \<times> (text_t \<times> text_t) list) list \<Rightarrow> bool" where
  "events_ok ids table \<longleftrightarrow> distinct (map fst table) \<and> (\<forall>(i, es) \<in> set table. i \<in> ids \<and> distinct (map fst es))"

lemma set_update_subset: "p \<in> set (AList.update k v d) \<Longrightarrow> p = (k, v) \<or> p \<in> set d"
  by (induction d) (auto split: if_splits)

lemma events_ok_put:
  assumes "events_ok ids table" "i \<in> ids"
  shows "events_ok ids (put_event (i, e, fp) table)"
proof -
  have "distinct (map fst (case map_of table i of None \<Rightarrow> [] | Some es \<Rightarrow> es))"
    using assms(1) by (auto simp: events_ok_def dest: map_of_SomeD split: option.splits)
  then show ?thesis
    using assms by (auto simp: events_ok_def put_event_def distinct_update dest!: set_update_subset)
qed

lemma events_ok_fold:
  "events_ok ids table \<Longrightarrow> (\<And>i e fp. (i, e, fp) \<in> set rows \<Longrightarrow> i \<in> ids) \<Longrightarrow> events_ok ids (fold put_event rows table)"
proof (induction rows arbitrary: table)
  case Nil
  then show ?case by simp
next
  case (Cons row rows)
  obtain i e fp where row: "row = (i, e, fp)" by (cases row)
  have "i \<in> ids" using Cons.prems(2) [of i e fp] by (simp add: row)
  then have "events_ok ids (put_event (i, e, fp) table)" by (rule events_ok_put [OF Cons.prems(1)])
  then have "events_ok ids (fold put_event rows (put_event (i, e, fp) table))"
  proof (rule Cons.IH)
    show "i' \<in> ids" if "(i', e', fp') \<in> set rows" for i' e' fp'
      using Cons.prems(2) [of i' e' fp'] that by simp
  qed
  then show ?case by (simp add: row)
qed

section \<open>What tables hold\<close>

definition holds_rows :: "'j pipeline_db \<Rightarrow> 'j tables \<Rightarrow> PipelinePersistenceState \<Rightarrow> bool" where
  "holds_rows s t d \<longleftrightarrow> storable d \<and>
     (\<forall>i r. map_of (dr_runs d) i = Some r \<longleftrightarrow> (\<exists>w. (i, pd_dump s r, w) \<in> set (tb_runs t))) \<and>
     (\<forall>k i fp. map_of (dr_trigger_keys d) k = Some (i, fp) \<longleftrightarrow> (k, i, fp) \<in> set (tb_trigger_keys t)) \<and>
     (\<forall>i e fp. events_in d i e = Some fp \<longleftrightarrow> (i, e, fp) \<in> set (tb_callback_events t))"

lemma map_eqI: "(\<And>k v. m k = Some v \<longleftrightarrow> n k = Some v) \<Longrightarrow> m = n"
  by (metis ext option.exhaust option.distinct(1))

lemma holds_rows_unique: "holds_rows s t d \<Longrightarrow> holds_rows s t e \<Longrightarrow> same_state d e"
proof -
  assume d: "holds_rows s t d" and e: "holds_rows s t e"
  have "map_of (dr_runs d) = map_of (dr_runs e)"
    by (rule map_eqI) (use d e in \<open>simp add: holds_rows_def\<close>)
  moreover have "map_of (dr_trigger_keys d) = map_of (dr_trigger_keys e)"
  proof (rule map_eqI)
    show "map_of (dr_trigger_keys d) k = Some v \<longleftrightarrow> map_of (dr_trigger_keys e) k = Some v" for k v
      using d e by (cases v) (simp add: holds_rows_def)
  qed
  moreover have "events_in d i = events_in e i" for i
    by (rule map_eqI) (use d e in \<open>simp add: holds_rows_def\<close>)
  ultimately show "same_state d e" by (simp add: same_state_def fun_eq_iff)
qed

definition codec_ok :: "'j pipeline_db \<Rightarrow> bool" where
  "codec_ok s \<longleftrightarrow> (\<forall>r. pd_parse s (pd_dump s r) = Some r)"

definition rows_ok :: "'j pipeline_db \<Rightarrow> 'j tables \<Rightarrow> bool" where
  "rows_ok s t \<longleftrightarrow> constraints_hold t \<and> (\<forall>(i, j, w) \<in> set (tb_runs t). \<exists>r. j = pd_dump s r \<and> pl_id r = i)"

definition db_good :: "'j pipeline_db \<Rightarrow> bool" where
  "db_good s \<longleftrightarrow> codec_ok s \<and> rows_ok s (pd_tables s)"

lemma dump_inject: "codec_ok s \<Longrightarrow> pd_dump s r = pd_dump s r' \<longleftrightarrow> r = r'"
  by (metis codec_ok_def option.inject)

lemma map_result_all:
  "(\<And>x. x \<in> set xs \<Longrightarrow> f x = Inr (g x)) \<Longrightarrow> map_result f xs = Inr (map g xs)"
  by (induction xs) simp_all

lemma load_holds:
  assumes "codec_ok s" "rows_ok s (pd_tables s)"
  shows "\<exists>d. load_state s = Inr d \<and> holds_rows s (pd_tables s) d"
proof -
  let ?t = "pd_tables s"
  let ?runs = "selected s (tb_runs ?t)" and ?keys = "selected s (tb_trigger_keys ?t)" and ?events = "selected s (tb_callback_events ?t)"
  define run where "run = (\<lambda>j. the (pd_parse s j))"
  have dump: "pd_dump s (run j) = j \<and> pl_id (run j) = i" if "(i, j, w) \<in> set (tb_runs ?t)" for i j w
    using that assms by (fastforce simp: rows_ok_def codec_ok_def run_def)
  have parse: "run (pd_dump s r) = r" for r using assms(1) by (simp add: codec_ok_def run_def)
  have "map_result (decode_run s) ?runs = Inr (map (\<lambda>(i, j, w). (i, run j)) ?runs)"
  proof (rule map_result_all)
    fix row assume "row \<in> set ?runs"
    then have "row \<in> set (tb_runs ?t)" by simp
    then obtain i j w where row: "row = (i, j, w)" "(i, j, w) \<in> set (tb_runs ?t)" by (metis surj_pair)
    from row(2) obtain r where "j = pd_dump s r" using assms(2) by (auto simp: rows_ok_def)
    then show "decode_run s row = Inr (case row of (i, j, w) \<Rightarrow> (i, run j))"
      using assms(1) by (simp add: row(1) decode_run_def codec_ok_def run_def)
  qed
  moreover have con: "constraints_hold ?t" using assms(2) by (simp add: rows_ok_def)
  moreover define rs where "rs = map (\<lambda>(i, j, w). (i, run j)) ?runs"
  moreover define ks where "ks = map (\<lambda>(k, i, fp). (k, i, fp)) ?keys"
  moreover have fst_rs: "map fst rs = map fst ?runs" by (simp add: rs_def case_prod_beta)
  moreover have drs: "distinct (map fst rs)"
    unfolding fst_rs using con by (auto simp: constraints_hold_def intro: distinct_selected)
  moreover have fst_ks: "map fst ks = map fst ?keys" by (simp add: ks_def case_prod_beta)
  moreover have dks: "distinct (map fst ks)"
    unfolding fst_ks using con by (auto simp: constraints_hold_def intro: distinct_selected)
  moreover define es where "es = fold put_event ?events (map (\<lambda>(i, _). (i, [])) rs)"
  ultimately have load: "load_state s = Inr \<lparr>dr_runs = rs, dr_trigger_keys = ks, dr_callback_events = es\<rparr>"
    by (simp add: load_state_def dict_of_distinct Let_def)
  have ids: "fst ` set rs = fst ` set (tb_runs ?t)" using arg_cong [OF fst_rs, of set] by (simp add: image_def)
  have des: "events_ok (fst ` set rs) es"
    unfolding es_def
  proof (rule events_ok_fold)
    show "events_ok (fst ` set rs) (map (\<lambda>(i, _). (i, [])) rs)"
      using drs by (auto simp: events_ok_def comp_def case_prod_beta)
    show "i \<in> fst ` set rs" if "(i, e, fp) \<in> set ?events" for i e fp
      using that con unfolding ids by (auto simp: constraints_hold_def list_all_iff)
  qed
  have none: "event_at (map (\<lambda>(i, _). (i, [])) rs) p = None" for p
  proof -
    have "event_at (map (\<lambda>(i, _). (i, [])) xs) p = None" for xs :: "(text_t \<times> PipelineRun) list"
      by (induction xs) (auto simp: event_at_def split: prod.splits option.splits if_splits)
    then show ?thesis .
  qed
  have event: "events_in (d\<lparr>dr_callback_events := es\<rparr>) i e = event_at es (i, e)" for d i e
    by (simp add: events_in_def event_at_def)
  have "storable \<lparr>dr_runs = rs, dr_trigger_keys = ks, dr_callback_events = es\<rparr>"
    using drs dks des con dump unfolding storable_def
    by (auto simp: rs_def ks_def events_ok_def constraints_hold_def list_all_iff image_iff) force+
  moreover have "map_of rs i = Some r \<longleftrightarrow> (\<exists>w. (i, pd_dump s r, w) \<in> set (tb_runs ?t))" for i r
  proof -
    have "map_of rs i = Some r \<longleftrightarrow> (\<exists>j w. (i, j, w) \<in> set (tb_runs ?t) \<and> run j = r)"
      unfolding map_of_eq_Some_iff [OF drs] by (force simp: rs_def)
    also have "\<dots> \<longleftrightarrow> (\<exists>w. (i, pd_dump s r, w) \<in> set (tb_runs ?t))"
    proof
      assume "\<exists>j w. (i, j, w) \<in> set (tb_runs ?t) \<and> run j = r"
      then obtain j w where j: "(i, j, w) \<in> set (tb_runs ?t)" "run j = r" by blast
      then have "pd_dump s r = j" using dump [OF j(1)] by blast
      with j(1) show "\<exists>w. (i, pd_dump s r, w) \<in> set (tb_runs ?t)" by blast
    qed (use parse in blast)
    finally show ?thesis .
  qed
  moreover have "map_of ks k = Some (i, fp) \<longleftrightarrow> (k, i, fp) \<in> set (tb_trigger_keys ?t)" for k i fp
    using dks by (auto simp: ks_def)
  moreover have "event_at es (i, e) = Some fp \<longleftrightarrow> (i, e, fp) \<in> set (tb_callback_events ?t)" for i e fp
    unfolding es_def
    by (subst event_at_fold) (use con in \<open>auto simp: none constraints_hold_def intro: distinct_selected\<close>)
  ultimately show ?thesis
    unfolding load holds_rows_def using event [of "\<lparr>dr_runs = rs, dr_trigger_keys = ks, dr_callback_events = es\<rparr>"] by simp
qed

section \<open>Saving\<close>

lemma distinct_event_rows:
  assumes "distinct (map fst table)" "\<forall>(i, es) \<in> set table. distinct (map fst es)"
  shows "distinct (map (\<lambda>(i, e, _). (i, e)) (concat (map (\<lambda>(i, es). map (\<lambda>(e, fp). (i, e, fp)) es) table)))"
  using assms
proof (induction table)
  case Nil
  then show ?case by simp
next
  case (Cons p table)
  obtain i es where p: "p = (i, es)" by (cases p)
  have "map (\<lambda>(i, e, _). (i, e)) (map (\<lambda>(e, fp). (i, e, fp)) es) = map (Pair i) (map fst es)"
    by (simp add: comp_def case_prod_beta)
  moreover have "distinct (map (Pair i) (map fst es))" using Cons.prems by (simp add: p distinct_map inj_on_def)
  moreover have "i \<notin> fst ` set table" using Cons.prems(1) by (simp add: p)
  then have fresh: "i' \<noteq> i" if "(i', es') \<in> set table" for i' es'
    using that by force
  moreover have "distinct (map (\<lambda>(i, e, _). (i, e)) (concat (map (\<lambda>(i, es). map (\<lambda>(e, fp). (i, e, fp)) es) table)))"
    using Cons by simp
  ultimately show ?case
    by (simp only: p list.map concat.simps map_append distinct_append prod.case) (auto dest: fresh)
qed

lemma saved_rows:
  assumes "codec_ok s" "storable d"
  shows "rows_ok s (tables_of s d)" and "holds_rows s (tables_of s d) d"
proof -
  have ids: "map fst (tb_runs (tables_of s d)) = map fst (dr_runs d)"
    using assms(2) by (auto simp: tables_of_def storable_def)
  have keys: "map fst (tb_trigger_keys (tables_of s d)) = map fst (dr_trigger_keys d)"
    by (simp add: tables_of_def comp_def case_prod_beta)
  have "constraints_hold (tables_of s d)"
    unfolding constraints_hold_def ids keys
  proof (intro conjI)
    show "distinct (map (\<lambda>(run_id, event_id, _). (run_id, event_id)) (tb_callback_events (tables_of s d)))"
      unfolding tables_of_def tables.simps
      by (rule distinct_event_rows) (use assms(2) in \<open>auto simp: storable_def\<close>)
    show "list_all (\<lambda>(_, run_id, _). run_id \<in> set (map fst (dr_runs d))) (tb_trigger_keys (tables_of s d))"
      using assms(2) by (fastforce simp: tables_of_def storable_def list_all_iff)
    show "list_all (\<lambda>(run_id, _, _). run_id \<in> set (map fst (dr_runs d))) (tb_callback_events (tables_of s d))"
      using assms(2) by (fastforce simp: tables_of_def storable_def list_all_iff)
  qed (use assms(2) in \<open>simp_all add: storable_def\<close>)
  then show "rows_ok s (tables_of s d)"
    by (auto simp: rows_ok_def tables_of_def)
  have "map_of (dr_runs d) i = Some r \<longleftrightarrow> (\<exists>w. (i, pd_dump s r, w) \<in> set (tb_runs (tables_of s d)))" for i r
    using assms(2) by (force simp: tables_of_def storable_def dump_inject [OF assms(1)])
  moreover have "map_of (dr_trigger_keys d) k = Some (i, fp) \<longleftrightarrow> (k, i, fp) \<in> set (tb_trigger_keys (tables_of s d))" for k i fp
    using assms(2) by (force simp: tables_of_def storable_def)
  moreover have "events_in d i e = Some fp \<longleftrightarrow> (i, e, fp) \<in> set (tb_callback_events (tables_of s d))" for i e fp
  proof -
    have "events_in d i e = Some fp \<longleftrightarrow> (\<exists>es. (i, es) \<in> set (dr_callback_events d) \<and> (e, fp) \<in> set es)"
      using assms(2) unfolding events_in_def storable_def
      by (auto split: option.splits dest: map_of_SomeD) (metis (no_types, lifting) map_of_SomeI case_prodD option.distinct(1) option.inject)+
    then show ?thesis by (force simp: tables_of_def)
  qed
  ultimately show "holds_rows s (tables_of s d) d" using assms(2) by (simp add: holds_rows_def)
qed

lemma empty_rows: "rows_ok s empty_tables" "holds_rows s empty_tables no_runs"
  by (simp_all add: rows_ok_def constraints_hold_def empty_tables_def holds_rows_def no_runs_def storable_def events_in_def)

section \<open>The adapters satisfy the contract\<close>

definition db_stored :: "'j pipeline_db \<Rightarrow> PipelinePersistenceState" where
  "db_stored s = (case load_state (s\<lparr>pd_rank := \<lambda>_ _. 0\<rparr>) of Inl _ \<Rightarrow> no_runs | Inr d \<Rightarrow> d)"

lemma db_good_call [simp]:
  "db_good (s\<lparr>pd_calls := n\<rparr>) = db_good s" "codec_ok (s\<lparr>pd_calls := n, pd_tables := t\<rparr>) = codec_ok s"
  "rows_ok (s\<lparr>pd_calls := n, pd_tables := t\<rparr>) u = rows_ok s u" "codec_ok (s\<lparr>pd_rank := f\<rparr>) = codec_ok s"
  "rows_ok (s\<lparr>pd_rank := f\<rparr>) u = rows_ok s u" "holds_rows (s\<lparr>pd_rank := f\<rparr>) u = holds_rows s u"
  "holds_rows (s\<lparr>pd_calls := n, pd_tables := t\<rparr>) u = holds_rows s u"
  by (simp_all add: db_good_def codec_ok_def rows_ok_def holds_rows_def fun_eq_iff)

lemma db_stored_holds: "db_good s \<Longrightarrow> holds_rows s (pd_tables s) (db_stored s)"
  using load_holds [of "s\<lparr>pd_rank := \<lambda>_ _. 0\<rparr>"] by (auto simp: db_good_def db_stored_def)

lemma db_stored_same: "db_good s \<Longrightarrow> holds_rows s (pd_tables s) d \<Longrightarrow> same_state d (db_stored s)"
  by (blast intro: holds_rows_unique db_stored_holds)

lemma decode_run_call: "decode_run (s\<lparr>pd_calls := n, pd_rank := f\<rparr>) = decode_run (s\<lparr>pd_rank := f\<rparr>)"
  by (auto simp: decode_run_def fun_eq_iff split: option.split)

lemma db_stored_call [simp]: "db_stored (s\<lparr>pd_calls := n\<rparr>) = db_stored s"
  by (simp add: db_stored_def load_state_def selected_def decode_run_call)

lemma wp_transaction:
  assumes "\<And>e t. pd_tables t = pd_tables s \<Longrightarrow> t = s\<lparr>pd_calls := Suc (pd_calls s)\<rparr> \<Longrightarrow> E e t"
    and "\<And>tables x t. body s = Inr (tables, x) \<Longrightarrow> t = s\<lparr>pd_calls := Suc (pd_calls s), pd_tables := tables\<rparr> \<Longrightarrow>
      Q x t \<and> (\<forall>e. E e t)"
  shows "wp (transaction body) Q E s"
  using assms
  by (fastforce simp: wp_def transaction_def Let_def split: db_outcome.splits sum.splits prod.splits)

lemma wp_load_rows:
  assumes "db_good s"
  shows "wp (transaction (\<lambda>s. bind_sum (load_state s) (\<lambda>d. Inr (pd_tables s, d))))
    (\<lambda>d t. db_good t \<and> db_stored t = db_stored s \<and> storable d \<and> same_state d (db_stored s))
    (\<lambda>_ t. db_good t \<and> db_stored t = db_stored s) s"
proof -
  obtain d where d: "load_state s = Inr d" "holds_rows s (pd_tables s) d"
    using load_holds assms by (auto simp: db_good_def)
  then show ?thesis
    using assms db_stored_same [OF assms d(2)]
    by (intro wp_transaction) (auto simp: holds_rows_def)
qed

lemma wp_save_rows:
  assumes "db_good s" "storable d"
  shows "wp (transaction (\<lambda>s. bind_sum (replace_tables d s) (\<lambda>tables. Inr (tables, ()))))
    (\<lambda>_ t. db_good t \<and> same_state d (db_stored t))
    (\<lambda>_ t. db_good t \<and> (db_stored t = db_stored s \<or> same_state d (db_stored t))) s"
proof (rule wp_transaction)
  have codec: "codec_ok s" using assms(1) by (simp add: db_good_def)
  fix tables x t
  assume body: "bind_sum (replace_tables d s) (\<lambda>tables. Inr (tables, ())) = Inr (tables, x)"
    and t: "t = s\<lparr>pd_calls := Suc (pd_calls s), pd_tables := tables\<rparr>"
  have tables: "tables = tables_of s d"
    using body by (auto simp: replace_tables_def constraint_error_def Let_def split: if_splits)
  have "db_good t" using codec saved_rows(1) [OF codec assms(2)] by (simp add: t tables db_good_def)
  moreover have "same_state d (db_stored t)"
    by (rule db_stored_same [OF \<open>db_good t\<close>]) (use saved_rows(2) [OF codec assms(2)] in \<open>simp add: t tables\<close>)
  ultimately show "(db_good t \<and> same_state d (db_stored t)) \<and>
      (\<forall>e. db_good t \<and> (db_stored t = db_stored s \<or> same_state d (db_stored t)))" by simp
qed (use assms in simp)

lemma wp_clear_rows:
  assumes "db_good s"
  shows "wp (transaction (\<lambda>s. Inr (empty_tables, ())))
    (\<lambda>_ t. db_good t \<and> same_state no_runs (db_stored t))
    (\<lambda>_ t. db_good t \<and> (db_stored t = db_stored s \<or> same_state no_runs (db_stored t))) s"
proof (rule wp_transaction)
  fix tables x t
  assume "Inr (empty_tables, ()) = Inr (tables, x)" and t: "t = s\<lparr>pd_calls := Suc (pd_calls s), pd_tables := tables\<rparr>"
  then have tables: "tables = empty_tables" by simp
  have good: "db_good t" using assms empty_rows by (simp add: t tables db_good_def)
  have "same_state no_runs (db_stored t)"
    by (rule db_stored_same [OF good]) (use empty_rows in \<open>simp add: t tables\<close>)
  with good show "(db_good t \<and> same_state no_runs (db_stored t)) \<and>
      (\<forall>e. db_good t \<and> (db_stored t = db_stored s \<or> same_state no_runs (db_stored t)))" by simp
qed (use assms in simp)

interpretation sqlalchemy: pipeline_store sqlalchemy_persistence db_good db_stored
  by unfold_locales
    (simp_all add: sqlalchemy_persistence_def sqlalchemy_load_def sqlalchemy_save_def sqlalchemy_clear_def
      wp_load_rows wp_save_rows wp_clear_rows)

lemma wp_sqlite_call:
  assumes "wp m (\<lambda>x d. Q x (s\<lparr>sq_schema := True, sq_db := d\<rparr>)) (\<lambda>e d. E e (s\<lparr>sq_schema := True, sq_db := d\<rparr>)) (sq_db s)"
    and "\<And>e t. sq_db t = sq_db s \<Longrightarrow> E e t"
  shows "wp (sqlite_call m) Q E s"
proof -
  have upd: "s\<lparr>sq_schema := True, sq_db := d\<rparr> = (s\<lparr>sq_schema := sq_schema s \<or> sq_initialize_schema s\<rparr>)\<lparr>sq_db := d\<rparr>"
    if "sq_schema s \<or> sq_initialize_schema s" for d
    using that by simp
  show ?thesis
    using assms by (auto simp: sqlite_call_def wp_def Let_def split: prod.splits sum.splits)
qed

interpretation sqlite: pipeline_store sqlite_persistence "\<lambda>s. db_good (sq_db s)" "\<lambda>s. db_stored (sq_db s)"
  by unfold_locales
    (auto simp: sqlite_persistence_def sqlite_load_def sqlite_save_def sqlite_clear_def
      intro!: wp_sqlite_call wp_mono [OF wp_load_rows] wp_mono [OF wp_save_rows] wp_mono [OF wp_clear_rows])

end
