(* ===== verification/Pipeline_Service.thy ===== *)
theory Pipeline_Service
  imports Pipeline_Tree Pipeline_Persistence
begin

text \<open>
  \<open>pipeline/service.py\<close>: the pipeline simulator. Its methods hold the service lock, so each is one
  program. A background executor holds the lock for one section at a time; between sections
  other calls may run, so an executor is kept as the point where it will continue, and
  \<open>execute_step\<close> runs one section. The persistence adapter is a record of operations over a
  state of its own, or absent.
\<close>

section \<open>State\<close>

text \<open>
  Where an executor continues: \<open>ExecStage n i\<close> before stage \<open>i\<close> of \<open>n\<close>, \<open>ExecJob n i m j\<close> before job \<open>j\<close> of
  the \<open>m\<close> jobs of that stage, \<open>ExecWait\<close> in the sleep of the job, \<open>ExecJobDone\<close> after it,
  \<open>ExecStageDone\<close> after the last job, \<open>ExecEnd\<close> after the last stage, \<open>ExecRecover\<close> in the handler.
\<close>

datatype executor = ExecBegin | ExecStage nat nat | ExecJob nat nat nat nat | ExecWait nat nat nat nat
  | ExecJobDone nat nat nat nat | ExecStageDone nat nat | ExecEnd | ExecRecover text_t

record 'p pipelines =
  ps_env :: aenv
  ps_runs :: "(text_t \<times> PipelineRun) list"
  ps_trigger_keys :: "(text_t \<times> (text_t \<times> text_t)) list"
  ps_callback_events :: "(text_t \<times> (text_t \<times> text_t) list) list"
  ps_cancel_events :: "(text_t \<times> bool) list"
  ps_completion_events :: "(text_t \<times> bool) list"
  ps_tasks :: "(text_t \<times> executor) list"
  ps_store :: 'p
  ps_durable_state :: "PipelinePersistenceState option"
  ps_initialized :: bool
  ps_closed :: bool

type_synonym ('p, 'a) pl_op = "('p pipelines, pipeline_error, 'a) prog"
type_synonym 'p port = "'p PipelinePersistence option"

definition new_pipelines :: "aenv \<Rightarrow> 'p port \<Rightarrow> 'p \<Rightarrow> 'p pipelines" where
  "new_pipelines env port store =
     \<lparr>ps_env = env, ps_runs = [], ps_trigger_keys = [], ps_callback_events = [], ps_cancel_events = [],
      ps_completion_events = [], ps_tasks = [], ps_store = store, ps_durable_state = None,
      ps_initialized = (port = None), ps_closed = False\<rparr>"

definition pl_now :: "('p, instant) pl_op" where
  "pl_now = (\<lambda>s. (Inr (now_at (ps_env s) (now_count (ps_env s))), s\<lparr>ps_env := (ps_env s)\<lparr>now_count := Suc (now_count (ps_env s))\<rparr>\<rparr>))"

definition pl_new_id :: "('p, text_t) pl_op" where
  "pl_new_id = (\<lambda>s. (Inr (str_of_uuid (id_at (ps_env s) (id_count (ps_env s)))),
     s\<lparr>ps_env := (ps_env s)\<lparr>id_count := Suc (id_count (ps_env s))\<rparr>\<rparr>))"

definition on_store :: "('p, pipeline_error, 'a) prog \<Rightarrow> ('p, 'a) pl_op" where
  "on_store m = (\<lambda>s. case m (ps_store s) of (r, p) \<Rightarrow> (r, s\<lparr>ps_store := p\<rparr>))"

text \<open>\<open>try\<close>: the outcome of a program as a value.\<close>

definition attempt :: "('s, 'e, 'a) prog \<Rightarrow> ('s, 'f, 'e + 'a) prog" where
  "attempt m = (\<lambda>s. case m s of (r, t) \<Rightarrow> (Inr r, t))"

definition require_run :: "text_t \<Rightarrow> ('p, PipelineRun) pl_op" where
  "require_run run_id =
     andThen (reads (\<lambda>s. map_of (ps_runs s) run_id))
       (from_option (PipelineNotFoundError (''pipeline not found: '' @ run_id)))"

text \<open>A program on a stored run; the run keeps what the program did to it, also when it raises.\<close>

definition edit_run :: "text_t \<Rightarrow> 'a tree_op \<Rightarrow> ('p, 'a) pl_op" where
  "edit_run run_id m = (\<lambda>s.
     case map_of (ps_runs s) run_id of
       None \<Rightarrow> (Inl (PipelineNotFoundError (''pipeline not found: '' @ run_id)), s)
     | Some r \<Rightarrow>
         (case m \<lparr>ts_env = ps_env s, ts_run = r\<rparr> of
            (x, t) \<Rightarrow> (x, s\<lparr>ps_env := ts_env t, ps_runs := AList.update run_id (ts_run t) (ps_runs s)\<rparr>)))"

definition ensure_open :: "('p, unit) pl_op" where
  "ensure_open = andThen (reads ps_closed) (\<lambda>closed.
     ensure (\<not> closed) (PipelineServiceClosedError ''pipeline service is shut down''))"

section \<open>Checkpoints\<close>

definition run_terminal :: "PipelineRun \<Rightarrow> bool" where
  "run_terminal r \<longleftrightarrow> p_terminal (status_at RunPlace r)"

definition synchronize_events :: "('p, unit) pl_op" where
  "synchronize_events =
     andThen (reads ps_runs) (\<lambda>runs.
     for_each (\<lambda>(run_id, r).
       andThen (reads (\<lambda>s. map_of (ps_cancel_events s) run_id \<noteq> None \<and> map_of (ps_completion_events s) run_id \<noteq> None)) (\<lambda>present.
       andThen (ensure present (PipelineKeyError run_id)) (\<lambda>_.
       writes (\<lambda>s. s\<lparr>ps_cancel_events := AList.update run_id (run_terminal r) (ps_cancel_events s),
                     ps_completion_events := AList.update run_id (run_terminal r) (ps_completion_events s)\<rparr>)))) runs)"

definition restore_state :: "PipelinePersistenceState \<Rightarrow> ('p, unit) pl_op" where
  "restore_state d = writes (\<lambda>s. s\<lparr>ps_runs := dr_runs d, ps_trigger_keys := dr_trigger_keys d,
     ps_callback_events := map (\<lambda>(run_id, _). (run_id, case map_of (dr_callback_events d) run_id of None \<Rightarrow> [] | Some es \<Rightarrow> es)) (dr_runs d),
     ps_cancel_events := map (\<lambda>(run_id, r). (run_id, run_terminal r)) (dr_runs d),
     ps_completion_events := map (\<lambda>(run_id, r). (run_id, run_terminal r)) (dr_runs d)\<rparr>)"

definition memory_state :: "'p pipelines \<Rightarrow> PipelinePersistenceState" where
  "memory_state s = \<lparr>dr_runs = ps_runs s, dr_trigger_keys = ps_trigger_keys s, dr_callback_events = ps_callback_events s\<rparr>"

definition checkpoint :: "'p port \<Rightarrow> ('p, unit) pl_op" where
  "checkpoint port =
     (case port of
        None \<Rightarrow> synchronize_events
      | Some p \<Rightarrow>
          andThen (reads memory_state) (\<lambda>candidate.
          andThen (attempt (on_store (pp_save p candidate))) (\<lambda>saved.
          case saved of
            Inl error \<Rightarrow>
              andThen (attempt (on_store (pp_load p))) (\<lambda>loaded.
              andThen (case loaded of Inl _ \<Rightarrow> reads ps_durable_state | Inr d \<Rightarrow> ret (Some d)) (\<lambda>durable.
              andThen (case durable of None \<Rightarrow> ret () | Some d \<Rightarrow> restore_state d) (\<lambda>_.
              raise error)))
          | Inr _ \<Rightarrow>
              andThen (writes (ps_durable_state_update (\<lambda>_. Some candidate))) (\<lambda>_.
              synchronize_events))))"

section \<open>Recovery after a restart\<close>

definition initialize_locked :: "'p port \<Rightarrow> ('p, unit) pl_op" where
  "initialize_locked port =
     andThen (reads ps_initialized) (\<lambda>initialized.
     if initialized then ret ()
     else
       andThen (case port of None \<Rightarrow> raise (PipelineValueError ''AssertionError'') | Some p \<Rightarrow> on_store (pp_load p)) (\<lambda>d.
       andThen (restore_state d) (\<lambda>_.
       andThen (writes (\<lambda>s. s\<lparr>ps_durable_state := Some d, ps_initialized := True\<rparr>)) (\<lambda>_.
       andThen (map_each (\<lambda>run_id. edit_run run_id recover_run) (map fst (dr_runs d))) (\<lambda>recovered.
       if \<not> list_ex (\<lambda>x. x) recovered then ret ()
       else
         andThen (attempt (checkpoint port)) (\<lambda>outcome.
         case outcome of
           Inl error \<Rightarrow> andThen (writes (ps_initialized_update (\<lambda>_. False))) (\<lambda>_. raise error)
         | Inr _ \<Rightarrow> ret ()))))))"

section \<open>Requests\<close>

definition trigger_value :: "PipelineTriggerRequest \<Rightarrow> json" where
  "trigger_value r = JObj [(''name'', JStr (rq_name r)),
     (''stages'', JList (map (\<lambda>s. JObj [(''name'', JStr (ss_name s)),
        (''jobs'', JList (map (\<lambda>j. JObj [(''name'', JStr (js_name j)), (''duration_ms'', JInt (js_duration_ms j)),
           (''should_fail'', JBool (js_should_fail j))]) (ss_jobs s)))]) (rq_stages r))),
     (''auto_start'', JBool (rq_auto_start r)), (''variables'', variables_json (rq_variables r))]"

definition callback_value :: "PipelineCallbackRequest \<Rightarrow> json" where
  "callback_value c = JObj [(''target'', JStr (target_value (cb_target c))), (''status'', JStr (status_value (cb_status c))),
     (''stage_name'', json_opt JStr (cb_stage_name c)), (''job_name'', json_opt JStr (cb_job_name c)),
     (''message'', json_opt JStr (cb_message c))]"

definition queued_run :: "PipelineTriggerRequest \<Rightarrow> text_t \<Rightarrow> instant \<Rightarrow> PipelineRun" where
  "queued_run r run_id now =
     \<lparr>pl_id = run_id, pl_name = rq_name r,
      pl_stages = map (\<lambda>s. \<lparr>sr_name = ss_name s,
        sr_jobs = map (\<lambda>j. \<lparr>jr_name = js_name j, jr_duration_ms = js_duration_ms j, jr_should_fail = js_should_fail j,
          jr_progress = not_started\<rparr>) (ss_jobs s), sr_progress = not_started\<rparr>) (rq_stages r),
      pl_variables = variables_json (rq_variables r), pl_idempotency_key = rq_idempotency_key r,
      pl_created_at = now, pl_progress = not_started\<rparr>"

text \<open>The part of \<open>trigger\<close> that creates the run.\<close>

definition trigger_new :: "'p port \<Rightarrow> PipelineTriggerRequest \<Rightarrow> text_t \<Rightarrow> ('p, PipelineTriggerResult) pl_op" where
  "trigger_new port request fp =
     andThen pl_new_id (\<lambda>run_id.
     andThen pl_now (\<lambda>now.
     let run = queued_run request run_id now in
     andThen (writes (\<lambda>s. s\<lparr>ps_runs := AList.update run_id run (ps_runs s),
       ps_callback_events := AList.update run_id [] (ps_callback_events s),
       ps_cancel_events := AList.update run_id False (ps_cancel_events s),
       ps_completion_events := AList.update run_id False (ps_completion_events s),
       ps_trigger_keys := (case rq_idempotency_key request of None \<Rightarrow> ps_trigger_keys s
         | Some key \<Rightarrow> AList.update key (run_id, fp) (ps_trigger_keys s))\<rparr>)) (\<lambda>_.
     andThen (checkpoint port) (\<lambda>_.
     andThen (if rq_auto_start request then writes (ps_tasks_update (AList.update run_id ExecBegin)) else ret ()) (\<lambda>_.
     ret \<lparr>tr_pipeline = run, tr_replayed = False\<rparr>)))))"

definition trigger ::
  "'p port \<Rightarrow> (text_t \<Rightarrow> text_t) \<Rightarrow> PipelineTriggerRequest \<Rightarrow> ('p, PipelineTriggerResult) pl_op" where
  "trigger port digest request =
     (let fp = digest (json_dumps (trigger_value request)) in
      andThen (initialize_locked port) (\<lambda>_.
      andThen ensure_open (\<lambda>_.
      andThen (reads (\<lambda>s. case rq_idempotency_key request of None \<Rightarrow> None
        | Some key \<Rightarrow> map_of (ps_trigger_keys s) key)) (\<lambda>previous.
      case previous of
        Some entry \<Rightarrow>
          andThen (ensure (snd entry = fp)
            (PipelineIdempotencyConflictError ''idempotency key was reused with a different request'')) (\<lambda>_.
          andThen (reads (\<lambda>s. map_of (ps_runs s) (fst entry))) (\<lambda>found.
          andThen (from_option (PipelineKeyError (fst entry)) found) (\<lambda>run.
          ret \<lparr>tr_pipeline = run, tr_replayed = True\<rparr>)))
      | None \<Rightarrow> trigger_new port request fp))))"

definition get_run :: "'p port \<Rightarrow> text_t \<Rightarrow> ('p, PipelineRun) pl_op" where
  "get_run port run_id = andThen (initialize_locked port) (\<lambda>_. require_run run_id)"

definition list_runs :: "'p port \<Rightarrow> ('p, PipelineRun list) pl_op" where
  "list_runs port = andThen (initialize_locked port) (\<lambda>_. reads (\<lambda>s. sorted_desc pl_created_at (map snd (ps_runs s))))"

definition cancel_run :: "'p port \<Rightarrow> text_t \<Rightarrow> ('p, PipelineCancellationResult) pl_op" where
  "cancel_run port run_id =
     andThen (initialize_locked port) (\<lambda>_.
     andThen ensure_open (\<lambda>_.
     andThen (require_run run_id) (\<lambda>run.
     let st = status_at RunPlace run in
     if st = PCancelled then ret \<lparr>cr_pipeline = run, cr_replayed = True\<rparr>
     else
       andThen (ensure (\<not> p_terminal st)
         (PipelineTransitionError (''cannot cancel a '' @ status_value st @ '' pipeline''))) (\<lambda>_.
       andThen (edit_run run_id cancel_tree) (\<lambda>_.
       andThen (checkpoint port) (\<lambda>_.
       andThen (require_run run_id) (\<lambda>cancelled.
       ret \<lparr>cr_pipeline = cancelled, cr_replayed = False\<rparr>)))))))"

definition events_of :: "text_t \<Rightarrow> 'p pipelines \<Rightarrow> (text_t \<times> text_t) list option" where
  "events_of run_id s = map_of (ps_callback_events s) run_id"

definition apply_callback ::
  "'p port \<Rightarrow> (text_t \<Rightarrow> text_t) \<Rightarrow> text_t \<Rightarrow> PipelineCallbackRequest \<Rightarrow> ('p, PipelineCallbackResult) pl_op" where
  "apply_callback port digest run_id c =
     (let fp = digest (json_dumps (callback_value c)) in
      andThen (initialize_locked port) (\<lambda>_.
      andThen ensure_open (\<lambda>_.
      andThen (require_run run_id) (\<lambda>run.
      andThen (reads (events_of run_id)) (\<lambda>found.
      andThen (from_option (PipelineKeyError run_id) found) (\<lambda>delivered.
      case map_of delivered (cb_event_id c) of
        Some previous \<Rightarrow>
          andThen (ensure (previous = fp)
            (PipelineIdempotencyConflictError ''callback event_id was reused with different content'')) (\<lambda>_.
          ret \<lparr>kr_pipeline = run, kr_duplicate = True\<rparr>)
      | None \<Rightarrow>
          andThen (edit_run run_id (callback_tree c)) (\<lambda>_.
          andThen (writes (ps_callback_events_update (AList.update run_id (AList.update (cb_event_id c) fp delivered)))) (\<lambda>_.
          andThen (checkpoint port) (\<lambda>_.
          andThen (require_run run_id) (\<lambda>changed.
          ret \<lparr>kr_pipeline = changed, kr_duplicate = False\<rparr>))))))))))"

text \<open>One look of \<open>wait_for_terminal\<close>: None while the run goes on.\<close>

definition look_terminal :: "'p port \<Rightarrow> text_t \<Rightarrow> ('p, PipelineRun option) pl_op" where
  "look_terminal port run_id =
     andThen (initialize_locked port) (\<lambda>_.
     andThen (require_run run_id) (\<lambda>run.
     ret (if run_terminal run then Some run else None)))"

section \<open>Shutdown and reset\<close>

text \<open>The executors are cancelled while they wait for the lock or sleep, so none takes another step.\<close>

definition shutdown :: "'p port \<Rightarrow> ('p, unit) pl_op" where
  "shutdown port =
     andThen (initialize_locked port) (\<lambda>_.
     andThen (writes (ps_closed_update (\<lambda>_. True))) (\<lambda>_.
     andThen (reads (\<lambda>s. map fst (ps_runs s))) (\<lambda>ids.
     andThen (for_each (\<lambda>run_id. edit_run run_id shut_run) ids) (\<lambda>_.
     andThen (checkpoint port) (\<lambda>_.
     writes (ps_tasks_update (\<lambda>_. [])))))))"

definition reset_close :: "'p port \<Rightarrow> ('p, unit) pl_op" where
  "reset_close port =
     andThen (initialize_locked port) (\<lambda>_.
     writes (\<lambda>s. s\<lparr>ps_closed := True, ps_cancel_events := map (\<lambda>(k, _). (k, True)) (ps_cancel_events s),
       ps_completion_events := map (\<lambda>(k, _). (k, True)) (ps_completion_events s), ps_tasks := []\<rparr>))"

definition reset_clear :: "'p port \<Rightarrow> ('p, unit) pl_op" where
  "reset_clear port =
     andThen (writes (\<lambda>s. s\<lparr>ps_runs := [], ps_trigger_keys := [], ps_callback_events := [], ps_cancel_events := [],
       ps_completion_events := [], ps_tasks := []\<rparr>)) (\<lambda>_.
     andThen
       (case port of
          None \<Rightarrow> ret ()
        | Some p \<Rightarrow> andThen (on_store (pp_clear p)) (\<lambda>_. writes (ps_durable_state_update (\<lambda>_. Some no_runs)))) (\<lambda>_.
     writes (ps_closed_update (\<lambda>_. False))))"

definition reset :: "'p port \<Rightarrow> ('p, unit) pl_op" where
  "reset port = andThen (reset_close port) (\<lambda>_. reset_clear port)"

section \<open>The executor\<close>

definition next_stage :: "nat \<Rightarrow> nat \<Rightarrow> executor" where
  "next_stage n i = (if Suc i < n then ExecStage n (Suc i) else ExecEnd)"

definition next_job :: "nat \<Rightarrow> nat \<Rightarrow> nat \<Rightarrow> nat \<Rightarrow> executor" where
  "next_job n i m j = (if Suc j < m then ExecJob n i m (Suc j) else ExecStageDone n i)"

text \<open>An edit, the check of the invariants and the checkpoint.\<close>

definition edit_checked :: "'p port \<Rightarrow> text_t \<Rightarrow> unit tree_op \<Rightarrow> ('p, unit) pl_op" where
  "edit_checked port run_id m =
     andThen (edit_run run_id (andThen m (\<lambda>_. assert_run_invariants))) (\<lambda>_. checkpoint port)"

text \<open>A section that does nothing unless the run is running.\<close>

definition while_running ::
  "text_t \<Rightarrow> (PipelineRun \<Rightarrow> ('p, executor option) pl_op) \<Rightarrow> ('p, executor option) pl_op" where
  "while_running run_id k =
     andThen (require_run run_id) (\<lambda>run.
     if status_at RunPlace run \<noteq> PRunning then ret None else k run)"

fun execute_section :: "'p port \<Rightarrow> text_t \<Rightarrow> executor \<Rightarrow> ('p, executor option) pl_op" where
  "execute_section port run_id ExecBegin =
     andThen (initialize_locked port) (\<lambda>_.
     andThen (require_run run_id) (\<lambda>run.
     if status_at RunPlace run \<noteq> PQueued then ret None
     else
       andThen (edit_run run_id (start RunPlace)) (\<lambda>_.
       andThen (checkpoint port) (\<lambda>_.
       let n = length (pl_stages run) in
       ret (Some (if n = 0 then ExecEnd else ExecStage n 0))))))"
| "execute_section port run_id (ExecStage n i) =
     while_running run_id (\<lambda>run.
     if status_at (StagePlace i) run = PSucceeded then ret (Some (next_stage n i))
     else
       andThen (edit_run run_id (start (StagePlace i))) (\<lambda>_.
       andThen (checkpoint port) (\<lambda>_.
       let m = length (stage_jobs run i) in
       ret (Some (if m = 0 then ExecStageDone n i else ExecJob n i m 0)))))"
| "execute_section port run_id (ExecJob n i m j) =
     while_running run_id (\<lambda>run.
     if status_at (StagePlace i) run \<noteq> PRunning then ret None
     else if status_at (JobPlace i j) run = PSucceeded then
       andThen (edit_run run_id (aggregate_success (Some i))) (\<lambda>_.
       andThen (checkpoint port) (\<lambda>_.
       ret (Some (next_job n i m j))))
     else
       andThen (edit_run run_id (start (JobPlace i j))) (\<lambda>_.
       andThen (checkpoint port) (\<lambda>_.
       ret (Some (ExecWait n i m j)))))"
| "execute_section port run_id (ExecWait n i m j) =
     andThen (reads (\<lambda>s. map_of (ps_cancel_events s) run_id)) (\<lambda>event.
     andThen (from_option (PipelineKeyError run_id) event) (\<lambda>stopped.
     ret (if stopped then None else Some (ExecJobDone n i m j))))"
| "execute_section port run_id (ExecJobDone n i m j) =
     while_running run_id (\<lambda>run.
     if status_at (JobPlace i j) run = PSucceeded then
       andThen (edit_run run_id (aggregate_success (Some i))) (\<lambda>_.
       andThen (checkpoint port) (\<lambda>_.
       ret (Some (next_job n i m j))))
     else if jr_should_fail (stage_jobs run i ! j) then
       andThen (edit_checked port run_id (fail_job i j (Some ''deterministic simulated failure''))) (\<lambda>_. ret None)
     else
       andThen (edit_checked port run_id (andThen (finish (JobPlace i j) PSucceeded None) (\<lambda>_. aggregate_success (Some i)))) (\<lambda>_.
       ret (Some (next_job n i m j))))"
| "execute_section port run_id (ExecStageDone n i) =
     while_running run_id (\<lambda>run.
     andThen (edit_checked port run_id (aggregate_success (Some i))) (\<lambda>_.
     ret (Some (next_stage n i))))"
| "execute_section port run_id ExecEnd =
     while_running run_id (\<lambda>run.
     andThen (edit_checked port run_id (aggregate_success None)) (\<lambda>_. ret None))"
| "execute_section port run_id (ExecRecover message) =
     andThen (reads (\<lambda>s. map_of (ps_runs s) run_id)) (\<lambda>found.
     case found of
       None \<Rightarrow> ret None
     | Some run \<Rightarrow>
         if run_terminal run then ret None
         else
           andThen (edit_run run_id (fail_run (Some (''internal simulator error: '' @ message)))) (\<lambda>_.
           andThen (checkpoint port) (\<lambda>_. ret None)))"

text \<open>\<open>str(exc)\<close>\<close>

fun error_text :: "pipeline_error \<Rightarrow> text_t" where
  "error_text (PipelineNotFoundError m) = m"
| "error_text (PipelineTransitionError m) = m"
| "error_text (PipelineInvariantError m) = m"
| "error_text (PipelineIdempotencyConflictError m) = m"
| "error_text (PipelineTargetNotFoundError m) = m"
| "error_text (PipelineServiceClosedError m) = m"
| "error_text (PipelineStorageError m) = m"
| "error_text (PipelineValueError m) = m"
| "error_text (PipelineKeyError m) = ''KeyError '' @ m"

text \<open>An exception in a section leads to the handler; one in the handler ends the task.\<close>

definition after_section :: "executor \<Rightarrow> pipeline_error + executor option \<Rightarrow> executor option" where
  "after_section pc outcome =
     (case outcome of
        Inr next \<Rightarrow> next
      | Inl e \<Rightarrow> (case pc of ExecRecover _ \<Rightarrow> None | _ \<Rightarrow> Some (ExecRecover (error_text e))))"

definition execute_step :: "'p port \<Rightarrow> text_t \<Rightarrow> ('p, unit) pl_op" where
  "execute_step port run_id =
     andThen (reads (\<lambda>s. map_of (ps_tasks s) run_id)) (\<lambda>task.
     case task of
       None \<Rightarrow> ret ()
     | Some pc \<Rightarrow>
         andThen (attempt (execute_section port run_id pc)) (\<lambda>outcome.
         case after_section pc outcome of
           None \<Rightarrow> writes (ps_tasks_update (AList.delete run_id))
         | Some pc' \<Rightarrow> writes (ps_tasks_update (AList.update run_id pc'))))"

section \<open>The factory\<close>

datatype adapter = MemoryAdapter | SqliteAdapter text_t bool | DatabaseAdapter

definition create_pipeline_service :: "text_t option \<Rightarrow> bool \<Rightarrow> bool \<Rightarrow> pipeline_error + adapter" where
  "create_pipeline_service database_path database initialize_schema =
     (if database_path \<noteq> None \<and> database
        then Inl (PipelineValueError ''database_path and database are mutually exclusive'')
      else if initialize_schema \<and> database
        then Inl (PipelineValueError ''Alembic must own the application database schema'')
      else if database then Inr DatabaseAdapter
      else case database_path of
          None \<Rightarrow> Inr MemoryAdapter
        | Some path \<Rightarrow> Inr (if path = '':memory:'' then MemoryAdapter else SqliteAdapter path initialize_schema))"

end
