(* ===== verification/Pipeline_Invariants.thy ===== *)
theory Pipeline_Invariants
  imports Pipeline_Evolution Pipeline_Store Pipeline_Service
begin

text \<open>
  The invariant of the pipeline service and how its runs, its trigger keys and its delivered events
  grow, under storage faults. The locale \<open>pipeline_host\<close> is a service without persistence or over a
  store whose failing calls commit nothing.
\<close>

section \<open>Growth\<close>

text \<open>Every run run_evolves; trigger keys and delivered events stay.\<close>

definition grows :: "PipelinePersistenceState \<Rightarrow> PipelinePersistenceState \<Rightarrow> bool" where
  "grows d e \<longleftrightarrow> (\<forall>i r. map_of (dr_runs d) i = Some r \<longrightarrow> (\<exists>t. map_of (dr_runs e) i = Some t \<and> run_evolves r t)) \<and>
     map_of (dr_trigger_keys d) \<subseteq>\<^sub>m map_of (dr_trigger_keys e) \<and> (\<forall>i. events_in d i \<subseteq>\<^sub>m events_in e i)"

lemma grows_trans: "grows d e \<Longrightarrow> grows e f \<Longrightarrow> grows d f"
  unfolding grows_def by (meson run_evolves_trans map_le_trans)

lemma grows_same: "same_state d e \<Longrightarrow> grows d e"
  by (auto simp: grows_def same_state_def)

lemma grows_refl [simp]: "grows d d"
  by (simp add: grows_same)

lemma grows_run: "grows d e \<Longrightarrow> map_of (dr_runs d) i = Some r \<Longrightarrow> \<exists>t. map_of (dr_runs e) i = Some t \<and> run_evolves r t"
  by (simp add: grows_def)

lemma grows_empty: "dr_runs d = [] \<Longrightarrow> dr_trigger_keys d = [] \<Longrightarrow> dr_callback_events d = [] \<Longrightarrow> grows d e"
  by (auto simp: grows_def map_le_def events_in_def)

section \<open>Good states\<close>

text \<open>What an executor relies on where it continues.\<close>

fun pc_ready :: "executor \<Rightarrow> PipelineRun \<Rightarrow> bool" where
  "pc_ready (ExecStage n i) r = (n = length (pl_stages r) \<and> i < n)"
| "pc_ready (ExecStageDone n i) r = (n = length (pl_stages r) \<and> i < n)"
| "pc_ready (ExecJob n i m j) r = (n = length (pl_stages r) \<and> i < n \<and> m = length (stage_jobs r i) \<and> j < m \<and>
     status_at (StagePlace i) r \<noteq> PQueued)"
| "pc_ready (ExecWait n i m j) r = (n = length (pl_stages r) \<and> i < n \<and> m = length (stage_jobs r i) \<and> j < m \<and>
     status_at (StagePlace i) r \<noteq> PQueued)"
| "pc_ready (ExecJobDone n i m j) r = (n = length (pl_stages r) \<and> i < n \<and> m = length (stage_jobs r i) \<and> j < m \<and>
     status_at (StagePlace i) r \<noteq> PQueued)"
| "pc_ready _ r = True"

lemma evolves_not_queued:
  assumes "run_evolves r t" "i < length (pl_stages r)" "status_at (StagePlace i) r \<noteq> PQueued"
  shows "status_at (StagePlace i) t \<noteq> PQueued"
proof -
  have "moves (progress_at (StagePlace i) r) (progress_at (StagePlace i) t)"
    using assms(1,2) unfolding run_evolves_def by (metis in_places(2))
  then show ?thesis using assms(3) by (auto simp: moves_def precedes_def status_at_def p_terminal_def)
qed

lemma pc_ready_evolves: "run_evolves r t \<Longrightarrow> pc_ready pc r \<Longrightarrow> pc_ready pc t"
  using plan_stages [of t r] plan_jobs [of t r] evolves_not_queued [of r t]
  by (cases pc) (auto simp: run_evolves_def)

definition run_good :: "(text_t \<times> executor) list \<Rightarrow> aenv \<Rightarrow> text_t \<Rightarrow> PipelineRun \<Rightarrow> bool" where
  "run_good tasks env i r \<longleftrightarrow> run_ok r \<and> run_stamps_ok r \<and> i \<in> drawn_ids env \<and>
     (\<forall>pc. map_of tasks i = Some pc \<longrightarrow> pc_ready pc r)"

definition state_good :: "(text_t \<times> executor) list \<Rightarrow> aenv \<Rightarrow> PipelinePersistenceState \<Rightarrow> bool" where
  "state_good tasks env d \<longleftrightarrow> (\<forall>i r. map_of (dr_runs d) i = Some r \<longrightarrow> run_good tasks env i r)"

lemma run_good_evolves:
  "run_good tasks env i r \<Longrightarrow> run_evolves r t \<Longrightarrow> run_ok t \<Longrightarrow> env_le env env' \<Longrightarrow> run_good tasks env' i t"
  by (auto simp: run_good_def dest: run_evolves_stamps pc_ready_evolves drawn_mono)

lemma state_good_env: "state_good tasks env d \<Longrightarrow> env_le env env' \<Longrightarrow> state_good tasks env' d"
  unfolding state_good_def run_good_def using drawn_mono by blast

lemma state_good_same: "same_state d e \<Longrightarrow> state_good tasks env e \<Longrightarrow> state_good tasks env d"
  by (simp add: state_good_def same_state_def)

lemma state_good_empty [simp]: "dr_runs d = [] \<Longrightarrow> state_good tasks env d"
  by (simp add: state_good_def)

text \<open>The tables of the service that are kept for every run.\<close>

definition tables_match :: "'p pipelines \<Rightarrow> bool" where
  "tables_match s \<longleftrightarrow> fst ` set (ps_callback_events s) = fst ` set (ps_runs s) \<and>
     fst ` set (ps_cancel_events s) = fst ` set (ps_runs s) \<and> fst ` set (ps_completion_events s) = fst ` set (ps_runs s)"

text \<open>The events tell which runs have ended.\<close>

definition synced :: "'p pipelines \<Rightarrow> bool" where
  "synced s \<longleftrightarrow> (\<forall>i r. map_of (ps_runs s) i = Some r \<longrightarrow>
     map_of (ps_cancel_events s) i = Some (run_terminal r) \<and> map_of (ps_completion_events s) i = Some (run_terminal r))"

definition memory_good :: "'p pipelines \<Rightarrow> bool" where
  "memory_good s \<longleftrightarrow> storable (memory_state s) \<and> state_good (ps_tasks s) (ps_env s) (memory_state s) \<and> tables_match s"

section \<open>Events\<close>

text \<open>Only the two event tables differ, and not in their keys.\<close>

definition events_differ :: "'p pipelines \<Rightarrow> 'p pipelines \<Rightarrow> bool" where
  "events_differ s t \<longleftrightarrow> t = s\<lparr>ps_cancel_events := ps_cancel_events t, ps_completion_events := ps_completion_events t\<rparr> \<and>
     fst ` set (ps_cancel_events t) = fst ` set (ps_cancel_events s) \<and>
     fst ` set (ps_completion_events t) = fst ` set (ps_completion_events s)"

lemma fst_set_update: "k \<in> fst ` set d \<Longrightarrow> fst ` set (AList.update k v d) = fst ` set d"
  by (simp add: dom_update insert_absorb flip: dom_map_of_conv_image_fst) (auto simp: update_conv' dom_map_of_conv_image_fst)

lemma wp_synchronize_list:
  assumes "distinct (map fst xs)" "fst ` set xs \<subseteq> fst ` set (ps_cancel_events s)" "fst ` set xs \<subseteq> fst ` set (ps_completion_events s)"
    and "\<And>t. events_differ s t \<Longrightarrow> (\<forall>(i, r) \<in> set xs. map_of (ps_cancel_events t) i = Some (run_terminal r) \<and>
      map_of (ps_completion_events t) i = Some (run_terminal r)) \<Longrightarrow>
      (\<forall>i. i \<notin> fst ` set xs \<longrightarrow> map_of (ps_cancel_events t) i = map_of (ps_cancel_events s) i \<and>
        map_of (ps_completion_events t) i = map_of (ps_completion_events s) i) \<Longrightarrow> Q () t"
  shows "wp (for_each (\<lambda>(run_id, r).
       andThen (reads (\<lambda>s. map_of (ps_cancel_events s) run_id \<noteq> None \<and> map_of (ps_completion_events s) run_id \<noteq> None)) (\<lambda>present.
       andThen (ensure present (PipelineKeyError run_id)) (\<lambda>_.
       writes (\<lambda>s. s\<lparr>ps_cancel_events := AList.update run_id (run_terminal r) (ps_cancel_events s),
                     ps_completion_events := AList.update run_id (run_terminal r) (ps_completion_events s)\<rparr>)))) xs) Q E s"
  using assms
proof (induction xs arbitrary: s)
  case Nil
  then show ?case by (simp add: wp_ret events_differ_def)
next
  case (Cons x xs)
  obtain i r where x: "x = (i, r)" by (cases x)
  let ?s = "s\<lparr>ps_cancel_events := AList.update i (run_terminal r) (ps_cancel_events s),
    ps_completion_events := AList.update i (run_terminal r) (ps_completion_events s)\<rparr>"
  have i: "i \<in> fst ` set (ps_cancel_events s)" "i \<in> fst ` set (ps_completion_events s)"
    using Cons.prems(2,3) by (auto simp: x)
  have present: "map_of (ps_cancel_events s) i \<noteq> None" "map_of (ps_completion_events s) i \<noteq> None"
    using i by (simp_all add: map_of_eq_None_iff)
  have keys: "fst ` set (AList.update i (run_terminal r) (ps_cancel_events s)) = fst ` set (ps_cancel_events s)"
    "fst ` set (AList.update i (run_terminal r) (ps_completion_events s)) = fst ` set (ps_completion_events s)"
    using i by (simp_all add: fst_set_update)
  have "wp (for_each (\<lambda>(run_id, r).
       andThen (reads (\<lambda>s. map_of (ps_cancel_events s) run_id \<noteq> None \<and> map_of (ps_completion_events s) run_id \<noteq> None)) (\<lambda>present.
       andThen (ensure present (PipelineKeyError run_id)) (\<lambda>_.
       writes (\<lambda>s. s\<lparr>ps_cancel_events := AList.update run_id (run_terminal r) (ps_cancel_events s),
                     ps_completion_events := AList.update run_id (run_terminal r) (ps_completion_events s)\<rparr>)))) xs) Q E ?s"
  proof (rule Cons.IH)
    fix t assume t: "events_differ ?s t"
      "\<forall>(i, r) \<in> set xs. map_of (ps_cancel_events t) i = Some (run_terminal r) \<and> map_of (ps_completion_events t) i = Some (run_terminal r)"
      "\<forall>k. k \<notin> fst ` set xs \<longrightarrow> map_of (ps_cancel_events t) k = map_of (ps_cancel_events ?s) k \<and>
        map_of (ps_completion_events t) k = map_of (ps_completion_events ?s) k"
    have fresh: "i \<notin> fst ` set xs" using Cons.prems(1) by (simp add: x)
    show "Q () t"
    proof (rule Cons.prems(4))
      show "events_differ s t" using t(1) by (simp add: events_differ_def keys)
      show "\<forall>(i, r) \<in> set (x # xs). map_of (ps_cancel_events t) i = Some (run_terminal r) \<and> map_of (ps_completion_events t) i = Some (run_terminal r)"
        using t(2,3) fresh by (auto simp: x update_conv')
      show "\<forall>k. k \<notin> fst ` set (x # xs) \<longrightarrow> map_of (ps_cancel_events t) k = map_of (ps_cancel_events s) k \<and>
          map_of (ps_completion_events t) k = map_of (ps_completion_events s) k"
        using t(3) by (auto simp: x update_conv')
    qed
  qed (use Cons.prems in \<open>auto simp: keys x\<close>)
  then show ?case
    using present by (simp add: x wp_simps)
qed

lemma wp_synchronize_events:
  assumes "distinct (map fst (ps_runs s))" "tables_match s"
    and "\<And>t. events_differ s t \<Longrightarrow> synced t \<Longrightarrow> Q () t"
  shows "wp synchronize_events Q E s"
  unfolding synchronize_events_def
proof (intro wp_andThenI wp_readsI wp_synchronize_list assms(3))
  fix t assume t: "events_differ s t" and runs: "\<forall>(i, r) \<in> set (ps_runs s). map_of (ps_cancel_events t) i = Some (run_terminal r) \<and>
      map_of (ps_completion_events t) i = Some (run_terminal r)"
  have "ps_runs t = ps_runs s" using t by (metis events_differ_def pipelines.surjective pipelines.update_convs pipelines.select_convs(2))
  then show "synced t" using runs by (auto simp: synced_def dest!: map_of_SomeD)
qed (use assms in \<open>auto simp: tables_match_def\<close>)

lemma events_differ_fields:
  assumes "events_differ s t"
  shows "memory_state t = memory_state s" "ps_env t = ps_env s" "ps_tasks t = ps_tasks s" "ps_store t = ps_store s"
    "ps_durable_state t = ps_durable_state s" "ps_initialized t = ps_initialized s" "ps_closed t = ps_closed s"
    "tables_match t = tables_match s"
  using assms by (cases s; cases t; simp add: events_differ_def memory_state_def tables_match_def)+

section \<open>Restored states\<close>

definition restored :: "PipelinePersistenceState \<Rightarrow> 'p pipelines \<Rightarrow> 'p pipelines" where
  "restored d s = snd (restore_state d s)"

lemma wp_restore_state: "Q () (restored d s) \<Longrightarrow> wp (restore_state d) Q E s"
  by (simp add: restored_def restore_state_def wp_writes run_simps)

lemma restored_simps [simp]:
  "ps_runs (restored d s) = dr_runs d" "ps_env (restored d s) = ps_env s" "ps_tasks (restored d s) = ps_tasks s"
  "ps_store (restored d s) = ps_store s" "ps_durable_state (restored d s) = ps_durable_state s"
  "ps_initialized (restored d s) = ps_initialized s" "ps_closed (restored d s) = ps_closed s"
  "ps_trigger_keys (restored d s) = dr_trigger_keys d"
  by (simp_all add: restored_def restore_state_def run_simps)

lemma restored_tables: "tables_match (restored d s)"
  by (force simp: tables_match_def restored_def restore_state_def run_simps)

lemma map_of_map_value: "map_of (map (\<lambda>(k, v). (k, f k v)) xs) k = map_option (f k) (map_of xs k)"
  by (induction xs) auto

lemma restored_synced: "synced (restored d s)"
  by (simp add: synced_def restored_def restore_state_def run_simps map_of_map_value)

lemma restored_memory:
  assumes "storable d"
  shows "same_state (memory_state (restored d s)) d" "storable (memory_state (restored d s))"
proof -
  let ?events = "map (\<lambda>(i, _). (i, case map_of (dr_callback_events d) i of None \<Rightarrow> [] | Some es \<Rightarrow> es)) (dr_runs d)"
  have mem: "memory_state (restored d s) = d\<lparr>dr_callback_events := ?events\<rparr>"
    by (simp add: memory_state_def restored_def restore_state_def run_simps)
  have ids: "i \<in> fst ` set (dr_runs d)" if "map_of (dr_callback_events d) i = Some es" for i es
    using assms that by (fastforce simp: storable_def dest: map_of_SomeD)
  have "events_in (d\<lparr>dr_callback_events := ?events\<rparr>) i = events_in d i" for i
  proof (cases "map_of (dr_runs d) i")
    case None
    then have "map_of (dr_callback_events d) i = None" using ids [of i] by (cases "map_of (dr_callback_events d) i") (auto simp: map_of_eq_None_iff)
    then show ?thesis by (auto simp: events_in_def map_of_map_value None fun_eq_iff)
  qed (auto simp: events_in_def map_of_map_value fun_eq_iff split: option.split)
  then show "same_state (memory_state (restored d s)) d" unfolding mem by (simp add: same_state_def fun_eq_iff)
  have "distinct (map fst (case map_of (dr_callback_events d) i of None \<Rightarrow> [] | Some es \<Rightarrow> es))" for i
    using assms by (auto simp: storable_def dest: map_of_SomeD split: option.split)
  then have all: "\<forall>(i, es) \<in> set ?events. i \<in> fst ` set (dr_runs d) \<and> distinct (map fst es)" by force
  have keys: "map fst ?events = map fst (dr_runs d)" by (simp add: case_prod_beta)
  have "storable (d\<lparr>dr_callback_events := es\<rparr>)"
    if "\<forall>(i, x) \<in> set es. i \<in> fst ` set (dr_runs d) \<and> distinct (map fst x)" "map fst es = map fst (dr_runs d)" for es
    using that assms by (simp add: storable_def)
  from this [OF all keys] show "storable (memory_state (restored d s))" unfolding mem .
qed

lemma restored_good:
  assumes "storable d" "state_good (ps_tasks s) (ps_env s) d"
  shows "memory_good (restored d s)"
  using assms restored_memory [OF assms(1)] restored_tables
  by (auto simp: memory_good_def intro: state_good_same)

locale pipeline_host =
  fixes port :: "'p port"
    and good :: "'p \<Rightarrow> bool"
    and stored :: "'p \<Rightarrow> PipelinePersistenceState"
  assumes store: "port = Some p \<Longrightarrow> pipeline_store p good stored"
    and save_fails: "port = Some p \<Longrightarrow> good q \<Longrightarrow> storable d \<Longrightarrow>
      wp (pp_save p d) (\<lambda>_ _. True) (\<lambda>_ q'. stored q' = stored q) q"
    and clear_fails: "port = Some p \<Longrightarrow> good q \<Longrightarrow> wp (pp_clear p) (\<lambda>_ _. True) (\<lambda>_ q'. stored q' = stored q) q"
begin

definition store_good :: "'p pipelines \<Rightarrow> bool" where
  "store_good s \<longleftrightarrow> (port = None \<longrightarrow> ps_initialized s) \<and>
     (port \<noteq> None \<longrightarrow> good (ps_store s) \<and> state_good (ps_tasks s) (ps_env s) (stored (ps_store s)) \<and>
       (ps_initialized s \<longrightarrow> ps_durable_state s \<noteq> None) \<and>
       (\<forall>d. ps_durable_state s = Some d \<longrightarrow> storable d \<and> same_state d (stored (ps_store s))))"

text \<open>\<open>core d s\<close>: in the middle of a call that found the runs \<open>d\<close>.\<close>

definition core :: "PipelinePersistenceState \<Rightarrow> 'p pipelines \<Rightarrow> bool" where
  "core d s \<longleftrightarrow> memory_good s \<and> store_good s \<and> grows d (memory_state s) \<and>
     (port \<noteq> None \<longrightarrow> grows d (stored (ps_store s)))"

abbreviation mem :: "'p pipelines \<Rightarrow> PipelinePersistenceState" where
  "mem s \<equiv> memory_state s"

definition whole :: "'p pipelines \<Rightarrow> bool" where
  "whole s \<longleftrightarrow> core (mem s) s"

text \<open>Memory and store hold the same.\<close>

definition settled :: "'p pipelines \<Rightarrow> bool" where
  "settled s \<longleftrightarrow> (port \<noteq> None \<longrightarrow> same_state (mem s) (stored (ps_store s)))"

definition pipelines_inv :: "'p pipelines \<Rightarrow> bool" where
  "pipelines_inv s \<longleftrightarrow> whole s \<and> (ps_tasks s \<noteq> [] \<longrightarrow> ps_initialized s) \<and> (\<not> ps_closed s \<longrightarrow> synced s \<and> (ps_initialized s \<longrightarrow> settled s))"

lemma core_whole: "core d s \<Longrightarrow> settled s \<Longrightarrow> whole s"
  by (auto simp: core_def whole_def settled_def intro: grows_same)

section \<open>Checkpoints\<close>

lemma wp_load:
  assumes "port = Some p" "good (ps_store s)"
    and "\<And>d q. good q \<Longrightarrow> stored q = stored (ps_store s) \<Longrightarrow> storable d \<Longrightarrow> same_state d (stored q) \<Longrightarrow>
      Q d (s\<lparr>ps_store := q\<rparr>)"
    and "\<And>e q. good q \<Longrightarrow> stored q = stored (ps_store s) \<Longrightarrow> E e (s\<lparr>ps_store := q\<rparr>)"
  shows "wp (on_store (pp_load p)) Q E s"
  using pipeline_store.load_law [OF store [OF assms(1)] assms(2)] assms(3,4)
  by (auto simp: wp_def on_store_def split: prod.splits sum.splits)

lemma wp_save:
  assumes "port = Some p" "good (ps_store s)" "storable d"
    and "\<And>q. good q \<Longrightarrow> same_state d (stored q) \<Longrightarrow> Q () (s\<lparr>ps_store := q\<rparr>)"
    and "\<And>e q. good q \<Longrightarrow> stored q = stored (ps_store s) \<Longrightarrow> E e (s\<lparr>ps_store := q\<rparr>)"
  shows "wp (on_store (pp_save p d)) Q E s"
  using wp_both [OF pipeline_store.save_law [OF store [OF assms(1)] assms(2,3)] save_fails [OF assms(1-3)]] assms(4,5)
  by (auto simp: wp_def on_store_def split: prod.splits sum.splits)

lemma wp_attempt: "wp m (\<lambda>x. Q (Inr x)) (\<lambda>e. Q (Inl e)) s \<Longrightarrow> wp (attempt m) Q E s"
  by (auto simp: wp_def attempt_def split: prod.splits sum.splits)

text \<open>After a checkpoint memory and store agree; after a failed one memory is what was durable.\<close>

lemma core_restored:
  assumes s: "core d s" and port: "port = Some p" and q: "good q" "stored q = stored (ps_store s)"
    and e: "storable e" "same_state e (stored (ps_store s))"
  shows "core d (restored e (s\<lparr>ps_store := q\<rparr>))" "whole (restored e (s\<lparr>ps_store := q\<rparr>))"
    "synced (restored e (s\<lparr>ps_store := q\<rparr>))" "settled (restored e (s\<lparr>ps_store := q\<rparr>))"
    "same_state (mem (restored e (s\<lparr>ps_store := q\<rparr>))) (stored (ps_store s))"
proof -
  let ?t = "restored e (s\<lparr>ps_store := q\<rparr>)"
  have has: "port \<noteq> None" using port by simp
  have good: "state_good (ps_tasks s) (ps_env s) (stored (ps_store s))" and d: "grows d (stored (ps_store s))"
    using s has by (simp_all add: core_def store_good_def)
  have mem: "same_state (mem ?t) e" by (rule restored_memory [OF e(1)])
  have "memory_good ?t" by (rule restored_good) (use e good in \<open>auto intro: state_good_same\<close>)
  moreover have "store_good ?t" using s has q by (auto simp: core_def store_good_def)
  moreover have "same_state (mem ?t) (stored (ps_store ?t))" using same_state_trans [OF mem e(2)] q(2) by simp
  moreover from this have "grows d (mem ?t)" using d q(2) by (auto intro: grows_trans grows_same same_state_sym)
  ultimately show "core d ?t" "whole ?t"
    using d q(2) by (auto simp: core_def whole_def intro: grows_same)
  show "synced ?t" by (rule restored_synced)
  show "same_state (mem ?t) (stored (ps_store s))" using same_state_trans [OF mem e(2)] .
  show "settled ?t" using \<open>same_state (mem ?t) (stored (ps_store ?t))\<close> by (simp add: settled_def)
qed

lemma core_events_differ:
  assumes "events_differ s t"
  shows "core d t = core d s" "settled t = settled s" "whole t = whole s"
  using events_differ_fields [OF assms]
  by (simp_all add: core_def settled_def whole_def memory_good_def store_good_def)

lemma core_saved:
  assumes s: "core d s" and port: "port = Some p" and q: "good q" "same_state (mem s) (stored q)"
  shows "core d (s\<lparr>ps_store := q, ps_durable_state := Some (mem s)\<rparr>)" "settled (s\<lparr>ps_store := q, ps_durable_state := Some (mem s)\<rparr>)"
proof -
  have m: "memory_good s" "grows d (mem s)" using s by (simp_all add: core_def)
  then have "state_good (ps_tasks s) (ps_env s) (stored q)" "grows d (stored q)"
    using q(2) by (auto simp: memory_good_def intro: state_good_same same_state_sym grows_trans grows_same)
  then show "core d (s\<lparr>ps_store := q, ps_durable_state := Some (mem s)\<rparr>)" "settled (s\<lparr>ps_store := q, ps_durable_state := Some (mem s)\<rparr>)"
    using m q port unfolding core_def settled_def store_good_def
    by (simp_all add: memory_good_def memory_state_def tables_match_def)
qed

lemma wp_checkpoint:
  assumes s: "core d s" "ps_initialized s"
    and Q: "\<And>t. core d t \<Longrightarrow> whole t \<Longrightarrow> synced t \<Longrightarrow> settled t \<Longrightarrow> mem t = mem s \<Longrightarrow> ps_tasks t = ps_tasks s \<Longrightarrow>
      ps_initialized t \<Longrightarrow> ps_closed t = ps_closed s \<Longrightarrow> ps_env t = ps_env s \<Longrightarrow> Q () t"
    and E: "\<And>e t. core d t \<Longrightarrow> whole t \<Longrightarrow> synced t \<Longrightarrow> settled t \<Longrightarrow> ps_tasks t = ps_tasks s \<Longrightarrow> ps_initialized t \<Longrightarrow>
      ps_closed t = ps_closed s \<Longrightarrow> ps_env t = ps_env s \<Longrightarrow> port \<noteq> None \<Longrightarrow> same_state (mem t) (stored (ps_store s)) \<Longrightarrow> E e t"
  shows "wp (checkpoint port) Q E s"
proof -
  have mem: "memory_good s" using s by (simp add: core_def)
  then have match: "tables_match s" "distinct (map fst (ps_runs s))" "storable (mem s)"
    by (simp_all add: memory_good_def storable_def memory_state_def)
  show ?thesis
  proof (cases port)
    case None
    show ?thesis
      unfolding checkpoint_def None option.case
    proof (rule wp_synchronize_events [OF match(2,1)])
      fix t assume t: "events_differ s t" "synced t"
      have "settled t" unfolding settled_def by (simp add: None)
      then show "Q () t"
        using t s events_differ_fields [OF t(1)] by (intro Q core_whole) (simp_all add: core_events_differ [OF t(1)])
    qed
  next
    case (Some p)
    have has: "port \<noteq> None" using Some by simp
    have good: "good (ps_store s)" using s has by (simp add: core_def store_good_def)
    obtain dur where dur: "ps_durable_state s = Some dur" "storable dur" "same_state dur (stored (ps_store s))"
      using s has by (auto simp: core_def store_good_def)
    show ?thesis
      unfolding checkpoint_def Some option.case
    proof (intro wp_andThenI wp_readsI wp_attempt, rule wp_save [OF Some good match(3)])
      fix q assume q: "good q" "same_state (mem s) (stored q)"
      let ?s = "s\<lparr>ps_store := q, ps_durable_state := Some (mem s)\<rparr>"
      have "wp synchronize_events Q E ?s"
      proof (rule wp_synchronize_events)
        fix t assume t: "events_differ ?s t" "synced t"
        have "core d t" "settled t" using core_saved [OF s(1) Some q] by (simp_all add: core_events_differ [OF t(1)])
        then show "Q () t"
          using t(2) s(2) events_differ_fields [OF t(1)]
          by (intro Q core_whole) (simp_all add: memory_state_def)
      qed (use match in \<open>simp_all add: tables_match_def\<close>)
      then show "wp (case Inr () of
            Inl error \<Rightarrow> andThen (attempt (on_store (pp_load p))) (\<lambda>loaded.
              andThen (case loaded of Inl _ \<Rightarrow> reads ps_durable_state | Inr d \<Rightarrow> ret (Some d)) (\<lambda>durable.
              andThen (case durable of None \<Rightarrow> ret () | Some d \<Rightarrow> restore_state d) (\<lambda>_. raise error)))
          | Inr _ \<Rightarrow> andThen (writes (ps_durable_state_update (\<lambda>_. Some (mem s)))) (\<lambda>_. synchronize_events)) Q E (s\<lparr>ps_store := q\<rparr>)"
        by (simp add: wp_simps)
    next
      fix e q assume q: "good q" "stored q = stored (ps_store s)"
      have fail: "wp (restore_state f) (\<lambda>_. wp (raise e) Q E) E (s\<lparr>ps_store := q'\<rparr>)"
        if "good q'" "stored q' = stored (ps_store s)" "storable f" "same_state f (stored (ps_store s))" for f q'
        using core_restored [OF s(1) Some that] s(2) has by (intro wp_restore_state wp_raiseI E) simp_all
      have "wp (attempt (on_store (pp_load p))) (\<lambda>loaded. wp
          (andThen (case loaded of Inl _ \<Rightarrow> reads ps_durable_state | Inr d \<Rightarrow> ret (Some d)) (\<lambda>durable.
           andThen (case durable of None \<Rightarrow> ret () | Some d \<Rightarrow> restore_state d) (\<lambda>_. raise e))) Q E) E (s\<lparr>ps_store := q\<rparr>)"
      proof (rule wp_attempt, rule wp_load [OF Some])
        show "good (ps_store (s\<lparr>ps_store := q\<rparr>))" using q by simp
        fix f q' assume q': "good q'" "stored q' = stored (ps_store (s\<lparr>ps_store := q\<rparr>))" "storable f" "same_state f (stored q')"
        then have "wp (restore_state f) (\<lambda>_. wp (raise e) Q E) E (s\<lparr>ps_store := q'\<rparr>)"
          using q(2) by (intro fail) simp_all
        then show "wp (andThen (case Inr f of Inl _ \<Rightarrow> reads ps_durable_state | Inr d \<Rightarrow> ret (Some d)) (\<lambda>durable.
           andThen (case durable of None \<Rightarrow> ret () | Some d \<Rightarrow> restore_state d) (\<lambda>_. raise e))) Q E (s\<lparr>ps_store := q, ps_store := q'\<rparr>)"
          by (simp add: wp_andThen wp_ret)
      next
        fix e' q' assume q': "good q'" "stored q' = stored (ps_store (s\<lparr>ps_store := q\<rparr>))"
        then have "wp (restore_state dur) (\<lambda>_. wp (raise e) Q E) E (s\<lparr>ps_store := q'\<rparr>)"
          using q(2) dur by (intro fail) simp_all
        then show "wp (andThen (case Inl e' of Inl _ \<Rightarrow> reads ps_durable_state | Inr d \<Rightarrow> ret (Some d)) (\<lambda>durable.
           andThen (case durable of None \<Rightarrow> ret () | Some d \<Rightarrow> restore_state d) (\<lambda>_. raise e))) Q E (s\<lparr>ps_store := q, ps_store := q'\<rparr>)"
          by (simp add: wp_andThen wp_reads dur)
      qed
      then show "wp (case Inl e of
            Inl error \<Rightarrow> andThen (attempt (on_store (pp_load p))) (\<lambda>loaded.
              andThen (case loaded of Inl _ \<Rightarrow> reads ps_durable_state | Inr d \<Rightarrow> ret (Some d)) (\<lambda>durable.
              andThen (case durable of None \<Rightarrow> ret () | Some d \<Rightarrow> restore_state d) (\<lambda>_. raise error)))
          | Inr _ \<Rightarrow> andThen (writes (ps_durable_state_update (\<lambda>_. Some (mem s)))) (\<lambda>_. synchronize_events)) Q E (s\<lparr>ps_store := q\<rparr>)"
        by (simp add: wp_andThen)
    qed
  qed
qed

section \<open>Calls\<close>

text \<open>\<open>post s t\<close>: what a call that found \<open>s\<close> leaves; \<open>during s t\<close>: a state in its middle.\<close>

definition post :: "'p pipelines \<Rightarrow> 'p pipelines \<Rightarrow> bool" where
  "post s t \<longleftrightarrow> pipelines_inv t \<and> grows (mem s) (mem t) \<and> ps_closed t = ps_closed s \<and> ps_tasks t = ps_tasks s \<and>
     env_le (ps_env s) (ps_env t)"

definition during :: "'p pipelines \<Rightarrow> 'p pipelines \<Rightarrow> bool" where
  "during s t \<longleftrightarrow> core (mem s) t \<and> ps_initialized t \<and> ps_closed t = ps_closed s \<and> ps_tasks t = ps_tasks s \<and>
     env_le (ps_env s) (ps_env t)"

lemma post_refl: "pipelines_inv s \<Longrightarrow> post s s"
  by (simp add: post_def)

lemma post_trans: "post s t \<Longrightarrow> post t u \<Longrightarrow> post s u"
  by (auto simp: post_def intro: grows_trans env_le_trans)

lemma post_inv: "post s t \<Longrightarrow> pipelines_inv t"
  by (simp add: post_def)

lemma during_start: "pipelines_inv s \<Longrightarrow> ps_initialized s \<Longrightarrow> during s s"
  by (simp add: during_def pipelines_inv_def whole_def)

lemma during_run:
  assumes "during s t" "map_of (ps_runs t) i = Some r"
  shows "run_ok r" "run_stamps_ok r" "pl_id r = i" "i \<in> drawn_ids (ps_env t)" "map_of (ps_tasks s) i = Some pc \<Longrightarrow> pc_ready pc r"
proof -
  have m: "memory_good t" "ps_tasks t = ps_tasks s" using assms(1) by (simp_all add: during_def core_def)
  then have "run_good (ps_tasks s) (ps_env t) i r" using assms(2) by (auto simp: memory_good_def state_good_def memory_state_def)
  then show "run_ok r" "run_stamps_ok r" "i \<in> drawn_ids (ps_env t)" "map_of (ps_tasks s) i = Some pc \<Longrightarrow> pc_ready pc r"
    by (auto simp: run_good_def)
  show "pl_id r = i" using m(1) assms(2) by (auto simp: memory_good_def storable_def memory_state_def dest!: map_of_SomeD)
qed

lemma wp_checkpoint_post:
  assumes "during s0 s"
    and "\<And>t. post s0 t \<Longrightarrow> ps_initialized t \<Longrightarrow> settled t \<Longrightarrow> mem t = mem s \<Longrightarrow> Q () t" and "\<And>e t. post s0 t \<Longrightarrow> ps_initialized t \<Longrightarrow> port \<noteq> None \<Longrightarrow>
      same_state (mem t) (stored (ps_store s)) \<Longrightarrow> E e t"
  shows "wp (checkpoint port) Q E s"
  using assms
  by (intro wp_checkpoint [where d = "mem s0"]) (auto simp: during_def post_def pipelines_inv_def core_def)

definition edited :: "text_t \<Rightarrow> tree_state \<Rightarrow> 'p pipelines \<Rightarrow> 'p pipelines" where
  "edited i u s = s\<lparr>ps_env := ts_env u, ps_runs := AList.update i (ts_run u) (ps_runs s)\<rparr>"

lemma fst_update_present: "map_of d i = Some x \<Longrightarrow> fst ` set (AList.update i y d) = fst ` set d"
  by (rule fst_set_update) (force dest: map_of_SomeD)

lemma core_edited:
  assumes c: "core d s" and r: "map_of (ps_runs s) i = Some r" and ev: "run_evolves r (ts_run u)" "env_le (ps_env s) (ts_env u)"
    and ok: "run_ok (ts_run u)"
  shows "core d (edited i u s)"
proof -
  let ?t = "edited i u s"
  have keys: "fst ` set (ps_runs ?t) = fst ` set (ps_runs s)"
    using fst_update_present [OF r] by (simp add: edited_def)
  have runs: "map_of (ps_runs ?t) = (map_of (ps_runs s))(i \<mapsto> ts_run u)"
    by (simp add: edited_def update_conv')
  have m: "memory_good s" using c by (simp add: core_def)
  have good: "run_good (ps_tasks s) (ps_env s) i r"
    using m r by (simp add: memory_good_def state_good_def memory_state_def)
  have id: "pl_id (ts_run u) = i"
    using run_evolves_id [OF ev(1)] m r by (auto simp: memory_good_def storable_def memory_state_def dest!: map_of_SomeD)
  have "distinct (map fst (ps_runs ?t))"
    using m by (simp add: edited_def memory_good_def storable_def memory_state_def distinct_update)
  moreover have "\<forall>(k, x) \<in> set (ps_runs ?t). pl_id x = k"
    using m id by (auto simp: edited_def memory_good_def storable_def memory_state_def dest!: set_update_subset)
  ultimately have "storable (mem ?t)"
    using m keys by (simp add: memory_good_def storable_def memory_state_def) (simp add: edited_def)
  moreover have "state_good (ps_tasks ?t) (ps_env ?t) (mem ?t)"
    unfolding state_good_def
  proof (intro allI impI)
    fix k x assume x: "map_of (dr_runs (mem ?t)) k = Some x"
    show "run_good (ps_tasks ?t) (ps_env ?t) k x"
    proof (cases "k = i")
      case True
      then have "x = ts_run u" using x runs by (simp add: memory_state_def)
      then show ?thesis using run_good_evolves [OF good ev(1) ok ev(2)] True by (simp add: edited_def)
    next
      case False
      then have "map_of (ps_runs s) k = Some x" using x runs by (simp add: memory_state_def)
      then have "run_good (ps_tasks s) (ps_env s) k x" using m by (simp add: memory_good_def state_good_def memory_state_def)
      then show ?thesis using drawn_mono [OF ev(2)] by (auto simp: edited_def run_good_def)
    qed
  qed
  moreover have "tables_match ?t" using m keys by (simp add: memory_good_def tables_match_def) (simp add: edited_def)
  moreover have "store_good ?t"
    using c ev(2) by (auto simp: core_def store_good_def edited_def intro: state_good_env)
  moreover have "events_in (mem ?t) = events_in (mem s)" "dr_trigger_keys (mem ?t) = dr_trigger_keys (mem s)"
    "map_of (dr_runs (mem ?t)) = (map_of (dr_runs (mem s)))(i \<mapsto> ts_run u)"
    using runs by (simp_all add: memory_state_def events_in_def fun_eq_iff edited_def)
  then have "grows (mem s) (mem ?t)"
    using r ev(1) by (auto simp: grows_def) (simp add: memory_state_def)
  ultimately show ?thesis
    using c by (auto simp: core_def memory_good_def edited_def intro: grows_trans)
qed

lemma wp_edit_run:
  assumes d: "during s0 s" and r: "map_of (ps_runs s) i = Some r" and steps: "evo.steps m"
    and prog: "wp m (\<lambda>x u. run_ok (ts_run u) \<and> P x u) (\<lambda>e u. run_ok (ts_run u) \<and> P' e u) \<lparr>ts_env = ps_env s, ts_run = r\<rparr>"
    and Q: "\<And>x u. during s0 (edited i u s) \<Longrightarrow> run_evolves r (ts_run u) \<Longrightarrow> P x u \<Longrightarrow> Q x (edited i u s)"
    and E: "\<And>e u. during s0 (edited i u s) \<Longrightarrow> run_evolves r (ts_run u) \<Longrightarrow> P' e u \<Longrightarrow> E e (edited i u s)"
  shows "wp (edit_run i m) Q E s"
proof -
  let ?u = "\<lparr>ts_env = ps_env s, ts_run = r\<rparr>"
  obtain x u where m: "m ?u = (x, u)" by (cases "m ?u")
  have ev: "run_evolves r (ts_run u)" "env_le (ps_env s) (ts_env u)"
    using evo.stepsD [OF steps, of ?u] by (simp_all add: m env_later_le)
  have "run_ok (ts_run u)" using prog by (simp add: wp_def m split: sum.splits)
  then have "core (mem s0) (edited i u s)" using d by (intro core_edited [OF _ r ev]) (simp_all add: during_def)
  then have "during s0 (edited i u s)"
    using d ev(2) by (auto simp: during_def edited_def intro: env_le_trans)
  then show ?thesis
    using prog Q E ev(1) by (cases x) (auto simp: wp_def edit_run_def r m edited_def)
qed

lemma wp_require_run:
  "(\<And>r. map_of (ps_runs s) i = Some r \<Longrightarrow> Q r s) \<Longrightarrow> (map_of (ps_runs s) i = None \<Longrightarrow> E (PipelineNotFoundError (''pipeline not found: '' @ i)) s) \<Longrightarrow>
   wp (require_run i) Q E s"
  unfolding require_run_def by (intro wp_intros)

section \<open>Initialization\<close>

lemma update_same: "map_of d k = Some v \<Longrightarrow> AList.update k v d = d"
  by (induction d) (auto split: if_splits)

lemma wp_recover_each:
  assumes "I s" and "\<And>x t. x \<in> set xs \<Longrightarrow> I t \<Longrightarrow> wp (f x) (\<lambda>y u. I u \<and> (\<not> y \<longrightarrow> u = t)) E t"
  shows "wp (map_each f xs) (\<lambda>ys u. I u \<and> (\<not> list_ex (\<lambda>y. y) ys \<longrightarrow> u = s)) E s"
  using assms
proof (induction xs arbitrary: s)
  case Nil
  then show ?case by (simp add: wp_ret)
next
  case (Cons x xs)
  have "wp (map_each f xs) (\<lambda>ys u. I u \<and> (\<not> list_ex (\<lambda>y. y) ys \<longrightarrow> u = t)) E t" if "I t" for t
    by (rule Cons.IH [OF that]) (use Cons.prems in auto)
  then have rest: "wp (andThen (map_each f xs) (\<lambda>ys. ret (y # ys))) (\<lambda>ys u. I u \<and> (\<not> list_ex (\<lambda>y. y) ys \<longrightarrow> u = s)) E t"
    if "I t \<and> (\<not> y \<longrightarrow> t = s)" for y t
    unfolding wp_andThen wp_ret [abs_def] by (rule wp_mono [of _ "\<lambda>ys u. I u \<and> (\<not> list_ex (\<lambda>y. y) ys \<longrightarrow> u = t)" E])
      (use that in auto)
  show ?case
    unfolding map_each.simps wp_andThen [of "f x"]
    by (rule wp_mono [OF Cons.prems(2) [OF _ Cons.prems(1)]]) (simp_all add: rest)
qed

lemma wp_recover:
  assumes "during s0 s" "i \<in> fst ` set (ps_runs s)"
  shows "wp (edit_run i recover_run) (\<lambda>y t. (during s0 t \<and> fst ` set (ps_runs t) = fst ` set (ps_runs s)) \<and> (\<not> y \<longrightarrow> t = s)) E s"
proof -
  obtain r where r: "map_of (ps_runs s) i = Some r" using assms(2) by (metis map_of_eq_None_iff not_None_eq)
  let ?u = "\<lparr>ts_env = ps_env s, ts_run = r\<rparr>"
  have ok: "view_ok (tview ?u)" using during_run(1) [OF assms(1) r] by (simp add: run_ok_view)
  have "wp recover_run (\<lambda>y u. run_ok (ts_run u) \<and> (\<not> y \<longrightarrow> u = ?u)) (\<lambda>e u. run_ok (ts_run u) \<and> False) ?u"
    by (rule wp_recover_run [OF ok]) (auto simp: run_ok_view)
  then show ?thesis
    by (rule wp_edit_run [OF assms(1) r steps_service_edits(1)])
      (auto simp: edited_def update_same [OF r] fst_update_present [OF r])
qed

lemma during_uninitialized:
  assumes "pipelines_inv s" "port = Some p" "good q" "stored q = stored (ps_store s)" "storable d" "same_state d (stored q)"
  defines "t \<equiv> (restored d (s\<lparr>ps_store := q\<rparr>))\<lparr>ps_durable_state := Some d, ps_initialized := True\<rparr>"
  shows "during s t" "synced t" "whole t" "settled t"
proof -
  have core: "core (mem s) s" using assms(1) by (simp add: pipelines_inv_def whole_def)
  note r = core_restored [OF core assms(2,3,4,5)]
  have has: "port \<noteq> None" using assms(2) by simp
  have eq: "mem t = mem (restored d (s\<lparr>ps_store := q\<rparr>))" "tables_match t = tables_match (restored d (s\<lparr>ps_store := q\<rparr>))"
    "synced t = synced (restored d (s\<lparr>ps_store := q\<rparr>))"
    by (simp_all add: t_def memory_state_def tables_match_def synced_def)
  have same: "same_state d (stored (ps_store s))" using assms(4,6) by simp
  have "core (mem s) t"
    using r(1) [OF same] has assms(5,6) eq
    by (auto simp: core_def memory_good_def store_good_def t_def)
  then show "during s t" by (simp add: during_def t_def)
  show "synced t" using r(3) [OF same] eq by simp
  show "whole t"
    using r(2) [OF same] has assms(5,6) eq
    by (auto simp: whole_def core_def memory_good_def store_good_def t_def)
  show "settled t" using r(4) [OF same] eq(1) by (simp add: settled_def t_def)
qed

lemma post_uninitialized:
  assumes "post s t" "port = Some p" "ps_tasks s = []"
  shows "post s (t\<lparr>ps_initialized := False\<rparr>)"
proof -
  have has: "port \<noteq> None" using assms(2) by simp
  have eq: "mem (t\<lparr>ps_initialized := False\<rparr>) = mem t" "tables_match (t\<lparr>ps_initialized := False\<rparr>) = tables_match t"
    "synced (t\<lparr>ps_initialized := False\<rparr>) = synced t"
    by (simp_all add: memory_state_def tables_match_def synced_def)
  show ?thesis
    using assms(1,3) has
    by (auto simp: post_def pipelines_inv_def whole_def core_def memory_good_def store_good_def eq)
qed

lemma wp_initialize:
  assumes inv: "pipelines_inv s"
    and Q: "\<And>t. post s t \<Longrightarrow> ps_initialized t \<Longrightarrow> (ps_initialized s \<longrightarrow> t = s) \<Longrightarrow> Q () t" and E: "\<And>e t. post s t \<Longrightarrow> \<not> ps_initialized s \<Longrightarrow> E e t"
  shows "wp (initialize_locked port) Q E s"
proof (cases "ps_initialized s")
  case True
  then show ?thesis unfolding initialize_locked_def using Q [OF post_refl [OF inv]] by (simp add: wp_simps)
next
  case False
  have core: "core (mem s) s" using inv by (simp add: pipelines_inv_def whole_def)
  then have has: "port \<noteq> None" using False unfolding core_def store_good_def by blast
  have idle: "ps_tasks s = []" using inv False by (auto simp: pipelines_inv_def)
  from has obtain p where p: "port = Some p" by blast
  have good: "good (ps_store s)" using core has by (simp add: core_def store_good_def)
  have rest: "wp (andThen (map_each (\<lambda>run_id. edit_run run_id recover_run) (map fst (dr_runs d))) (\<lambda>recovered.
       if \<not> list_ex (\<lambda>x. x) recovered then ret ()
       else andThen (attempt (checkpoint port)) (\<lambda>outcome. case outcome of
           Inl error \<Rightarrow> andThen (writes (ps_initialized_update (\<lambda>_. False))) (\<lambda>_. raise error)
         | Inr _ \<Rightarrow> ret ()))) Q E t"
    if t: "during s t" "synced t" "whole t" "settled t" "ps_runs t = dr_runs d" for d t
  proof -
    have same: "post s t" using t(1-4) by (auto simp: post_def during_def pipelines_inv_def core_def)
    have init: "ps_initialized t" using t(1) by (simp add: during_def)
    let ?I = "\<lambda>u. during s u \<and> fst ` set (ps_runs u) = fst ` set (dr_runs d)"
    have each: "wp (map_each (\<lambda>run_id. edit_run run_id recover_run) (map fst (dr_runs d)))
        (\<lambda>ys u. ?I u \<and> (\<not> list_ex (\<lambda>y. y) ys \<longrightarrow> u = t)) E t"
    proof (rule wp_recover_each)
      fix i u assume "i \<in> set (map fst (dr_runs d))" "?I u"
      then show "wp (edit_run i recover_run) (\<lambda>y v. ?I v \<and> (\<not> y \<longrightarrow> v = u)) E u"
        using wp_recover [of s u i E] by (auto elim!: wp_mono)
    qed (use t in simp)
    have saved: "wp (attempt (checkpoint port)) (\<lambda>outcome. wp (case outcome of
           Inl error \<Rightarrow> andThen (writes (ps_initialized_update (\<lambda>_. False))) (\<lambda>_. raise error)
         | Inr x \<Rightarrow> ret x) Q E) E u" if "during s u" for u
    proof (rule wp_attempt, rule wp_checkpoint_post [OF that])
      fix e v assume "post s v"
      from E [OF post_uninitialized [OF this p idle] False] show "wp (case Inl e of
           Inl error \<Rightarrow> andThen (writes (ps_initialized_update (\<lambda>_. False))) (\<lambda>_. raise error)
         | Inr x \<Rightarrow> ret x) Q E v"
        by (simp add: wp_simps)
    qed (use Q False in \<open>simp add: wp_simps\<close>)
    show ?thesis
      unfolding wp_andThen
      by (rule wp_mono [OF each]) (auto simp: wp_simps saved False same init intro!: Q)
  qed
  show ?thesis
    unfolding initialize_locked_def
  proof (rule wp_andThenI, rule wp_readsI)
    have "wp (on_store (pp_load p)) (\<lambda>d. wp (andThen (restore_state d) (\<lambda>_.
        andThen (writes (\<lambda>s. s\<lparr>ps_durable_state := Some d, ps_initialized := True\<rparr>)) (\<lambda>_.
        andThen (map_each (\<lambda>run_id. edit_run run_id recover_run) (map fst (dr_runs d))) (\<lambda>recovered.
          if \<not> list_ex (\<lambda>x. x) recovered then ret ()
          else andThen (attempt (checkpoint port)) (\<lambda>outcome. case outcome of
              Inl error \<Rightarrow> andThen (writes (ps_initialized_update (\<lambda>_. False))) (\<lambda>_. raise error)
            | Inr _ \<Rightarrow> ret ()))))) Q E) E s"
    proof (rule wp_load [OF p good])
      fix d q assume q: "good q" "stored q = stored (ps_store s)" "storable d" "same_state d (stored q)"
      note u = during_uninitialized [OF inv p q]
      show "wp (andThen (restore_state d) (\<lambda>_.
        andThen (writes (\<lambda>s. s\<lparr>ps_durable_state := Some d, ps_initialized := True\<rparr>)) (\<lambda>_.
        andThen (map_each (\<lambda>run_id. edit_run run_id recover_run) (map fst (dr_runs d))) (\<lambda>recovered.
          if \<not> list_ex (\<lambda>x. x) recovered then ret ()
          else andThen (attempt (checkpoint port)) (\<lambda>outcome. case outcome of
              Inl error \<Rightarrow> andThen (writes (ps_initialized_update (\<lambda>_. False))) (\<lambda>_. raise error)
            | Inr _ \<Rightarrow> ret ()))))) Q E (s\<lparr>ps_store := q\<rparr>)"
        by (intro wp_andThenI [of "restore_state d"] wp_restore_state wp_andThenI [of "writes f" for f] wp_writesI rest u) simp
    next
      fix e q assume q: "good q" "stored q = stored (ps_store s)"
      have eq: "mem (s\<lparr>ps_store := q\<rparr>) = mem s" "tables_match (s\<lparr>ps_store := q\<rparr>) = tables_match s" "synced (s\<lparr>ps_store := q\<rparr>) = synced s"
        by (simp_all add: memory_state_def tables_match_def synced_def)
      show "E e (s\<lparr>ps_store := q\<rparr>)"
        using inv q False by (intro E) (auto simp: post_def pipelines_inv_def whole_def settled_def core_def memory_good_def store_good_def eq)
    qed
    then show "wp (if ps_initialized s then ret ()
     else
       andThen (case port of None \<Rightarrow> raise (PipelineValueError ''AssertionError'') | Some p \<Rightarrow> on_store (pp_load p)) (\<lambda>d.
       andThen (restore_state d) (\<lambda>_.
       andThen (writes (\<lambda>s. s\<lparr>ps_durable_state := Some d, ps_initialized := True\<rparr>)) (\<lambda>_.
       andThen (map_each (\<lambda>run_id. edit_run run_id recover_run) (map fst (dr_runs d))) (\<lambda>recovered.
       if \<not> list_ex (\<lambda>x. x) recovered then ret ()
       else
         andThen (attempt (checkpoint port)) (\<lambda>outcome.
         case outcome of
           Inl error \<Rightarrow> andThen (writes (ps_initialized_update (\<lambda>_. False))) (\<lambda>_. raise error)
         | Inr _ \<Rightarrow> ret ())))))) Q E s"
      unfolding p option.case using False by (simp add: wp_andThen)
  qed
qed

end

end
