(* ===== verification/Pipeline_Operations.thy ===== *)
theory Pipeline_Operations
  imports Pipeline_Invariants
begin

text \<open>
  Each operation of the pipeline service keeps the invariant and only lets its state grow, whether
  it returns or raises, under storage faults; only a reset removes runs.
\<close>

section \<open>The environment only moves on\<close>

interpretation penv: stepwise "\<lambda>s (t :: 'p pipelines). env_later (ps_env s) (ps_env t)"
  by unfold_locales (auto intro: env_later_trans)

lemma penv_writes: "(\<And>s. ps_env (f s) = ps_env s) \<Longrightarrow> penv.steps (writes f)"
  by (simp add: penv.steps_writes)

lemma penv_attempt [steps_intros]: "penv.steps m \<Longrightarrow> penv.steps (attempt m)"
  unfolding penv.steps_def attempt_def by (auto split: prod.split) (metis snd_conv)

lemma penv_on_store [steps_intros]: "penv.steps (on_store m)"
  by (auto simp: penv.steps_def on_store_def split: prod.splits)

lemma penv_sum [steps_intros]:
  "(\<And>e. penv.steps (f e)) \<Longrightarrow> (\<And>x. penv.steps (g x)) \<Longrightarrow> penv.steps (case r of Inl e \<Rightarrow> f e | Inr x \<Rightarrow> g x)"
  by (cases r) simp_all

lemma penv_checkpoint [steps_intros]: "penv.steps (checkpoint port)"
  unfolding checkpoint_def synchronize_events_def restore_state_def
  by (intro steps_intros penv_writes) simp_all

text \<open>What an applied callback leaves.\<close>

definition callback_applied :: "text_t \<Rightarrow> text_t \<Rightarrow> text_t \<Rightarrow> PipelineRun \<Rightarrow> PipelinePersistenceState \<Rightarrow> PipelinePersistenceState \<Rightarrow> bool" where
  "callback_applied i e fp run d d' \<longleftrightarrow> map_of (dr_runs d') = (map_of (dr_runs d))(i \<mapsto> run) \<and>
     dr_trigger_keys d' = dr_trigger_keys d \<and> events_in d' = (events_in d)(i := (events_in d i)(e \<mapsto> fp))"

context pipeline_host
begin

section \<open>Queries and cancellation\<close>

lemma wp_get_run: "pipelines_inv s \<Longrightarrow> wp (get_run port i) (\<lambda>_. post s) (\<lambda>_. post s) s"
  unfolding get_run_def by (intro wp_andThenI wp_initialize wp_require_run) auto

lemma wp_list_runs: "pipelines_inv s \<Longrightarrow> wp (list_runs port) (\<lambda>_. post s) (\<lambda>_. post s) s"
  unfolding list_runs_def by (intro wp_andThenI wp_initialize wp_readsI) auto

lemma wp_look_terminal: "pipelines_inv s \<Longrightarrow> wp (look_terminal port i) (\<lambda>_. post s) (\<lambda>_. post s) s"
  unfolding look_terminal_def by (intro wp_andThenI wp_initialize wp_require_run wp_retI) auto

lemma wp_ensure_open: "(\<not> ps_closed s \<Longrightarrow> Q () s) \<Longrightarrow> (\<And>e. E e s) \<Longrightarrow> wp ensure_open Q E s"
  unfolding ensure_open_def by (intro wp_intros) auto

lemma edit_view_ok: "during s0 s \<Longrightarrow> map_of (ps_runs s) i = Some r \<Longrightarrow> view_ok (tview \<lparr>ts_env = ps_env s, ts_run = r\<rparr>)"
  using during_run(1) by (simp add: run_ok_view)

lemma wp_cancel_run:
  assumes "pipelines_inv s"
  shows "wp (cancel_run port i) (\<lambda>_. post s) (\<lambda>_. post s) s"
  unfolding cancel_run_def
proof (rule wp_andThenI, rule wp_initialize [OF assms], rule wp_andThenI, rule wp_ensure_open, rule wp_andThenI, rule wp_require_run)
  fix t r assume t: "post s t" "ps_initialized t" and r: "map_of (ps_runs t) i = Some r"
  have d: "during t t" using t by (intro during_start post_inv)
  have again: "post s u" if "post t u" for u using post_trans [OF t(1) that] .
  have edit: "wp (andThen (edit_run i cancel_tree) (\<lambda>_. andThen (checkpoint port) (\<lambda>_. andThen (require_run i) (\<lambda>cancelled.
      ret \<lparr>cr_pipeline = cancelled, cr_replayed = False\<rparr>)))) (\<lambda>_. post s) (\<lambda>_. post s) t"
    if "\<not> p_terminal (status_at RunPlace r)"
  proof (rule wp_andThenI, rule wp_edit_run [OF d r steps_service_edits(2), where P = "\<lambda>_ _. True" and P' = "\<lambda>_ _. False"])
    show "wp cancel_tree (\<lambda>x u. run_ok (ts_run u) \<and> True) (\<lambda>e u. run_ok (ts_run u) \<and> False) \<lparr>ts_env = ps_env t, ts_run = r\<rparr>"
      by (rule wp_cancel_tree [OF edit_view_ok [OF d r]]) (use that in \<open>auto simp: run_ends_status run_ok_view\<close>)
    show "wp (andThen (checkpoint port) (\<lambda>_. andThen (require_run i) (\<lambda>cancelled.
      ret \<lparr>cr_pipeline = cancelled, cr_replayed = False\<rparr>))) (\<lambda>_. post s) (\<lambda>_. post s) (edited i u t)"
      if "during t (edited i u t)" for u
      by (intro wp_andThenI wp_checkpoint_post [OF that] wp_require_run wp_retI) (rule again, assumption)+
  qed simp
  show "wp (let st = status_at RunPlace r in
      if st = PCancelled then ret \<lparr>cr_pipeline = r, cr_replayed = True\<rparr>
      else andThen (ensure (\<not> p_terminal st) (PipelineTransitionError (''cannot cancel a '' @ status_value st @ '' pipeline''))) (\<lambda>_.
        andThen (edit_run i cancel_tree) (\<lambda>_. andThen (checkpoint port) (\<lambda>_. andThen (require_run i) (\<lambda>cancelled.
        ret \<lparr>cr_pipeline = cancelled, cr_replayed = False\<rparr>))))) (\<lambda>_. post s) (\<lambda>_. post s) t"
    unfolding Let_def
    by (intro wp_ifI wp_retI wp_andThenI [of "ensure b e" for b e] wp_ensureI edit t(1))
qed auto

section \<open>Triggers\<close>

text \<open>\<open>result s t\<close>: as \<open>post\<close>, when executors may start or move on.\<close>

definition result :: "'p pipelines \<Rightarrow> 'p pipelines \<Rightarrow> bool" where
  "result s t \<longleftrightarrow> pipelines_inv t \<and> grows (mem s) (mem t) \<and> env_le (ps_env s) (ps_env t) \<and> (ps_closed s \<longrightarrow> ps_closed t) \<and>
     fst ` set (ps_tasks t) \<subseteq> fst ` set (ps_tasks s) \<union> drawn_ids (ps_env t)"

lemma post_result: "post s t \<Longrightarrow> result s t"
  by (simp add: post_def result_def)

definition inserted :: "PipelineTriggerRequest \<Rightarrow> text_t \<Rightarrow> text_t \<Rightarrow> PipelineRun \<Rightarrow> 'p pipelines \<Rightarrow> 'p pipelines" where
  "inserted request fp i run s = s\<lparr>ps_runs := AList.update i run (ps_runs s),
       ps_callback_events := AList.update i [] (ps_callback_events s),
       ps_cancel_events := AList.update i False (ps_cancel_events s),
       ps_completion_events := AList.update i False (ps_completion_events s),
       ps_trigger_keys := (case rq_idempotency_key request of None \<Rightarrow> ps_trigger_keys s
         | Some key \<Rightarrow> AList.update key (i, fp) (ps_trigger_keys s))\<rparr>"

lemma queued_run_good:
  assumes "i \<in> drawn_ids env" "map_of tasks i = None"
  shows "run_good tasks env i (queued_run request i now)"
proof -
  have "run_ok (queued_run request i now)"
    by (auto simp: run_ok_def queued_run_def list_all_iff status_at_def stage_status_def not_started_def)
  moreover have "run_stamps_ok (queued_run request i now)"
    by (auto simp: run_stamps_ok_def queued_run_def list_all_iff stamps_ok_def not_started_def p_terminal_def)
  ultimately show ?thesis using assms by (simp add: run_good_def)
qed

lemma fst_set_insert: "fst ` set (AList.update k v d) = insert k (fst ` set d)"
  by (induction d) auto

lemma core_inserted:
  assumes d: "during s0 s" and fresh: "i \<notin> fst ` set (ps_runs s)"
    and key: "\<And>k. rq_idempotency_key request = Some k \<Longrightarrow> map_of (ps_trigger_keys s) k = None"
    and run: "pl_id run = i" "run_good (ps_tasks s) (ps_env s) i run"
  shows "during s0 (inserted request fp i run s)"
proof -
  let ?t = "inserted request fp i run s"
  have m: "memory_good s" and c: "core (mem s0) s" using d by (simp_all add: during_def core_def)
  have runs: "ps_runs ?t = ps_runs s @ [(i, run)]"
    by (simp add: inserted_def update_fresh [OF fresh])
  have ev: "i \<notin> fst ` set (ps_callback_events s)" using m fresh by (simp add: memory_good_def tables_match_def)
  have events: "ps_callback_events ?t = ps_callback_events s @ [(i, [])]"
    by (simp add: inserted_def update_fresh [OF ev])
  have "storable (mem ?t)"
  proof -
    have "distinct (map fst (ps_trigger_keys ?t))"
      using m by (auto simp: inserted_def memory_good_def storable_def memory_state_def distinct_update split: option.split)
    moreover have "\<forall>(k, j, f) \<in> set (ps_trigger_keys ?t). j \<in> fst ` set (ps_runs ?t)"
      using m by (auto simp: runs memory_good_def storable_def memory_state_def) (auto simp: inserted_def split: option.splits dest!: set_update_subset)
    ultimately show ?thesis
      using m fresh ev by (auto simp: storable_def memory_state_def runs events memory_good_def run(1))
  qed
  moreover have "state_good (ps_tasks ?t) (ps_env ?t) (mem ?t)"
    using m run(2) by (auto simp: state_good_def memory_good_def memory_state_def runs map_add_def split: option.splits if_splits)
      (auto simp: inserted_def)
  moreover have "tables_match ?t"
    using m by (simp add: memory_good_def tables_match_def inserted_def fst_set_insert)
  moreover have "store_good ?t" using c by (auto simp: core_def store_good_def inserted_def)
  moreover have "grows (mem s) (mem ?t)"
  proof -
    have "map_of (dr_runs (mem s)) j = Some r \<Longrightarrow> map_of (dr_runs (mem ?t)) j = Some r" for j r
      using fresh by (auto simp: memory_state_def runs map_add_def map_of_eq_None_iff split: option.split)
    moreover have "map_of (dr_trigger_keys (mem s)) \<subseteq>\<^sub>m map_of (dr_trigger_keys (mem ?t))"
      using key by (auto simp: memory_state_def inserted_def map_le_def update_conv' split: option.split)
    moreover have "events_in (mem s) j \<subseteq>\<^sub>m events_in (mem ?t) j" for j
      by (auto simp: memory_state_def events_in_def events map_le_def map_add_def split: option.split if_splits)
    ultimately show ?thesis by (auto simp: grows_def)
  qed
  ultimately show ?thesis
    using d c grows_trans [of "mem s0" "mem s" "mem ?t"] unfolding during_def core_def memory_good_def
    by (simp add: inserted_def [of _ _ _ _ s])
qed

lemma wp_pl_new_id:
  "Q (str_of_uuid (id_at (ps_env s) (id_count (ps_env s)))) (s\<lparr>ps_env := (ps_env s)\<lparr>id_count := Suc (id_count (ps_env s))\<rparr>\<rparr>) \<Longrightarrow>
   wp pl_new_id Q E s"
  by (simp add: wp_def pl_new_id_def)

lemma wp_pl_now:
  "Q (now_at (ps_env s) (now_count (ps_env s))) (s\<lparr>ps_env := (ps_env s)\<lparr>now_count := Suc (now_count (ps_env s))\<rparr>\<rparr>) \<Longrightarrow>
   wp pl_now Q E s"
  by (simp add: wp_def pl_now_def)

lemma during_env: "during s0 s \<Longrightarrow> env_le (ps_env s) e \<Longrightarrow> during s0 (s\<lparr>ps_env := e\<rparr>)"
  by (auto simp: during_def core_def memory_good_def store_good_def memory_state_def tables_match_def
    intro: state_good_env env_le_trans)

lemma runs_drawn: "during s0 s \<Longrightarrow> fst ` set (ps_runs s) \<subseteq> drawn_ids (ps_env s)"
  using during_run(4) [of s0 s] by (metis subsetI map_of_eq_None_iff not_None_eq)

text \<open>An executor that starts, moves on or ends.\<close>

definition with_tasks :: "(text_t \<times> executor) list \<Rightarrow> 'p pipelines \<Rightarrow> 'p pipelines" where
  "with_tasks tasks s = s\<lparr>ps_tasks := tasks\<rparr>"

lemma with_tasks_simps [simp]:
  "ps_runs (with_tasks ts s) = ps_runs s" "ps_env (with_tasks ts s) = ps_env s" "ps_tasks (with_tasks ts s) = ts"
  "ps_store (with_tasks ts s) = ps_store s" "ps_durable_state (with_tasks ts s) = ps_durable_state s"
  "ps_initialized (with_tasks ts s) = ps_initialized s" "ps_closed (with_tasks ts s) = ps_closed s"
  "mem (with_tasks ts s) = mem s" "tables_match (with_tasks ts s) = tables_match s" "synced (with_tasks ts s) = synced s"
  "settled (with_tasks ts s) = settled s"
  by (simp_all add: with_tasks_def memory_state_def tables_match_def synced_def settled_def)

lemma update_tasks: "ps_tasks_update f s = with_tasks (f (ps_tasks s)) s"
  by (cases s) (simp add: with_tasks_def)

definition tasks_fit :: "(text_t \<times> executor) list \<Rightarrow> PipelinePersistenceState \<Rightarrow> bool" where
  "tasks_fit tasks d \<longleftrightarrow> (\<forall>i r pc. map_of (dr_runs d) i = Some r \<longrightarrow> map_of tasks i = Some pc \<longrightarrow> pc_ready pc r)"

lemma inv_with_tasks:
  assumes "pipelines_inv s" "tasks_fit tasks (mem s)" "port \<noteq> None \<Longrightarrow> tasks_fit tasks (stored (ps_store s))"
    and "tasks \<noteq> [] \<Longrightarrow> ps_initialized s"
  shows "pipelines_inv (with_tasks tasks s)"
proof -
  have "state_good tasks (ps_env s) (mem s)"
    using assms(1,2) by (auto simp: pipelines_inv_def whole_def core_def memory_good_def state_good_def run_good_def tasks_fit_def)
  moreover have "state_good tasks (ps_env s) (stored (ps_store s))" if "port \<noteq> None"
    using assms(1) assms(3) [OF that] that
    by (auto simp: pipelines_inv_def whole_def core_def store_good_def state_good_def run_good_def tasks_fit_def)
  ultimately show ?thesis
    using assms(1,4) unfolding pipelines_inv_def whole_def core_def memory_good_def store_good_def with_tasks_simps by blast
qed

lemma tasks_fit_current: "pipelines_inv s \<Longrightarrow> tasks_fit (ps_tasks s) (mem s)"
  "pipelines_inv s \<Longrightarrow> port \<noteq> None \<Longrightarrow> tasks_fit (ps_tasks s) (stored (ps_store s))"
  by (auto simp: pipelines_inv_def whole_def core_def memory_good_def store_good_def state_good_def run_good_def tasks_fit_def)

lemma tasks_fit_update:
  assumes "tasks_fit tasks d" "\<And>r. map_of (dr_runs d) i = Some r \<Longrightarrow> pc_ready pc r"
  shows "tasks_fit (AList.update i pc tasks) d"
  using assms by (auto simp: tasks_fit_def update_conv')

lemma tasks_fit_delete: "tasks_fit tasks d \<Longrightarrow> tasks_fit (AList.delete i tasks) d"
  by (auto simp: tasks_fit_def delete_conv')

lemma inv_start_task:
  assumes "pipelines_inv s" "\<And>r. pc_ready pc r" "ps_initialized s"
  shows "pipelines_inv (with_tasks (AList.update i pc (ps_tasks s)) s)"
  by (intro inv_with_tasks tasks_fit_update tasks_fit_current assms)

lemma result_with_tasks:
  "post s t \<Longrightarrow> pipelines_inv (with_tasks tasks t) \<Longrightarrow> fst ` set tasks \<subseteq> fst ` set (ps_tasks s) \<union> drawn_ids (ps_env t) \<Longrightarrow>
   result s (with_tasks tasks t)"
  by (simp add: post_def result_def)

lemma wp_trigger_new:
  assumes s: "pipelines_inv s" "ps_initialized s" and drawn: "fst ` set (ps_tasks s) \<subseteq> drawn_ids (ps_env s)"
    and ok: "env_ok ((ps_env s)\<lparr>id_count := Suc (id_count (ps_env s))\<rparr>)"
    and key: "\<And>k. rq_idempotency_key request = Some k \<Longrightarrow> map_of (ps_trigger_keys s) k = None"
  shows "wp (trigger_new port request fp) (\<lambda>_. result s) (\<lambda>_. result s) s"
proof -
  let ?i = "str_of_uuid (id_at (ps_env s) (id_count (ps_env s)))"
  let ?e1 = "(ps_env s)\<lparr>id_count := Suc (id_count (ps_env s))\<rparr>"
  let ?e2 = "?e1\<lparr>now_count := Suc (now_count ?e1)\<rparr>"
  let ?t = "s\<lparr>ps_env := ?e2\<rparr>"
  let ?run = "queued_run request ?i (now_at ?e1 (now_count ?e1))"
  have le: "env_le (ps_env s) ?e2" using env_le_trans [OF env_le_draw(2) env_le_draw(1)] .
  have d: "during s ?t" by (rule during_env [OF during_start [OF s]]) (use le in simp)
  have fresh: "?i \<notin> drawn_ids (ps_env s)" by (rule fresh_id [OF ok])
  then have new: "?i \<notin> fst ` set (ps_runs s)" "?i \<notin> fst ` set (ps_tasks s)"
    using drawn runs_drawn [OF during_start [OF s]] by blast+
  have "?i \<in> drawn_ids ?e2" by (auto simp: drawn_ids_def)
  then have good: "run_good (ps_tasks ?t) (ps_env ?t) ?i ?run"
    using new(2) by (intro queued_run_good) (simp_all add: map_of_eq_None_iff)
  have ins: "during s (inserted request fp ?i ?run ?t)"
    by (rule core_inserted [OF d]) (use new key good in \<open>simp_all add: queued_run_def [of _ ?i]\<close>)
  have "wp (andThen (checkpoint port) (\<lambda>_.
     andThen (if rq_auto_start request then writes (ps_tasks_update (AList.update ?i ExecBegin)) else ret ()) (\<lambda>_.
     ret \<lparr>tr_pipeline = ?run, tr_replayed = False\<rparr>))) (\<lambda>_. result s) (\<lambda>_. result s) (inserted request fp ?i ?run ?t)"
  proof (rule wp_andThenI, rule wp_checkpoint_post [OF ins])
    fix t assume t: "post s t" "ps_initialized t" "mem t = mem (inserted request fp ?i ?run ?t)"
    have "result s (with_tasks (AList.update ?i ExecBegin (ps_tasks t)) t)"
    proof (intro result_with_tasks [OF t(1)] inv_start_task post_inv [OF t(1)] t(2))
      have "ps_runs t = AList.update ?i ?run (ps_runs s)"
        using arg_cong [OF t(3), of dr_runs] by (simp add: memory_state_def inserted_def)
      then have "?i \<in> drawn_ids (ps_env t)"
        using runs_drawn [OF during_start [OF post_inv [OF t(1)] t(2)]] by (auto simp: fst_set_insert)
      then show "fst ` set (AList.update ?i ExecBegin (ps_tasks t)) \<subseteq> fst ` set (ps_tasks s) \<union> drawn_ids (ps_env t)"
        using t(1) by (auto simp: post_def fst_set_insert)
    qed simp
    then show "wp (andThen (if rq_auto_start request then writes (ps_tasks_update (AList.update ?i ExecBegin)) else ret ()) (\<lambda>_.
     ret \<lparr>tr_pipeline = ?run, tr_replayed = False\<rparr>)) (\<lambda>_. result s) (\<lambda>_. result s) t"
      using post_result [OF t(1)] by (simp add: wp_simps update_tasks)
  qed (rule post_result)
  then show ?thesis
    unfolding trigger_new_def
    by (intro wp_andThenI [of pl_new_id] wp_pl_new_id wp_andThenI [of pl_now] wp_pl_now)
      (simp add: Let_def wp_simps inserted_def)
qed

lemma wp_trigger:
  assumes s: "pipelines_inv s" and drawn: "fst ` set (ps_tasks s) \<subseteq> drawn_ids (ps_env s)"
  shows "wp (trigger port digest request) (\<lambda>_ t. env_ok (ps_env t) \<longrightarrow> result s t) (\<lambda>_ t. env_ok (ps_env t) \<longrightarrow> result s t) s"
proof -
  have new: "wp (trigger_new port request fp) (\<lambda>_ u. env_ok (ps_env u) \<longrightarrow> result s u) (\<lambda>_ u. env_ok (ps_env u) \<longrightarrow> result s u) t"
    if t: "post s t" "ps_initialized t"
      and key: "(case rq_idempotency_key request of None \<Rightarrow> None | Some key \<Rightarrow> map_of (ps_trigger_keys t) key) = None" for t fp
  proof (cases "env_ok ((ps_env t)\<lparr>id_count := Suc (id_count (ps_env t))\<rparr>)")
    case True
    have "fst ` set (ps_tasks t) \<subseteq> drawn_ids (ps_env t)"
      using drawn t(1) drawn_mono by (auto simp: post_def)
    then have "wp (trigger_new port request fp) (\<lambda>_. result t) (\<lambda>_. result t) t"
      using key by (intro wp_trigger_new t(2) post_inv [OF t(1)] True) auto
    then show ?thesis
      using t(1) by (elim wp_mono) (auto simp: result_def post_def intro: grows_trans env_le_trans)
  next
    case False
    define k where "k = (\<lambda>run_id. andThen pl_now (\<lambda>now. let run = queued_run request run_id now in
       andThen (writes (\<lambda>s. inserted request fp run_id run s)) (\<lambda>_.
       andThen (checkpoint port) (\<lambda>_.
       andThen (if rq_auto_start request then writes (ps_tasks_update (AList.update run_id ExecBegin)) else ret ()) (\<lambda>_.
       ret \<lparr>tr_pipeline = run, tr_replayed = False\<rparr>)))))"
    have "penv.steps pl_now" by (simp add: penv.steps_def pl_now_def)
    then have k: "penv.steps (k i)" for i
      unfolding k_def by (intro steps_intros penv_writes) (simp_all add: inserted_def)
    have tail: "wp (k i) (\<lambda>_ u. env_le (ps_env v) (ps_env u)) (\<lambda>_ u. env_le (ps_env v) (ps_env u)) v" for i v
      by (rule wp_mono [OF penv.steps_wp [OF k]]) (simp_all add: env_later_le)
    have "wp (trigger_new port request fp) (\<lambda>_ u. env_le ((ps_env t)\<lparr>id_count := Suc (id_count (ps_env t))\<rparr>) (ps_env u))
        (\<lambda>_ u. env_le ((ps_env t)\<lparr>id_count := Suc (id_count (ps_env t))\<rparr>) (ps_env u)) t"
      unfolding trigger_new_def k_def [symmetric, unfolded inserted_def]
      by (intro wp_andThenI wp_pl_new_id)
        (use tail [of _ "t\<lparr>ps_env := (ps_env t)\<lparr>id_count := Suc (id_count (ps_env t))\<rparr>\<rparr>"] in simp)
    then show ?thesis
      by (rule wp_mono) (use False env_ok_mono in blast)+
  qed
  show ?thesis
    unfolding trigger_def Let_def
    by (intro wp_andThenI [of "initialize_locked port"] wp_initialize [OF s] wp_andThenI [of ensure_open] wp_ensure_open
        wp_andThenI [of "reads f" for f] wp_readsI wp_caseI wp_andThenI [of "ensure b e" for b e] wp_ensureI
        wp_andThenI [of "from_option e x" for e x] wp_from_optionI wp_retI new)
      (auto intro: post_result)
qed

section \<open>Callbacks\<close>

lemma update_events: "ps_callback_events_update (AList.update i x) s = s\<lparr>ps_callback_events := AList.update i x (ps_callback_events s)\<rparr>"
  by (cases s) simp

definition recorded :: "text_t \<Rightarrow> text_t \<Rightarrow> text_t \<Rightarrow> (text_t \<times> text_t) list \<Rightarrow> 'p pipelines \<Rightarrow> 'p pipelines" where
  "recorded i e fp es s = s\<lparr>ps_callback_events := AList.update i (AList.update e fp es) (ps_callback_events s)\<rparr>"

lemma events_recorded:
  "map_of (ps_callback_events s) i = Some es \<Longrightarrow>
   events_in (mem (recorded i e fp es s)) = (events_in (mem s))(i := (events_in (mem s) i)(e \<mapsto> fp))"
  by (auto simp: recorded_def events_in_def memory_state_def update_conv' fun_eq_iff)

lemma during_recorded:
  assumes d: "during s0 s" and es: "map_of (ps_callback_events s) i = Some es" "map_of es e = None"
  shows "during s0 (recorded i e fp es s)"
proof -
  let ?t = "recorded i e fp es s"
  have m: "memory_good s" and c: "core (mem s0) s" using d by (simp_all add: during_def core_def)
  have keys: "fst ` set (ps_callback_events ?t) = fst ` set (ps_callback_events s)"
    using fst_update_present [OF es(1)] by (simp add: recorded_def)
  have fields: "ps_runs ?t = ps_runs s" "ps_trigger_keys ?t = ps_trigger_keys s" "ps_env ?t = ps_env s" "ps_tasks ?t = ps_tasks s"
    "ps_store ?t = ps_store s" "ps_durable_state ?t = ps_durable_state s" "ps_initialized ?t = ps_initialized s"
    "ps_closed ?t = ps_closed s" "ps_cancel_events ?t = ps_cancel_events s" "ps_completion_events ?t = ps_completion_events s"
    by (simp_all add: recorded_def)
  have "distinct (map fst es)" "i \<in> fst ` set (ps_runs s)"
    using m map_of_SomeD [OF es(1)] by (auto simp: memory_good_def storable_def memory_state_def)
  then have "\<forall>(k, x) \<in> set (ps_callback_events ?t). k \<in> fst ` set (ps_runs s) \<and> distinct (map fst x)"
    using m by (auto simp: recorded_def memory_good_def storable_def memory_state_def distinct_update dest!: set_update_subset)
  moreover have "distinct (map fst (ps_callback_events ?t))"
    using m by (simp add: recorded_def memory_good_def storable_def memory_state_def distinct_update)
  ultimately have "storable (mem ?t)" using m by (simp add: memory_good_def storable_def memory_state_def fields)
  moreover have "state_good (ps_tasks ?t) (ps_env ?t) (mem ?t)"
    using m by (simp add: memory_good_def state_good_def memory_state_def fields)
  moreover have "tables_match ?t" using m keys by (simp add: memory_good_def tables_match_def fields)
  moreover have "store_good ?t" using c by (simp add: core_def store_good_def fields)
  moreover have "grows (mem s) (mem ?t)"
  proof -
    have "events_in (mem s) k \<subseteq>\<^sub>m events_in (mem ?t) k" for k
      unfolding events_recorded [OF es(1)] using es by (auto simp: map_le_def events_in_def memory_state_def)
    then show ?thesis using run_evolves_refl by (fastforce simp: grows_def memory_state_def fields)
  qed
  ultimately show ?thesis
    using d c by (auto simp: during_def core_def memory_good_def fields intro: grows_trans)
qed

lemma wp_callback:
  assumes s: "pipelines_inv s" "ps_initialized s" and fp: "fp = digest (json_dumps (callback_value c))"
  shows "wp (apply_callback port digest i c)
    (\<lambda>k t. post s t \<and> (case events_in (mem s) i (cb_event_id c) of
        Some fp' \<Rightarrow> fp' = fp \<and> t = s \<and> kr_duplicate k \<and> map_of (ps_runs s) i = Some (kr_pipeline k)
      | None \<Rightarrow> \<not> kr_duplicate k \<and> callback_applied i (cb_event_id c) fp (kr_pipeline k) (mem s) (mem t)))
    (\<lambda>_ t. post s t \<and> (\<not> ps_closed s \<longrightarrow> same_state (mem t) (mem s))) s" (is "wp _ ?Q ?E s")
  unfolding apply_callback_def Let_def fp [symmetric]
proof (rule wp_andThenI, rule wp_initialize [OF s(1)], rule wp_andThenI, rule wp_ensure_open, rule wp_andThenI, rule wp_require_run)
  fix t r assume "ps_initialized s \<longrightarrow> t = s" and op: "\<not> ps_closed t" and r: "map_of (ps_runs t) i = Some r"
  with s(2) have t: "t = s" by simp
  have d: "during s s" by (rule during_start [OF s])
  have same: "?E e s" for e using post_refl [OF s(1)] by simp
  have rs: "map_of (ps_runs s) i = Some r" using r by (simp add: t)
  have settled: "settled s" using s op by (simp add: pipelines_inv_def t)
  have applied: "wp (andThen (edit_run i (callback_tree c)) (\<lambda>_.
        andThen (writes (ps_callback_events_update (AList.update i (AList.update (cb_event_id c) fp es)))) (\<lambda>_.
        andThen (checkpoint port) (\<lambda>_. andThen (require_run i) (\<lambda>changed.
        ret \<lparr>kr_pipeline = changed, kr_duplicate = False\<rparr>))))) ?Q ?E s"
    if es: "map_of (ps_callback_events s) i = Some es" and none: "map_of es (cb_event_id c) = None" for es
  proof (rule wp_andThenI, rule wp_edit_run [OF d rs steps_callback, where P = "\<lambda>_ _. True" and P' = "\<lambda>_ u. u = \<lparr>ts_env = ps_env s, ts_run = r\<rparr>"])
    show "wp (callback_tree c) (\<lambda>x u. run_ok (ts_run u) \<and> True)
        (\<lambda>e u. run_ok (ts_run u) \<and> u = \<lparr>ts_env = ps_env s, ts_run = r\<rparr>) \<lparr>ts_env = ps_env s, ts_run = r\<rparr>"
      by (rule wp_callback_tree [OF edit_view_ok [OF d rs]]) (use during_run(1) [OF d rs] in \<open>auto simp: run_ok_view\<close>)
    fix u assume u: "during s (edited i u s)"
    have es': "map_of (ps_callback_events (edited i u s)) i = Some es" using es by (simp add: edited_def)
    let ?v = "recorded i (cb_event_id c) fp es (edited i u s)"
    have "wp (andThen (checkpoint port) (\<lambda>_. andThen (require_run i) (\<lambda>changed.
        ret \<lparr>kr_pipeline = changed, kr_duplicate = False\<rparr>))) ?Q ?E ?v"
    proof (rule wp_andThenI, rule wp_checkpoint_post [OF during_recorded [OF u es' none]])
      fix w assume w: "post s w" "ps_initialized w" "settled w" "mem w = mem ?v"
      have runs: "ps_runs w = AList.update i (ts_run u) (ps_runs s)"
        using arg_cong [OF w(4), of dr_runs] by (simp add: memory_state_def recorded_def edited_def)
      have "events_in (mem s) i (cb_event_id c) = None" using es none by (simp add: events_in_def memory_state_def)
      moreover have "callback_applied i (cb_event_id c) fp (ts_run u) (mem s) (mem w)"
        using events_recorded [OF es', of "cb_event_id c" fp] runs
        by (simp add: callback_applied_def w(4)) (simp add: recorded_def edited_def memory_state_def update_conv' events_in_def fun_eq_iff)
      ultimately show "wp (andThen (require_run i) (\<lambda>changed. ret \<lparr>kr_pipeline = changed, kr_duplicate = False\<rparr>)) ?Q ?E w"
        using w(1) by (intro wp_andThenI wp_require_run wp_retI) (auto simp: runs update_conv')
    next
      fix e w assume w: "post s w" "port \<noteq> None" "same_state (mem w) (stored (ps_store ?v))"
      have "same_state (mem s) (stored (ps_store s))" using settled w(2) by (simp add: settled_def)
      moreover have "ps_store ?v = ps_store s" by (simp add: recorded_def edited_def)
      ultimately show "?E e w" using w by (metis same_state_sym same_state_trans)
    qed
    then show "wp (andThen (writes (ps_callback_events_update (AList.update i (AList.update (cb_event_id c) fp es)))) (\<lambda>_.
        andThen (checkpoint port) (\<lambda>_. andThen (require_run i) (\<lambda>changed.
        ret \<lparr>kr_pipeline = changed, kr_duplicate = False\<rparr>)))) ?Q ?E (edited i u s)"
      by (intro wp_andThenI [of "writes f" for f] wp_writesI) (simp add: recorded_def update_events)
  next
    fix e u assume "u = \<lparr>ts_env = ps_env s, ts_run = r\<rparr>"
    then have "edited i u s = s" by (simp add: edited_def update_same [OF rs])
    then show "?E e (edited i u s)" using same by simp
  qed
  show "wp (andThen (reads (events_of i)) (\<lambda>found.
      andThen (from_option (PipelineKeyError i) found) (\<lambda>delivered.
      case map_of delivered (cb_event_id c) of
        Some previous \<Rightarrow>
          andThen (ensure (previous = fp)
            (PipelineIdempotencyConflictError ''callback event_id was reused with different content'')) (\<lambda>_.
          ret \<lparr>kr_pipeline = r, kr_duplicate = True\<rparr>)
      | None \<Rightarrow>
          andThen (edit_run i (callback_tree c)) (\<lambda>_.
          andThen (writes (ps_callback_events_update (AList.update i (AList.update (cb_event_id c) fp delivered)))) (\<lambda>_.
          andThen (checkpoint port) (\<lambda>_.
          andThen (require_run i) (\<lambda>changed.
          ret \<lparr>kr_pipeline = changed, kr_duplicate = False\<rparr>))))))) ?Q ?E t"
    unfolding t
    by (intro wp_andThenI [of "reads f" for f] wp_readsI wp_andThenI [of "from_option e x" for e x] wp_from_optionI wp_caseI applied same
        wp_andThenI [of "ensure b e" for b e] wp_ensureI wp_retI)
      (use post_refl [OF s(1)] rs in \<open>auto simp: events_of_def events_in_def memory_state_def\<close>)
qed (use s post_refl in auto)

section \<open>Shutdown and reset\<close>

text \<open>A call that also closes the service and ends the executors.\<close>

definition closing :: "'p pipelines \<Rightarrow> 'p pipelines" where
  "closing s = s\<lparr>ps_closed := True\<rparr>"

lemma closing_simps [simp]:
  "ps_runs (closing s) = ps_runs s" "ps_env (closing s) = ps_env s" "ps_tasks (closing s) = ps_tasks s"
  "ps_store (closing s) = ps_store s" "ps_durable_state (closing s) = ps_durable_state s"
  "ps_initialized (closing s) = ps_initialized s" "ps_closed (closing s)" "mem (closing s) = mem s"
  "tables_match (closing s) = tables_match s" "synced (closing s) = synced s"
  by (simp_all add: closing_def memory_state_def tables_match_def synced_def)

lemma whole_closing: "whole s \<Longrightarrow> whole (closing s)"
  unfolding whole_def core_def memory_good_def store_good_def closing_simps by blast

lemma inv_closing: "pipelines_inv s \<Longrightarrow> pipelines_inv (closing s)"
  by (simp add: pipelines_inv_def whole_closing)

lemma wp_shut_each:
  assumes "during s0 s" "i \<in> fst ` set (ps_runs s)"
  shows "wp (edit_run i shut_run) (\<lambda>_ t. during s0 t \<and> fst ` set (ps_runs t) = fst ` set (ps_runs s)) E s"
proof -
  obtain r where r: "map_of (ps_runs s) i = Some r" using assms(2) by (metis map_of_eq_None_iff not_None_eq)
  have "wp shut_run (\<lambda>x u. run_ok (ts_run u) \<and> True) (\<lambda>e u. run_ok (ts_run u) \<and> False) \<lparr>ts_env = ps_env s, ts_run = r\<rparr>"
    by (rule wp_shut_run [OF edit_view_ok [OF assms(1) r]]) (simp add: run_ok_view)
  then show ?thesis
    by (rule wp_edit_run [OF assms(1) r steps_service_edits(3)]) (auto simp: edited_def fst_update_present [OF r])
qed

lemma inv_no_tasks: "pipelines_inv s \<Longrightarrow> pipelines_inv (with_tasks [] s)"
  by (rule inv_with_tasks) (simp_all add: tasks_fit_def)

lemma wp_shutdown:
  assumes s: "pipelines_inv s"
  shows "wp (shutdown port) (\<lambda>_. result s) (\<lambda>_. result s) s"
  unfolding shutdown_def
proof (rule wp_andThenI, rule wp_initialize [OF s])
  fix t assume t: "post s t" "ps_initialized t"
  let ?c = "closing t"
  have inv: "pipelines_inv ?c" by (rule inv_closing [OF post_inv [OF t(1)]])
  have c: "during ?c ?c" by (rule during_start [OF inv]) (simp add: t)
  have res: "result s u" if "post ?c u" for u
    using that t(1) by (auto simp: post_def result_def intro: grows_trans env_le_trans)
  have each: "wp (for_each (\<lambda>run_id. edit_run run_id shut_run) (map fst (ps_runs t)))
      (\<lambda>_ u. during ?c u \<and> fst ` set (ps_runs u) = fst ` set (ps_runs t)) (\<lambda>_. result s) ?c"
  proof (rule wp_for_each)
    fix i u assume "i \<in> set (map fst (ps_runs t))" "during ?c u \<and> fst ` set (ps_runs u) = fst ` set (ps_runs t)"
    then show "wp (edit_run i shut_run) (\<lambda>_ v. during ?c v \<and> fst ` set (ps_runs v) = fst ` set (ps_runs t)) (\<lambda>_. result s) u"
      using wp_shut_each [of ?c u i] by auto
  qed (use c in simp)
  have rest: "wp (andThen (checkpoint port) (\<lambda>_. writes (ps_tasks_update (\<lambda>_. [])))) (\<lambda>_. result s) (\<lambda>_. result s) u"
    if "during ?c u" for u
  proof (rule wp_andThenI, rule wp_checkpoint_post [OF that])
    fix v assume "post ?c v"
    then have "result s (with_tasks [] v)"
      using res [of v] inv_no_tasks [of v] by (auto simp: result_def)
    then show "wp (writes (ps_tasks_update (\<lambda>_. []))) (\<lambda>_. result s) (\<lambda>_. result s) v"
      by (simp add: wp_writes with_tasks_def)
  qed (rule res)
  have "wp (for_each (\<lambda>run_id. edit_run run_id shut_run) (map fst (ps_runs t))) (\<lambda>_.
      wp (andThen (checkpoint port) (\<lambda>_. writes (ps_tasks_update (\<lambda>_. [])))) (\<lambda>_. result s) (\<lambda>_. result s)) (\<lambda>_. result s) ?c"
    by (rule wp_mono [OF each]) (simp_all add: rest)
  then show "wp (andThen (writes (ps_closed_update (\<lambda>_. True))) (\<lambda>_.
     andThen (reads (\<lambda>s. map fst (ps_runs s))) (\<lambda>ids.
     andThen (for_each (\<lambda>run_id. edit_run run_id shut_run) ids) (\<lambda>_.
     andThen (checkpoint port) (\<lambda>_. writes (ps_tasks_update (\<lambda>_. [])))))))  (\<lambda>_. result s) (\<lambda>_. result s) t"
    by (simp add: wp_andThen wp_writes wp_reads closing_def)
qed (rule post_result)

lemma wp_reset_close:
  assumes s: "pipelines_inv s"
  shows "wp (reset_close port) (\<lambda>_. result s) (\<lambda>_. result s) s"
  unfolding reset_close_def
proof (rule wp_andThenI, rule wp_initialize [OF s], rule wp_writesI)
  fix t assume t: "post s t"
  let ?u = "t\<lparr>ps_closed := True, ps_cancel_events := map (\<lambda>(k, _). (k, True)) (ps_cancel_events t),
       ps_completion_events := map (\<lambda>(k, _). (k, True)) (ps_completion_events t), ps_tasks := []\<rparr>"
  have inv: "pipelines_inv (with_tasks [] (closing t))" by (intro inv_no_tasks inv_closing post_inv [OF t])
  have fields: "ps_runs ?u = ps_runs t" "ps_env ?u = ps_env t" "ps_tasks ?u = []" "ps_store ?u = ps_store t"
    "ps_durable_state ?u = ps_durable_state t" "ps_initialized ?u = ps_initialized t" "ps_closed ?u" "mem ?u = mem t"
    by (simp_all add: memory_state_def)
  have "tables_match ?u = tables_match t" by (simp add: tables_match_def image_image case_prod_beta)
  then have "pipelines_inv ?u"
    using inv unfolding pipelines_inv_def whole_def core_def memory_good_def store_good_def fields with_tasks_simps closing_simps
    by simp
  then show "result s ?u" using t by (simp add: result_def post_def memory_state_def)
qed (rule post_result)

lemma wp_clear:
  assumes "port = Some p" "good (ps_store s)"
    and "\<And>q. good q \<Longrightarrow> same_state no_runs (stored q) \<Longrightarrow> Q () (s\<lparr>ps_store := q\<rparr>)"
    and "\<And>e q. good q \<Longrightarrow> stored q = stored (ps_store s) \<Longrightarrow> E e (s\<lparr>ps_store := q\<rparr>)"
  shows "wp (on_store (pp_clear p)) Q E s"
  using wp_both [OF pipeline_store.clear_law [OF store [OF assms(1)] assms(2)] clear_fails [OF assms(1,2)]] assms(3,4)
  by (auto simp: wp_def on_store_def split: prod.splits sum.splits)

definition emptied :: "'p pipelines \<Rightarrow> 'p pipelines" where
  "emptied s = s\<lparr>ps_runs := [], ps_trigger_keys := [], ps_callback_events := [], ps_cancel_events := [],
     ps_completion_events := [], ps_tasks := []\<rparr>"

lemma emptied_simps [simp]:
  "ps_env (emptied s) = ps_env s" "ps_tasks (emptied s) = []" "ps_store (emptied s) = ps_store s" "ps_runs (emptied s) = []"
  "ps_durable_state (emptied s) = ps_durable_state s" "ps_initialized (emptied s) = ps_initialized s"
  "ps_closed (emptied s) = ps_closed s" "mem (emptied s) = no_runs" "tables_match (emptied s)" "synced (emptied s)"
  by (simp_all add: emptied_def memory_state_def no_runs_def tables_match_def synced_def)

lemma no_runs_good [simp]: "storable no_runs" "state_good tasks env no_runs" "grows no_runs d"
  by (auto simp: storable_def no_runs_def state_good_def intro: grows_empty)

lemma state_good_no_tasks: "state_good tasks env d \<Longrightarrow> state_good [] env d"
  by (simp add: state_good_def run_good_def)

lemma whole_emptied: "whole s \<Longrightarrow> whole (emptied s)"
  unfolding whole_def core_def memory_good_def store_good_def emptied_simps
  using state_good_no_tasks by auto

lemma wp_reset_clear_stored:
  assumes p: "port = Some p" "good (ps_store s)"
    and "\<And>q. good q \<Longrightarrow> same_state no_runs (stored q) \<Longrightarrow>
      Q () ((emptied s)\<lparr>ps_store := q, ps_durable_state := Some no_runs, ps_closed := False\<rparr>)"
    and "\<And>e q. good q \<Longrightarrow> stored q = stored (ps_store s) \<Longrightarrow> E e ((emptied s)\<lparr>ps_store := q\<rparr>)"
  shows "wp (reset_clear port) Q E s"
  unfolding reset_clear_def p(1) option.case
  by (intro wp_andThenI [of "writes f" for f] wp_writesI wp_andThenI, fold emptied_def, rule wp_clear [OF p(1)])
    (use assms in \<open>simp_all add: wp_simps\<close>)

text \<open>A reset that fails leaves the service closed; the runs are gone from memory.\<close>

lemma wp_reset_clear:
  assumes s: "pipelines_inv s" "ps_closed s"
  shows "wp (reset_clear port) (\<lambda>_ t. pipelines_inv t \<and> ps_tasks t = [] \<and> mem t = no_runs \<and> \<not> ps_closed t)
    (\<lambda>_ t. pipelines_inv t \<and> ps_tasks t = [] \<and> ps_closed t) s"
proof -
  have whole: "whole (emptied s)" using s by (simp add: pipelines_inv_def whole_emptied)
  show ?thesis
  proof (cases port)
    case None
    let ?t = "(emptied s)\<lparr>ps_closed := False\<rparr>"
    have fields: "mem ?t = no_runs" "tables_match ?t" "synced ?t" "ps_tasks ?t = []" "ps_store ?t = ps_store (emptied s)"
      "ps_durable_state ?t = ps_durable_state (emptied s)" "ps_env ?t = ps_env s" "ps_initialized ?t = ps_initialized (emptied s)"
      by (simp_all add: memory_state_def emptied_def no_runs_def tables_match_def synced_def)
    have "pipelines_inv ?t"
      using whole None fields(2,3) unfolding pipelines_inv_def whole_def core_def memory_good_def store_good_def settled_def fields
      by simp
    moreover have "mem ((emptied s)\<lparr>ps_closed := False\<rparr>) = no_runs" by (simp add: memory_state_def emptied_def no_runs_def)
    ultimately show ?thesis
      unfolding reset_clear_def None option.case
      by (simp add: wp_simps flip: emptied_def)
  next
    case (Some p)
    then have has: "port \<noteq> None" by simp
    have good: "good (ps_store s)" using whole has by (simp add: whole_def core_def store_good_def)
    have ok: "pipelines_inv ((emptied s)\<lparr>ps_store := q, ps_durable_state := Some no_runs, ps_closed := False\<rparr>) \<and>
        mem ((emptied s)\<lparr>ps_store := q, ps_durable_state := Some no_runs, ps_closed := False\<rparr>) = no_runs"
      if q: "good q" "same_state no_runs (stored q)" for q
    proof -
      let ?t = "(emptied s)\<lparr>ps_store := q, ps_durable_state := Some no_runs, ps_closed := False\<rparr>"
      have fields: "mem ?t = no_runs" "tables_match ?t" "synced ?t" "ps_tasks ?t = []" "ps_store ?t = q"
        "ps_durable_state ?t = Some no_runs" "ps_env ?t = ps_env s"
        by (simp_all add: memory_state_def emptied_def no_runs_def tables_match_def synced_def)
      have "state_good [] (ps_env s) (stored q)"
        using state_good_same [OF same_state_sym [OF q(2)]] by simp
      then have "pipelines_inv ?t"
        using q has fields(2,3) unfolding pipelines_inv_def whole_def core_def memory_good_def store_good_def settled_def fields
        by auto
      then show ?thesis using fields by simp
    qed
    have bad: "pipelines_inv ((emptied s)\<lparr>ps_store := q\<rparr>)" if q: "good q" "stored q = stored (ps_store s)" for q
    proof -
      let ?t = "(emptied s)\<lparr>ps_store := q\<rparr>"
      have fields: "mem ?t = no_runs" "tables_match ?t" "ps_tasks ?t = []" "ps_store ?t = q" "ps_closed ?t"
        "ps_durable_state ?t = ps_durable_state (emptied s)" "ps_env ?t = ps_env s" "ps_initialized ?t = ps_initialized (emptied s)"
        using s by (simp_all add: memory_state_def emptied_def no_runs_def tables_match_def synced_def)
      show ?thesis
        using whole q has s(2) fields(2) unfolding pipelines_inv_def whole_def core_def memory_good_def store_good_def fields by auto
    qed
    show ?thesis
      by (rule wp_reset_clear_stored [OF Some good]) (use ok bad s(2) in simp_all)
  qed
qed

section \<open>The executor\<close>

text \<open>Where an executor goes next, it finds what it relies on, in memory and in the store.\<close>

definition next_ready :: "text_t \<Rightarrow> executor option \<Rightarrow> 'p pipelines \<Rightarrow> bool" where
  "next_ready i next s \<longleftrightarrow> (\<forall>pc. next = Some pc \<longrightarrow> tasks_fit [(i, pc)] (mem s) \<and>
     (port \<noteq> None \<longrightarrow> tasks_fit [(i, pc)] (stored (ps_store s))))"

lemma next_ready_None [simp]: "next_ready i None s"
  by (simp add: next_ready_def)

lemma next_ready_settled:
  assumes "settled s" "map_of (ps_runs s) i = Some r" "pc_ready pc r"
  shows "next_ready i (Some pc) s"
proof -
  have m: "tasks_fit [(i, pc)] (mem s)" using assms(2,3) by (simp add: tasks_fit_def memory_state_def)
  then have "tasks_fit [(i, pc)] (stored (ps_store s))" if "port \<noteq> None"
    using assms(1) that by (simp add: settled_def same_state_def tasks_fit_def)
  with m show ?thesis by (simp add: next_ready_def)
qed

text \<open>A next place that relies on no more than the last one.\<close>

lemma next_ready_same:
  assumes inv: "pipelines_inv s" and task: "map_of (ps_tasks s) i = Some pc" and "\<And>r. pc_ready pc r \<Longrightarrow> pc_ready pc' r"
  shows "next_ready i (Some pc') s"
  using tasks_fit_current [OF inv] task assms(3) by (auto simp: next_ready_def tasks_fit_def)

definition section_done :: "'p pipelines \<Rightarrow> text_t \<Rightarrow> executor option \<Rightarrow> 'p pipelines \<Rightarrow> bool" where
  "section_done s i next t \<longleftrightarrow> post s t \<and> next_ready i next t"

text \<open>An edit and a checkpoint inside a section.\<close>

lemma wp_section_edit:
  assumes s: "during s s" and r: "map_of (ps_runs s) i = Some r" and steps: "evo.steps m"
    and prog: "\<And>x. view_ok (tview x) \<Longrightarrow> ts_run x = r \<Longrightarrow>
      wp m (\<lambda>_ u. view_ok (tview u) \<and> P u) (\<lambda>_ _. False) x"
    and ready: "\<And>u pc. next = Some pc \<Longrightarrow> P u \<Longrightarrow> run_evolves r (ts_run u) \<Longrightarrow> pc_ready pc (ts_run u)"
  shows "wp (andThen (edit_run i m) (\<lambda>_. andThen (checkpoint port) (\<lambda>_. ret next))) (section_done s i) (\<lambda>_. post s) s"
proof (rule wp_andThenI, rule wp_edit_run [OF s r steps, where P = "\<lambda>_. P" and P' = "\<lambda>_ _. False"])
  show "wp m (\<lambda>x u. run_ok (ts_run u) \<and> P u) (\<lambda>e u. run_ok (ts_run u) \<and> False) \<lparr>ts_env = ps_env s, ts_run = r\<rparr>"
    by (rule wp_mono [OF prog]) (use edit_view_ok [OF s r] in \<open>auto simp: run_ok_view\<close>)
  fix u assume u: "during s (edited i u s)" "run_evolves r (ts_run u)" "P u"
  show "wp (andThen (checkpoint port) (\<lambda>_. ret next)) (section_done s i) (\<lambda>_. post s) (edited i u s)"
  proof (rule wp_andThenI, rule wp_checkpoint_post [OF u(1)], rule wp_retI)
    fix t assume t: "post s t" "ps_initialized t" "settled t" "mem t = mem (edited i u s)"
    have "map_of (ps_runs t) i = Some (ts_run u)"
      using arg_cong [OF t(4), of dr_runs] by (simp add: memory_state_def edited_def update_conv')
    then have "next_ready i next t"
      using ready [OF _ u(3,2)] t(3) by (cases "next") (auto intro: next_ready_settled)
    then show "section_done s i next t" using t(1) by (simp add: section_done_def)
  qed
qed simp

lemma wp_while_running:
  assumes "pipelines_inv s"
    and "\<And>r. map_of (ps_runs s) i = Some r \<Longrightarrow> status_at RunPlace r = PRunning \<Longrightarrow>
      wp (k r) (section_done s i) (\<lambda>_. post s) s"
  shows "wp (while_running i k) (section_done s i) (\<lambda>_. post s) s"
  unfolding while_running_def
  using assms post_refl [OF assms(1)]
  by (intro wp_andThenI wp_require_run wp_ifI wp_retI) (auto simp: section_done_def)

end

section \<open>Edits of the executor\<close>

lemma stage_view: "i < length (pl_stages r) \<Longrightarrow> view r (StagePlace i) = Some (status_at (StagePlace i) r)"
  by (simp add: view_def)

lemma job_view:
  "i < length (pl_stages r) \<Longrightarrow> j < length (stage_jobs r i) \<Longrightarrow> view r (JobPlace i j) = Some (status_at (JobPlace i j) r)"
  by (simp add: view_def)

lemma alike_places: "alike (view r) (view t) \<longleftrightarrow> places r = places t"
  by (simp add: alike_def dom_view)

text \<open>The statuses an executor may find in a running run.\<close>

lemma running_stage:
  "view_ok (view r) \<Longrightarrow> status_at RunPlace r = PRunning \<Longrightarrow> i < length (pl_stages r) \<Longrightarrow>
   status_at (StagePlace i) r \<in> {PQueued, PRunning, PSucceeded}"
  using view_ok_stage [of "view r" i "status_at (StagePlace i) r" PRunning] by (simp add: stage_view view_run)

lemma running_job:
  "view_ok (view r) \<Longrightarrow> status_at (StagePlace i) r = d \<Longrightarrow> i < length (pl_stages r) \<Longrightarrow> j < length (stage_jobs r i) \<Longrightarrow>
   child_ok d (status_at (JobPlace i j) r)"
  using view_ok_job [of "view r" i j "status_at (JobPlace i j) r" d] by (simp add: stage_view job_view)

lemma wp_start_stage_section:
  assumes "view_ok (tview s)" "tstatus RunPlace s = PRunning" "i < length (pl_stages (ts_run s))"
    and "tstatus (StagePlace i) s \<noteq> PSucceeded"
  shows "wp (start (StagePlace i)) (\<lambda>_ u. view_ok (tview u) \<and> tview u = (tview s)(StagePlace i \<mapsto> PRunning)) (\<lambda>_ _. False) s"
  by (rule wp_start_stage [where d = "tstatus (StagePlace i) s"])
    (use assms running_stage [OF assms(1-3)] in \<open>auto simp: view_run stage_view p_terminal_def\<close>)

lemma wp_start_job_section:
  assumes "view_ok (tview s)" "tstatus (StagePlace i) s = PRunning" "i < length (pl_stages (ts_run s))"
    and "j < length (stage_jobs (ts_run s) i)" "tstatus (JobPlace i j) s \<noteq> PSucceeded"
  shows "wp (start (JobPlace i j)) (\<lambda>_ u. view_ok (tview u) \<and> tview u = (tview s)(JobPlace i j \<mapsto> PRunning)) (\<lambda>_ _. False) s"
proof (rule wp_start [where c = "tstatus (JobPlace i j) s"])
  show "tstatus (JobPlace i j) s \<in> {PQueued, PRunning}" using running_job [OF assms(1-4)] assms(5) by auto
  show "view_ok (tview u) \<and> tview u = (tview s)(JobPlace i j \<mapsto> PRunning)" if "tview u = (tview s)(JobPlace i j \<mapsto> PRunning)" for u
    using that assms by (auto simp: stage_view intro!: view_ok_job_step)
qed (use assms job_view in simp)

lemma wp_aggregate_section:
  assumes "view_ok (tview s)" "tstatus RunPlace s = PRunning" "\<And>i. stage = Some i \<Longrightarrow> i < length (pl_stages (ts_run s))"
  shows "wp (aggregate_success stage) (\<lambda>_ u. view_ok (tview u)) (\<lambda>_ _. False) s"
  by (rule wp_aggregate_success) (use assms in \<open>auto simp: view_run stage_view\<close>)

lemma wp_finish_job_section:
  assumes "view_ok (tview s)" "tstatus RunPlace s = PRunning" "tstatus (StagePlace i) s = PRunning"
    and "i < length (pl_stages (ts_run s))" "j < length (stage_jobs (ts_run s) i)"
  shows "wp (andThen (finish (JobPlace i j) PSucceeded None) (\<lambda>_. aggregate_success (Some i))) (\<lambda>_ u. view_ok (tview u)) (\<lambda>_ _. False) s"
proof (rule wp_andThenI, rule wp_finish [where c = "tstatus (JobPlace i j) s"])
  show "may_finish (tstatus (JobPlace i j) s) PSucceeded"
    using running_job [OF assms(1,3-5)] by (auto simp: may_finish_def p_terminal_def)
  fix u assume u: "tview u = (tview s)(JobPlace i j \<mapsto> PSucceeded)"
  have stage: "tview s (StagePlace i) = Some PRunning" using assms by (simp add: stage_view)
  show "wp (aggregate_success (Some i)) (\<lambda>_ u. view_ok (tview u)) (\<lambda>_ _. False) u"
    by (rule wp_aggregate_success) (use assms stage in \<open>auto simp: u view_run intro!: view_ok_job_step\<close>)
qed (use assms job_view in simp)

lemma wp_fail_job_section:
  assumes "view_ok (tview s)" "tstatus RunPlace s = PRunning" "tstatus (StagePlace i) s = PRunning"
    and "i < length (pl_stages (ts_run s))" "j < length (stage_jobs (ts_run s) i)" "tstatus (JobPlace i j) s \<noteq> PSucceeded"
  shows "wp (fail_job i j m) (\<lambda>_ u. view_ok (tview u)) (\<lambda>_ _. False) s"
proof (rule wp_fail_job [where b = "tstatus (JobPlace i j) s" and c = PRunning])
  show "may_finish (tstatus (JobPlace i j) s) PFailed"
    using running_job [OF assms(1,3-5)] assms(6) by (auto simp: may_finish_def p_terminal_def)
  show "jobs_ok (tview s)" using assms(1) by (rule view_ok_jobs_ok)
qed (use assms in \<open>auto simp: view_run stage_view job_view\<close>)

lemma wp_checked:
  "wp m (\<lambda>_ u. view_ok (tview u)) (\<lambda>_ _. False) s \<Longrightarrow>
   wp (andThen m (\<lambda>_. assert_run_invariants)) (\<lambda>_ u. view_ok (tview u) \<and> True) (\<lambda>_ _. False) s"
  unfolding wp_andThen by (erule wp_mono) (auto intro: wp_assert_run_invariants)

context pipeline_host
begin

lemmas section_rules = wp_while_running wp_ifI wp_retI

lemma wp_section_checked:
  assumes "during s s" "map_of (ps_runs s) i = Some r" "evo.steps m"
    and "\<And>x. view_ok (tview x) \<Longrightarrow> ts_run x = r \<Longrightarrow> wp m (\<lambda>_ u. view_ok (tview u)) (\<lambda>_ _. False) x"
    and "\<And>t pc. next = Some pc \<Longrightarrow> run_evolves r t \<Longrightarrow> pc_ready pc t"
  shows "wp (andThen (edit_checked port i m) (\<lambda>_. ret next)) (section_done s i) (\<lambda>_. post s) s"
proof -
  have "wp (andThen (edit_run i (andThen m (\<lambda>_. assert_run_invariants))) (\<lambda>_. andThen (checkpoint port) (\<lambda>_. ret next)))
      (section_done s i) (\<lambda>_. post s) s"
  proof (rule wp_section_edit [where P = "\<lambda>_. True", OF assms(1,2)])
    show "evo.steps (andThen m (\<lambda>_. assert_run_invariants))" by (intro steps_intros assms(3))
    show "wp (andThen m (\<lambda>_. assert_run_invariants)) (\<lambda>_ u. view_ok (tview u) \<and> True) (\<lambda>_ _. False) x"
      if "view_ok (tview x)" "ts_run x = r" for x
      by (rule wp_checked [OF assms(4) [OF that]])
  qed (use assms(5) in blast)
  then show ?thesis by (simp add: edit_checked_def wp_andThen [abs_def])
qed

lemma section_here:
  assumes "pipelines_inv s" "map_of (ps_tasks s) i = Some pc" "\<And>r. pc_ready pc r \<Longrightarrow> pc_ready pc' r"
  shows "section_done s i (Some pc') s"
  using assms post_refl next_ready_same by (simp add: section_done_def)

lemma next_stage_ready: "n = length (pl_stages r) \<Longrightarrow> i < n \<Longrightarrow> pc_ready (next_stage n i) r"
  by (simp add: next_stage_def)

lemma next_job_ready: "pc_ready (ExecJob n i m j) r \<Longrightarrow> pc_ready (next_job n i m j) r"
  by (simp add: next_job_def)

lemma next_job_moves: "pc_ready (ExecJob n i m j) r \<Longrightarrow> run_evolves r t \<Longrightarrow> pc_ready (next_job n i m j) t"
  by (rule next_job_ready, rule pc_ready_evolves)

lemma wp_execute_section:
  assumes s: "pipelines_inv s" and task: "map_of (ps_tasks s) i = Some pc"
  shows "wp (execute_section port i pc) (section_done s i) (\<lambda>_. post s) s"
proof -
  have init: "ps_initialized s" using s task by (auto simp: pipelines_inv_def)
  have d: "during s s" by (rule during_start [OF s init])
  have stop: "section_done s i None s" using post_refl [OF s] by (simp add: section_done_def)
  have ready: "pc_ready pc r" if "map_of (ps_runs s) i = Some r" for r
    by (rule during_run(5) [OF d that task])
  show ?thesis
  proof (cases pc)
    case ExecBegin
    have begun: "wp (andThen (edit_run i (start RunPlace)) (\<lambda>_. andThen (checkpoint port) (\<lambda>_.
        ret (Some (if length (pl_stages r) = 0 then ExecEnd else ExecStage (length (pl_stages r)) 0))))) (section_done s i) (\<lambda>_. post s) s"
      if r: "map_of (ps_runs s) i = Some r" "status_at RunPlace r = PQueued" for r
    proof (rule wp_section_edit [OF d r(1) steps_start, where P = "\<lambda>_. True"])
      show "wp (start RunPlace) (\<lambda>_ u. view_ok (tview u) \<and> True) (\<lambda>_ _. False) x" if "view_ok (tview x)" "ts_run x = r" for x
        by (rule wp_start_run [where d = PQueued]) (use that r in \<open>auto simp: view_run p_terminal_def\<close>)
    qed (auto simp: run_evolves_def dest: plan_stages split: if_splits)
    show ?thesis
      unfolding ExecBegin execute_section.simps
    proof (rule wp_andThenI, rule wp_initialize [OF s])
      fix t assume "ps_initialized s \<longrightarrow> t = s"
      then have "t = s" using init by simp
      then show "wp (andThen (require_run i) (\<lambda>run. if status_at RunPlace run \<noteq> PQueued then ret None
          else andThen (edit_run i (start RunPlace)) (\<lambda>_. andThen (checkpoint port) (\<lambda>_.
            let n = length (pl_stages run) in ret (Some (if n = 0 then ExecEnd else ExecStage n 0))))))
          (section_done s i) (\<lambda>_. post s) t"
        unfolding Let_def using post_refl [OF s]
        by (intro wp_andThenI [of "require_run i"] wp_require_run wp_ifI wp_retI) (simp_all add: stop begun del: length_0_conv)
    qed
  next
    case (ExecStage n k)
    have pc: "n = length (pl_stages r) \<and> k < n" if "map_of (ps_runs s) i = Some r" for r
      using ready [OF that] by (simp add: ExecStage)
    have body: "wp (andThen (edit_run i (start (StagePlace k))) (\<lambda>_. andThen (checkpoint port) (\<lambda>_.
        ret (Some (if length (stage_jobs r k) = 0 then ExecStageDone n k else ExecJob n k (length (stage_jobs r k)) 0)))))
        (section_done s i) (\<lambda>_. post s) s"
      if r: "map_of (ps_runs s) i = Some r" "status_at RunPlace r = PRunning" "status_at (StagePlace k) r \<noteq> PSucceeded" for r
    proof (rule wp_section_edit [OF d r(1) steps_start, where P = "\<lambda>u. tview u (StagePlace k) = Some PRunning"])
      show "wp (start (StagePlace k)) (\<lambda>_ u. view_ok (tview u) \<and> tview u (StagePlace k) = Some PRunning) (\<lambda>_ _. False) x"
        if "view_ok (tview x)" "ts_run x = r" for x
        by (rule wp_mono [OF wp_start_stage_section]) (use that r pc [OF r(1)] in auto)
      show "pc_ready pc' (ts_run u)"
        if "Some (if length (stage_jobs r k) = 0 then ExecStageDone n k else ExecJob n k (length (stage_jobs r k)) 0) = Some pc'"
          "tview u (StagePlace k) = Some PRunning" "run_evolves r (ts_run u)" for u pc'
        using that pc [OF r(1)] plan_stages [of "ts_run u" r] plan_jobs [of "ts_run u" r k] view_SomeD [OF that(2)]
        by (auto simp: run_evolves_def split: if_splits)
    qed
    have skip: "section_done s i (Some (next_stage n k)) s"
      by (rule section_here [OF s task]) (auto simp: ExecStage intro: next_stage_ready)
    show ?thesis
      unfolding ExecStage execute_section.simps Let_def
      by (intro wp_while_running s wp_ifI wp_retI skip body)
  next
    case (ExecJob n k m j)
    have pc: "n = length (pl_stages r) \<and> k < n \<and> m = length (stage_jobs r k) \<and> j < m" if "map_of (ps_runs s) i = Some r" for r
      using ready [OF that] by (simp add: ExecJob)
    have agg: "wp (andThen (edit_run i (aggregate_success (Some k))) (\<lambda>_. andThen (checkpoint port) (\<lambda>_.
        ret (Some (next_job n k m j))))) (section_done s i) (\<lambda>_. post s) s"
      if r: "map_of (ps_runs s) i = Some r" "status_at RunPlace r = PRunning" for r
      by (rule wp_section_edit [OF d r(1) steps_edits(4), where P = "\<lambda>_. True"])
        (use r pc [OF r(1)] ready [OF r(1)] in \<open>auto simp: ExecJob intro!: wp_mono [OF wp_aggregate_section] elim: next_job_moves [rotated]\<close>)
    have start: "wp (andThen (edit_run i (start (JobPlace k j))) (\<lambda>_. andThen (checkpoint port) (\<lambda>_.
        ret (Some (ExecWait n k m j))))) (section_done s i) (\<lambda>_. post s) s"
      if r: "map_of (ps_runs s) i = Some r" "status_at RunPlace r = PRunning" "status_at (StagePlace k) r = PRunning"
        "status_at (JobPlace k j) r \<noteq> PSucceeded" for r
    proof (rule wp_section_edit [OF d r(1) steps_start, where P = "\<lambda>_. True"])
      show "wp (start (JobPlace k j)) (\<lambda>_ u. view_ok (tview u) \<and> True) (\<lambda>_ _. False) x"
        if "view_ok (tview x)" "ts_run x = r" for x
        by (rule wp_mono [OF wp_start_job_section]) (use that r pc [OF r(1)] in auto)
      show "pc_ready pc' (ts_run u)" if "Some (ExecWait n k m j) = Some pc'" "run_evolves r (ts_run u)" for u pc'
        using that(1) pc_ready_evolves [OF that(2) ready [OF r(1)]] by (auto simp: ExecJob)
    qed
    show ?thesis
      unfolding ExecJob execute_section.simps
      by (intro wp_while_running s wp_ifI wp_retI stop agg start) auto
  next
    case (ExecWait n k m j)
    have "section_done s i (Some (ExecJobDone n k m j)) s"
      by (rule section_here [OF s task]) (simp add: ExecWait)
    then show ?thesis
      unfolding ExecWait execute_section.simps
      using stop post_refl [OF s] by (intro wp_intros) auto
  next
    case (ExecJobDone n k m j)
    have pc: "n = length (pl_stages r) \<and> k < n \<and> m = length (stage_jobs r k) \<and> j < m \<and> status_at (StagePlace k) r \<noteq> PQueued"
      if "map_of (ps_runs s) i = Some r" for r
      using ready [OF that] by (simp add: ExecJobDone)
    have moves: "pc_ready (next_job n k m j) t" if "map_of (ps_runs s) i = Some r" "run_evolves r t" for r t
      by (rule next_job_moves [OF _ that(2)]) (use pc [OF that(1)] in simp)
    have agg: "wp (andThen (edit_run i (aggregate_success (Some k))) (\<lambda>_. andThen (checkpoint port) (\<lambda>_.
        ret (Some (next_job n k m j))))) (section_done s i) (\<lambda>_. post s) s"
      if r: "map_of (ps_runs s) i = Some r" "status_at RunPlace r = PRunning" for r
      by (rule wp_section_edit [OF d r(1) steps_edits(4), where P = "\<lambda>_. True"])
        (use r pc [OF r(1)] moves [OF r(1)] in \<open>auto intro!: wp_mono [OF wp_aggregate_section]\<close>)
    have stage: "status_at (StagePlace k) r = PRunning"
      if r: "map_of (ps_runs s) i = Some r" "status_at RunPlace r = PRunning" "status_at (JobPlace k j) r \<noteq> PSucceeded" for r
    proof -
      have ok: "view_ok (view r)" using during_run(1) [OF d r(1)] by (simp add: run_ok_view)
      have k: "k < length (pl_stages r)" "j < length (stage_jobs r k)" using pc [OF r(1)] by simp_all
      show ?thesis
        using running_stage [OF ok r(2) k(1)] running_job [OF ok _ k] pc [OF r(1)] r(3) by fastforce
    qed
    have failed: "wp (andThen (edit_checked port i (fail_job k j (Some ''deterministic simulated failure''))) (\<lambda>_. ret None))
        (section_done s i) (\<lambda>_. post s) s"
      if r: "map_of (ps_runs s) i = Some r" "status_at RunPlace r = PRunning" "status_at (JobPlace k j) r \<noteq> PSucceeded" for r
      by (rule wp_section_checked [OF d r(1) steps_edits(6)])
        (use r pc [OF r(1)] stage [OF r] in \<open>auto intro!: wp_fail_job_section\<close>)
    have finished: "wp (andThen (edit_checked port i (andThen (finish (JobPlace k j) PSucceeded None) (\<lambda>_. aggregate_success (Some k))))
        (\<lambda>_. ret (Some (next_job n k m j)))) (section_done s i) (\<lambda>_. post s) s"
      if r: "map_of (ps_runs s) i = Some r" "status_at RunPlace r = PRunning" "status_at (JobPlace k j) r \<noteq> PSucceeded" for r
      by (rule wp_section_checked [OF d r(1)])
        (use r pc [OF r(1)] stage [OF r] moves [OF r(1)] in \<open>auto intro!: wp_finish_job_section steps_intros\<close>)
    show ?thesis
      unfolding ExecJobDone execute_section.simps
      by (intro wp_while_running s wp_ifI agg failed finished)
  next
    case (ExecStageDone n k)
    have pc: "n = length (pl_stages r) \<and> k < n" if "map_of (ps_runs s) i = Some r" for r
      using ready [OF that] by (simp add: ExecStageDone)
    have "wp (andThen (edit_checked port i (aggregate_success (Some k))) (\<lambda>_. ret (Some (next_stage n k)))) (section_done s i) (\<lambda>_. post s) s"
      if r: "map_of (ps_runs s) i = Some r" "status_at RunPlace r = PRunning" for r
      by (rule wp_section_checked [OF d r(1) steps_edits(4)])
        (use r pc [OF r(1)] in \<open>auto intro!: wp_aggregate_section next_stage_ready simp: run_evolves_def dest: plan_stages\<close>)
    then show ?thesis
      unfolding ExecStageDone execute_section.simps by (intro wp_while_running s)
  next
    case ExecEnd
    have "wp (andThen (edit_checked port i (aggregate_success None)) (\<lambda>_. ret None)) (section_done s i) (\<lambda>_. post s) s"
      if r: "map_of (ps_runs s) i = Some r" "status_at RunPlace r = PRunning" for r
      by (rule wp_section_checked [OF d r(1) steps_edits(4)]) (use r in \<open>auto intro!: wp_aggregate_section\<close>)
    then show ?thesis
      unfolding ExecEnd execute_section.simps by (intro wp_while_running s)
  next
    case (ExecRecover message)
    have "wp (andThen (edit_run i (fail_run x)) (\<lambda>_. andThen (checkpoint port) (\<lambda>_. ret None))) (section_done s i) (\<lambda>_. post s) s"
      if r: "map_of (ps_runs s) i = Some r" "\<not> run_terminal r" for r x
      by (rule wp_section_edit [OF d r(1) steps_edits(5), where P = "\<lambda>_. True"])
        (use r in \<open>auto intro!: wp_fail_run [where c = "status_at RunPlace r"] view_ok_jobs_ok
          simp: view_run run_terminal_def may_finish_def p_terminal_def\<close>)
    then show ?thesis
      unfolding ExecRecover execute_section.simps
      by (intro wp_andThenI [of "reads f" for f] wp_readsI wp_caseI wp_ifI wp_retI stop)
  qed
qed

lemma wp_execute_step:
  assumes s: "pipelines_inv s"
  shows "wp (execute_step port i) (\<lambda>_. result s) (\<lambda>_ _. False) s"
  unfolding execute_step_def
proof (intro wp_andThenI [of "reads f" for f] wp_readsI wp_caseI wp_retI)
  show "result s s" using post_result [OF post_refl [OF s]] .
next
  fix pc assume task: "map_of (ps_tasks s) i = Some pc"
  have moved: "wp (case after_section pc outcome of
           None \<Rightarrow> writes (ps_tasks_update (AList.delete i))
         | Some pc' \<Rightarrow> writes (ps_tasks_update (AList.update i pc'))) (\<lambda>_. result s) (\<lambda>_ _. False) t"
    if t: "post s t" "next_ready i (after_section pc outcome) t" for outcome t
  proof -
    have inv: "pipelines_inv t" using t(1) by (rule post_inv)
    have "ps_tasks t = ps_tasks s" using t(1) by (simp add: post_def)
    then have init: "ps_initialized t" using inv task by (auto simp: pipelines_inv_def)
    have "pipelines_inv (with_tasks (AList.delete i (ps_tasks t)) t)"
      by (intro inv_with_tasks inv tasks_fit_delete tasks_fit_current init)
    moreover have "pipelines_inv (with_tasks (AList.update i pc' (ps_tasks t)) t)" if "after_section pc outcome = Some pc'" for pc'
      by (intro inv_with_tasks inv tasks_fit_update tasks_fit_current init)
        (use t(2) that in \<open>auto simp: next_ready_def tasks_fit_def\<close>)
    moreover have "fst ` set (AList.delete i (ps_tasks t)) \<subseteq> fst ` set (ps_tasks s) \<union> drawn_ids (ps_env t)"
      using \<open>ps_tasks t = ps_tasks s\<close> by (auto simp: AList.delete_eq)
    moreover have "fst ` set (AList.update i pc' (ps_tasks t)) \<subseteq> fst ` set (ps_tasks s) \<union> drawn_ids (ps_env t)" for pc'
      using \<open>ps_tasks t = ps_tasks s\<close> fst_update_present [OF task] by simp
    ultimately show ?thesis
      by (cases "after_section pc outcome") (simp_all add: wp_writes update_tasks result_with_tasks [OF t(1)])
  qed
  show "wp (andThen (attempt (execute_section port i pc)) (\<lambda>outcome. case after_section pc outcome of
           None \<Rightarrow> writes (ps_tasks_update (AList.delete i))
         | Some pc' \<Rightarrow> writes (ps_tasks_update (AList.update i pc')))) (\<lambda>_. result s) (\<lambda>_ _. False) s"
  proof (rule wp_andThenI, rule wp_attempt, rule wp_mono [OF wp_execute_section [OF s task]])
    fix pc' t assume "section_done s i pc' t"
    then show "wp (case after_section pc (Inr pc') of
           None \<Rightarrow> writes (ps_tasks_update (AList.delete i))
         | Some pc' \<Rightarrow> writes (ps_tasks_update (AList.update i pc'))) (\<lambda>_. result s) (\<lambda>_ _. False) t"
      by (intro moved) (simp_all add: section_done_def after_section_def)
  next
    fix e t assume t: "post s t"
    have "next_ready i (Some (ExecRecover (error_text e))) t" by (simp add: next_ready_def tasks_fit_def)
    then show "wp (case after_section pc (Inl e) of
           None \<Rightarrow> writes (ps_tasks_update (AList.delete i))
         | Some pc' \<Rightarrow> writes (ps_tasks_update (AList.update i pc'))) (\<lambda>_. result s) (\<lambda>_ _. False) t"
      by (intro moved t) (auto simp: after_section_def split: executor.split)
  qed
qed

end

end
