(* ===== verification/Pipeline_Histories.thy ===== *)
theory Pipeline_Histories
  imports Pipeline_Operations
begin

text \<open>
  Histories of calls, executor sections, resets and process restarts on a pipeline service. Between
  the two critical sections of a reset other calls may run.
\<close>

section \<open>Calls\<close>

datatype pl_call =
    InitializeCall
  | TriggerCall PipelineTriggerRequest
  | GetCall text_t
  | ListCall
  | CancelCall text_t
  | CallbackCall text_t PipelineCallbackRequest
  | WaitCall text_t
  | ShutdownCall
  | ExecutorCall text_t

fun pl_serve :: "'p port \<Rightarrow> (text_t \<Rightarrow> text_t) \<Rightarrow> pl_call \<Rightarrow> 'p pipelines \<Rightarrow> 'p pipelines" where
  "pl_serve port digest InitializeCall s = snd (initialize_locked port s)"
| "pl_serve port digest (TriggerCall request) s = snd (trigger port digest request s)"
| "pl_serve port digest (GetCall i) s = snd (get_run port i s)"
| "pl_serve port digest ListCall s = snd (list_runs port s)"
| "pl_serve port digest (CancelCall i) s = snd (cancel_run port i s)"
| "pl_serve port digest (CallbackCall i c) s = snd (apply_callback port digest i c s)"
| "pl_serve port digest (WaitCall i) s = snd (look_terminal port i s)"
| "pl_serve port digest ShutdownCall s = snd (shutdown port s)"
| "pl_serve port digest (ExecutorCall i) s = snd (execute_step port i s)"

datatype pl_request = Call pl_call | ResetRequest "pl_call list" | RestartRequest

definition pl_serve_all :: "'p port \<Rightarrow> (text_t \<Rightarrow> text_t) \<Rightarrow> pl_call list \<Rightarrow> 'p pipelines \<Rightarrow> 'p pipelines" where
  "pl_serve_all port digest cs s = fold (pl_serve port digest) cs s"

fun pl_handle :: "'p port \<Rightarrow> (text_t \<Rightarrow> text_t) \<Rightarrow> pl_request \<Rightarrow> 'p pipelines \<Rightarrow> 'p pipelines" where
  "pl_handle port digest (Call c) s = pl_serve port digest c s"
| "pl_handle port digest (ResetRequest cs) s =
     (case reset_close port s of
        (Inl _, t) \<Rightarrow> t
      | (Inr _, t) \<Rightarrow> snd (reset_clear port (pl_serve_all port digest cs t)))"
| "pl_handle port digest RestartRequest s = new_pipelines (ps_env s) port (ps_store s)"

definition pl_history :: "'p port \<Rightarrow> (text_t \<Rightarrow> text_t) \<Rightarrow> pl_request list \<Rightarrow> 'p pipelines \<Rightarrow> 'p pipelines" where
  "pl_history port digest rs s = fold (pl_handle port digest) rs s"

lemma pl_history_simps [simp]:
  "pl_history port digest [] s = s"
  "pl_history port digest (r # rs) s = pl_history port digest rs (pl_handle port digest r s)"
  "pl_history port digest (rs @ [r]) s = pl_handle port digest r (pl_history port digest rs s)"
  by (simp_all add: pl_history_def)

section \<open>The environment\<close>

lemma penv_restore [steps_intros]: "penv.steps (restore_state d)"
  unfolding restore_state_def by (intro penv_writes) simp

lemma penv_edit_run:
  assumes "evo.steps m"
  shows "penv.steps (edit_run i m)"
  unfolding penv.steps_def
proof
  fix s :: "'p pipelines"
  show "env_later (ps_env s) (ps_env (snd (edit_run i m s)))"
  proof (cases "map_of (ps_runs s) i")
    case (Some r)
    obtain x u where "m \<lparr>ts_env = ps_env s, ts_run = r\<rparr> = (x, u)" by fastforce
    then show ?thesis
      using evo.stepsD [OF assms, of "\<lparr>ts_env = ps_env s, ts_run = r\<rparr>"] by (simp add: edit_run_def Some)
  qed (simp add: edit_run_def)
qed

lemma penv_initialize [steps_intros]: "penv.steps (initialize_locked port)"
  unfolding initialize_locked_def
  by (intro steps_intros penv_edit_run penv_writes) simp_all

lemma penv_require_run [steps_intros]: "penv.steps (require_run i)"
  unfolding require_run_def by (intro steps_intros)

lemma penv_ensure_open [steps_intros]: "penv.steps ensure_open"
  unfolding ensure_open_def by (intro steps_intros)

lemma penv_edits [steps_intros]:
  "penv.steps (edit_run i (start p))" "penv.steps (edit_run i (aggregate_success stage))" "penv.steps (edit_run i cancel_tree)"
  "penv.steps (edit_run i (callback_tree c))" "penv.steps (edit_run i shut_run)" "penv.steps (edit_run i (fail_run m))"
  "penv.steps (edit_checked port i (fail_job a b m))" "penv.steps (edit_checked port i (aggregate_success stage))"
  "penv.steps (edit_checked port i (andThen (finish p st m) (\<lambda>_. aggregate_success stage)))"
  unfolding edit_checked_def by (intro steps_intros penv_edit_run)+

lemma penv_now [steps_intros]: "penv.steps pl_now"
  by (simp add: penv.steps_def pl_now_def)

lemma penv_tasks [steps_intros]: "penv.steps (writes (ps_tasks_update f))"
  by (rule penv_writes) simp

lemma penv_section [steps_intros]: "penv.steps (execute_section port i pc)"
  by (cases pc) (simp_all add: while_running_def, (intro steps_intros)+)

lemma penv_reset [steps_intros]: "penv.steps (reset_close port)" "penv.steps (reset_clear port)"
  unfolding reset_close_def reset_clear_def by (intro steps_intros penv_writes; simp)+

lemma penv_calls:
  "penv.steps (get_run port i)" "penv.steps (list_runs port)"
  "penv.steps (cancel_run port i)" "penv.steps (apply_callback port digest i c)" "penv.steps (look_terminal port i)"
  "penv.steps (shutdown port)" "penv.steps (execute_step port i)"
  unfolding get_run_def list_runs_def cancel_run_def apply_callback_def look_terminal_def shutdown_def execute_step_def
  by (intro steps_intros penv_writes; simp)+

text \<open>A trigger draws one identifier at most.\<close>

definition draws_one :: "('p, 'a) pl_op \<Rightarrow> bool" where
  "draws_one m \<longleftrightarrow> (\<forall>s. env_le (ps_env s) (ps_env (snd (m s))) \<and> id_count (ps_env (snd (m s))) \<le> Suc (id_count (ps_env s)))"

lemma drawsD:
  "draws_one m \<Longrightarrow> env_le (ps_env s) (ps_env (snd (m s))) \<and> id_count (ps_env (snd (m s))) \<le> Suc (id_count (ps_env s))"
  by (simp add: draws_one_def)

lemma draws_none:
  assumes "penv.steps m"
  shows "draws_one m"
  unfolding draws_one_def
proof
  show "env_le (ps_env s) (ps_env (snd (m s))) \<and> id_count (ps_env (snd (m s))) \<le> Suc (id_count (ps_env s))" for s
    using penv.stepsD [OF assms, of s] by (simp add: env_later_def)
qed

lemma draws_later:
  assumes m: "penv.steps m" and k: "\<And>x. draws_one (k x)"
  shows "draws_one (andThen m k)"
  unfolding draws_one_def
proof
  fix s
  obtain x t where x: "m s = (x, t)" by fastforce
  have t: "env_le (ps_env s) (ps_env t)" "id_count (ps_env t) = id_count (ps_env s)"
    using penv.stepsD [OF m, of s] by (simp_all add: x env_later_def)
  show "env_le (ps_env s) (ps_env (snd (andThen m k s))) \<and> id_count (ps_env (snd (andThen m k s))) \<le> Suc (id_count (ps_env s))"
  proof (cases x)
    case (Inr y)
    then show ?thesis using drawsD [OF k, of t y] t by (auto simp: run_andThen x intro: env_le_trans)
  qed (simp add: run_andThen x t)
qed

lemma draws_first:
  assumes "\<And>x. penv.steps (k x)"
  shows "draws_one (andThen pl_new_id k)"
  unfolding draws_one_def
proof
  fix s :: "'a pipelines"
  let ?e = "(ps_env s)\<lparr>id_count := Suc (id_count (ps_env s))\<rparr>"
  let ?t = "snd (andThen pl_new_id k s)"
  have "env_later ?e (ps_env ?t)"
    using penv.stepsD [OF assms, of "s\<lparr>ps_env := ?e\<rparr>"] by (simp add: andThen_def pl_new_id_def)
  then show "env_le (ps_env s) (ps_env ?t) \<and> id_count (ps_env ?t) \<le> Suc (id_count (ps_env s))"
    using env_le_trans [OF env_le_draw(2)] by (auto simp: env_later_def)
qed

lemma draws_trigger: "draws_one (trigger port digest request)"
  unfolding trigger_def Let_def
proof (intro draws_later steps_intros)
  fix previous
  show "draws_one (case previous of
        Some entry \<Rightarrow>
          andThen (ensure (snd entry = digest (json_dumps (trigger_value request)))
            (PipelineIdempotencyConflictError ''idempotency key was reused with a different request'')) (\<lambda>_.
          andThen (reads (\<lambda>s. map_of (ps_runs s) (fst entry))) (\<lambda>found.
          andThen (from_option (PipelineKeyError (fst entry)) found) (\<lambda>run.
          ret \<lparr>tr_pipeline = run, tr_replayed = True\<rparr>)))
      | None \<Rightarrow> trigger_new port request (digest (json_dumps (trigger_value request))))"
    by (cases previous)
      (simp_all add: trigger_new_def, (intro draws_first draws_none steps_intros penv_writes; simp)+)
qed

lemma serve_draws:
  "env_le (ps_env s) (ps_env (pl_serve port digest c s)) \<and> id_count (ps_env (pl_serve port digest c s)) \<le> Suc (id_count (ps_env s))"
  by (cases c) (simp_all add: drawsD draws_trigger draws_none penv_calls penv_initialize)

lemmas serve_env = serve_draws [THEN conjunct1]

lemma serve_all_env: "env_le (ps_env s) (ps_env (pl_serve_all port digest cs s))"
proof (induction cs arbitrary: s)
  case Nil
  then show ?case by (simp add: pl_serve_all_def)
next
  case (Cons c cs)
  from env_le_trans [OF serve_env Cons.IH] show ?case by (simp add: pl_serve_all_def)
qed

lemma handle_env: "env_le (ps_env s) (ps_env (pl_handle port digest r s))"
proof (cases r)
  case (ResetRequest cs)
  obtain x t where x: "reset_close port s = (x, t)" by (cases "reset_close port s")
  have st: "env_le (ps_env s) (ps_env t)" using penv.stepsD [OF penv_reset(1) [of port], of s] by (simp add: x env_later_le)
  have "env_le (ps_env t) (ps_env (snd (reset_clear port (pl_serve_all port digest cs t))))"
    by (rule env_le_trans [OF serve_all_env env_later_le [OF penv.stepsD [OF penv_reset(2)]]])
  then show ?thesis using st by (auto simp: ResetRequest x intro: env_le_trans split: sum.split)
qed (simp_all add: serve_env new_pipelines_def)

section \<open>The invariant over histories\<close>

definition tasks_drawn :: "'p pipelines \<Rightarrow> bool" where
  "tasks_drawn s \<longleftrightarrow> fst ` set (ps_tasks s) \<subseteq> drawn_ids (ps_env s)"

context pipeline_host
begin

definition pl_ok :: "'p pipelines \<Rightarrow> bool" where
  "pl_ok s \<longleftrightarrow> pipelines_inv s \<and> tasks_drawn s"

lemma result_ok: "result s t \<Longrightarrow> tasks_drawn s \<Longrightarrow> pl_ok t"
  unfolding result_def pl_ok_def tasks_drawn_def using drawn_mono by blast

text \<open>A call on a service that has not loaded its state is the load and the call.\<close>

lemma wp_initialize_first:
  assumes m: "\<And>t. m t = andThen (initialize_locked port) (\<lambda>_. rest) t"
    and s: "pipelines_inv s" and step: "\<And>t. pipelines_inv t \<Longrightarrow> ps_initialized t \<Longrightarrow> wp m (\<lambda>_. post t) (\<lambda>_. post t) t"
  shows "wp m (\<lambda>_. post s) (\<lambda>_. post s) s"
proof -
  have same: "wp rest Q E t = wp m Q E t" if "ps_initialized t" for Q E t
    using that by (simp add: wp_def m andThen_def initialize_locked_def run_simps)
  have "wp (andThen (initialize_locked port) (\<lambda>_. rest)) (\<lambda>_. post s) (\<lambda>_. post s) s"
  proof (rule wp_andThenI, rule wp_initialize [OF s])
    fix t assume t: "post s t" "ps_initialized t"
    show "wp rest (\<lambda>_. post s) (\<lambda>_. post s) t"
      unfolding same [OF t(2)]
      by (rule wp_mono [OF step [OF post_inv [OF t(1)] t(2)]]) (rule post_trans [OF t(1)], assumption)+
  qed
  then show ?thesis by (simp add: wp_def m)
qed

lemma serve_result:
  assumes "pl_ok s" "env_ok (ps_env (pl_serve port digest c s))"
  shows "result s (pl_serve port digest c s)"
proof -
  have inv: "pipelines_inv s" "fst ` set (ps_tasks s) \<subseteq> drawn_ids (ps_env s)" using assms(1) by (simp_all add: pl_ok_def tasks_drawn_def)
  have final: "result s (snd (m s))" if "wp m (\<lambda>_. post s) (\<lambda>_. post s) s" for m :: "('p, 'b) pl_op"
    using that by (intro post_result) (simp add: wp_final)
  show ?thesis
  proof (cases c)
    case InitializeCall
    have "wp (initialize_locked port) (\<lambda>_. post s) (\<lambda>_. post s) s" by (rule wp_initialize [OF inv(1)])
    then show ?thesis by (simp add: InitializeCall final)
  next
    case (TriggerCall request)
    show ?thesis
      using wp_trigger [OF inv, of digest request] assms(2) by (simp add: TriggerCall wp_final)
  next
    case (CallbackCall i cb)
    have "wp (apply_callback port digest i cb) (\<lambda>_. post s) (\<lambda>_. post s) s"
    proof -
      have "\<exists>rest. apply_callback port digest i cb = andThen (initialize_locked port) (\<lambda>_. rest)"
        unfolding apply_callback_def Let_def by (rule exI, rule refl)
      then obtain rest where rest: "apply_callback port digest i cb = andThen (initialize_locked port) (\<lambda>_. rest)" ..
      show ?thesis
      proof (rule wp_initialize_first [OF _ inv(1)])
        show "apply_callback port digest i cb t = andThen (initialize_locked port) (\<lambda>_. rest) t" for t by (simp only: rest)
        show "wp (apply_callback port digest i cb) (\<lambda>_. post t) (\<lambda>_. post t) t"
          if "pipelines_inv t" "ps_initialized t" for t
          by (rule wp_mono [OF wp_callback [OF that refl]]) simp_all
      qed
    qed
    then show ?thesis by (simp add: CallbackCall final)
  next
    case ShutdownCall
    then show ?thesis using wp_shutdown [OF inv(1)] by (simp add: wp_final)
  next
    case (ExecutorCall i)
    have "wp (execute_step port i) (\<lambda>_. result s) (\<lambda>_. result s) s" by (rule wp_mono [OF wp_execute_step [OF inv(1)]]) simp_all
    then show ?thesis by (simp add: ExecutorCall wp_final)
  qed (simp_all add: final wp_get_run wp_list_runs wp_cancel_run wp_look_terminal inv)
qed

lemma serve_all_ok:
  assumes "pl_ok s" "env_ok (ps_env (pl_serve_all port digest cs s))"
  shows "pl_ok (pl_serve_all port digest cs s) \<and> (ps_closed s \<longrightarrow> ps_closed (pl_serve_all port digest cs s))"
  using assms
proof (induction cs arbitrary: s)
  case Nil
  then show ?case by (simp add: pl_serve_all_def)
next
  case (Cons c cs)
  let ?t = "pl_serve port digest c s"
  have u: "pl_serve_all port digest (c # cs) s = pl_serve_all port digest cs ?t" by (simp add: pl_serve_all_def)
  have "env_ok (ps_env ?t)" using Cons.prems(2) serve_all_env env_ok_mono unfolding u by blast
  then have r: "result s ?t" by (rule serve_result [OF Cons.prems(1)])
  have "pl_ok ?t" by (rule result_ok [OF r]) (use Cons.prems(1) in \<open>simp add: pl_ok_def\<close>)
  from Cons.IH [OF this] Cons.prems(2) r show ?case unfolding u by (simp add: result_def)
qed

lemma new_ok:
  assumes "port \<noteq> None \<Longrightarrow> good p" "port \<noteq> None \<Longrightarrow> state_good [] e (stored p)"
  shows "pl_ok (new_pipelines e port p)"
proof -
  have mem: "mem (new_pipelines e port p) = no_runs" by (simp add: new_pipelines_def memory_state_def no_runs_def)
  have "whole (new_pipelines e port p)"
    using assms unfolding whole_def core_def memory_good_def store_good_def mem
    by (auto simp: new_pipelines_def tables_match_def)
  then show ?thesis
    by (auto simp: pl_ok_def pipelines_inv_def tasks_drawn_def settled_def synced_def) (auto simp: new_pipelines_def)
qed

lemma handle_ok:
  assumes s: "pl_ok s" and env: "env_ok (ps_env (pl_handle port digest r s))"
  shows "pl_ok (pl_handle port digest r s)"
proof (cases r)
  case (Call c)
  have "result s (pl_serve port digest c s)" using env by (intro serve_result [OF s]) (simp add: Call)
  from result_ok [OF this] show ?thesis using s by (simp add: Call pl_ok_def)
next
  case RestartRequest
  have "state_good [] (ps_env s) (stored (ps_store s))" "good (ps_store s)" if "port \<noteq> None"
    using s that state_good_no_tasks by (auto simp: pl_ok_def pipelines_inv_def whole_def core_def store_good_def)
  then show ?thesis by (auto simp: RestartRequest intro: new_ok)
next
  case (ResetRequest cs)
  obtain x t where x: "reset_close port s = (x, t)" by (cases "reset_close port s")
  have inv: "pipelines_inv s" using s by (simp add: pl_ok_def)
  have res: "result s t" using wp_reset_close [OF inv] by (simp add: wp_final x)
  have t: "pl_ok t" by (rule result_ok [OF res]) (use s in \<open>simp add: pl_ok_def\<close>)
  show ?thesis
  proof (cases x)
    case (Inl e)
    then show ?thesis using t by (simp add: ResetRequest x)
  next
    case (Inr y)
    have closed: "ps_closed t"
      using x Inr by (auto simp: reset_close_def run_andThen run_writes split: sum.splits prod.splits)
    let ?u = "pl_serve_all port digest cs t"
    have final: "pl_handle port digest r s = snd (reset_clear port ?u)" by (simp add: ResetRequest x Inr)
    have le: "env_le (ps_env ?u) (ps_env (snd (reset_clear port ?u)))" by (rule env_later_le [OF penv.stepsD [OF penv_reset(2)]])
    then have u: "pl_ok ?u" "ps_closed ?u"
      using serve_all_ok [OF t] closed env env_ok_mono unfolding final by blast+
    have "wp (reset_clear port) (\<lambda>_ v. pipelines_inv v \<and> ps_tasks v = []) (\<lambda>_ v. pipelines_inv v \<and> ps_tasks v = []) ?u"
      by (rule wp_mono [OF wp_reset_clear]) (use u in \<open>simp_all add: pl_ok_def\<close>)
    then show ?thesis unfolding final by (simp add: wp_final pl_ok_def tasks_drawn_def)
  qed
qed

lemma history_ok:
  assumes "pl_ok s" "env_ok (ps_env (pl_history port digest rs s))"
  shows "pl_ok (pl_history port digest rs s)"
  using assms
proof (induction rs rule: rev_induct)
  case Nil
  then show ?case by simp
next
  case (snoc r rs)
  have "env_ok (ps_env (pl_history port digest rs s))"
    using snoc.prems(2) by (auto intro: env_ok_mono [OF _ handle_env])
  with snoc show ?case by (simp add: handle_ok)
qed

end

section \<open>The hosts\<close>

definition keeps_commits :: "'j pipeline_db \<Rightarrow> bool" where
  "keeps_commits s \<longleftrightarrow> (\<forall>n m. pd_outcome s n \<noteq> FailsAfter m)"

lemma wp_transaction_commits:
  assumes "keeps_commits s"
  shows "wp (transaction body) (\<lambda>_ t. keeps_commits t) (\<lambda>_ t. keeps_commits t \<and> pd_tables t = pd_tables s \<and> t = s\<lparr>pd_calls := pd_calls t\<rparr>) s"
  using assms
  by (auto simp: wp_def transaction_def Let_def keeps_commits_def split: db_outcome.splits sum.splits prod.splits)

lemma keeps_commits_calls: "t = s\<lparr>pd_calls := n\<rparr> \<Longrightarrow> db_stored t = db_stored s"
  by simp

lemma committed_store: "pipeline_store sqlalchemy_persistence (\<lambda>s. db_good s \<and> keeps_commits s) db_stored"
proof
  fix p :: "'a pipeline_db" assume p: "db_good p \<and> keeps_commits p"
  show "wp (pp_load sqlalchemy_persistence) (\<lambda>d q. (db_good q \<and> keeps_commits q) \<and> db_stored q = db_stored p \<and> storable d \<and> same_state d (db_stored p))
        (\<lambda>_ q. (db_good q \<and> keeps_commits q) \<and> db_stored q = db_stored p) p"
    unfolding sqlalchemy_persistence_def PipelinePersistence.simps sqlalchemy_load_def
    by (rule wp_mono [OF wp_both [OF wp_load_rows wp_transaction_commits]]) (use p in auto)
  show "wp (pp_clear sqlalchemy_persistence) (\<lambda>_ q. (db_good q \<and> keeps_commits q) \<and> same_state no_runs (db_stored q))
        (\<lambda>_ q. (db_good q \<and> keeps_commits q) \<and> (db_stored q = db_stored p \<or> same_state no_runs (db_stored q))) p"
    unfolding sqlalchemy_persistence_def PipelinePersistence.simps sqlalchemy_clear_def
    by (rule wp_mono [OF wp_both [OF wp_clear_rows wp_transaction_commits]]) (use p in auto)
  fix d assume d: "storable d"
  show "wp (pp_save sqlalchemy_persistence d) (\<lambda>_ q. (db_good q \<and> keeps_commits q) \<and> same_state d (db_stored q))
        (\<lambda>_ q. (db_good q \<and> keeps_commits q) \<and> (db_stored q = db_stored p \<or> same_state d (db_stored q))) p"
    unfolding sqlalchemy_persistence_def PipelinePersistence.simps sqlalchemy_save_def
    by (rule wp_mono [OF wp_both [OF wp_save_rows wp_transaction_commits]]) (use p d in auto)
qed

interpretation memory_host: pipeline_host None "\<lambda>_. True" "\<lambda>_. no_runs"
  by unfold_locales simp_all

lemma failed_keeps:
  "db_good q \<and> keeps_commits q \<Longrightarrow> wp (transaction body) (\<lambda>_ _. True) (\<lambda>_ q'. db_stored q' = db_stored q) q"
  by (rule wp_mono [OF wp_transaction_commits]) (auto intro: keeps_commits_calls)

interpretation sqlalchemy_host: pipeline_host "Some sqlalchemy_persistence" "\<lambda>s. db_good s \<and> keeps_commits s" db_stored
  by (rule pipeline_host.intro)
    (use committed_store in blast, auto simp: sqlalchemy_persistence_def sqlalchemy_save_def sqlalchemy_clear_def intro!: failed_keeps)

end
