(* ===== verification/Pipeline_Properties.thy ===== *)
theory Pipeline_Properties
  imports Pipeline_Histories Task_Properties
begin

text \<open>
  What the pipeline service guarantees over histories of calls, executor sections, resets and
  process restarts, without persistence and over the application's database.
\<close>

section \<open>Reachable states\<close>

text \<open>
  No persistence, or a database that starts empty, whose snapshots parse back to the run they were
  dumped from, and whose failing transactions commit nothing.
\<close>

definition backend_ok :: "'j pipeline_db port \<Rightarrow> 'j pipeline_db \<Rightarrow> bool" where
  "backend_ok port db \<longleftrightarrow> port = None \<or>
     port = Some sqlalchemy_persistence \<and> codec_ok db \<and> pd_tables db = empty_tables \<and> keeps_commits db"

definition pipelines_sound :: "'p pipelines \<Rightarrow> bool" where
  "pipelines_sound s \<longleftrightarrow> storable (memory_state s) \<and> tables_match s \<and> (\<not> ps_closed s \<longrightarrow> synced s) \<and>
     (\<forall>i r. map_of (ps_runs s) i = Some r \<longrightarrow> run_ok r \<and> run_stamps_ok r \<and>
        (\<forall>pc. map_of (ps_tasks s) i = Some pc \<longrightarrow> pc_ready pc r))"

definition start_pipelines :: "aenv \<Rightarrow> 'j pipeline_db port \<Rightarrow> 'j pipeline_db \<Rightarrow> (text_t \<Rightarrow> text_t) \<Rightarrow> pl_request list \<Rightarrow> 'j pipeline_db pipelines" where
  "start_pipelines e port db digest rs = pl_history port digest rs (new_pipelines e port db)"

lemma memory_start: "memory_host.pl_ok (new_pipelines e None db)"
  by (rule memory_host.new_ok) simp_all

lemma database_start:
  assumes "codec_ok db" "pd_tables db = empty_tables" "keeps_commits db"
  shows "sqlalchemy_host.pl_ok (new_pipelines e (Some sqlalchemy_persistence) db)"
proof (rule sqlalchemy_host.new_ok)
  have good: "db_good db" using assms empty_rows by (simp add: db_good_def)
  then show "db_good db \<and> keeps_commits db" using assms by simp
  have "same_state no_runs (db_stored db)" by (rule db_stored_same [OF good]) (simp add: assms empty_rows)
  then have "map_of (dr_runs (db_stored db)) = (\<lambda>_. None)" by (simp add: same_state_def no_runs_def fun_eq_iff)
  then show "state_good [] e (db_stored db)" by (simp add: state_good_def)
qed

lemma start_cases [consumes 2, case_names Memory Database]:
  assumes "backend_ok port db" "env_ok (ps_env (start_pipelines e port db digest rs))"
    and "port = None \<Longrightarrow> memory_host.pl_ok (start_pipelines e port db digest rs) \<Longrightarrow> P"
    and "port = Some sqlalchemy_persistence \<Longrightarrow> sqlalchemy_host.pl_ok (start_pipelines e port db digest rs) \<Longrightarrow> P"
  shows P
  using assms(1) unfolding backend_ok_def
proof (elim disjE conjE)
  assume port: "port = None"
  have "memory_host.pl_ok (start_pipelines e port db digest rs)"
    unfolding start_pipelines_def port
    by (rule memory_host.history_ok [OF memory_start]) (use assms(2) in \<open>simp add: start_pipelines_def port\<close>)
  then show P by (rule assms(3) [OF port])
next
  assume port: "port = Some sqlalchemy_persistence" and db: "codec_ok db" "pd_tables db = empty_tables" "keeps_commits db"
  have "sqlalchemy_host.pl_ok (start_pipelines e port db digest rs)"
    unfolding start_pipelines_def port
    by (rule sqlalchemy_host.history_ok [OF database_start [OF db]]) (use assms(2) in \<open>simp add: start_pipelines_def port\<close>)
  then show P by (rule assms(4) [OF port])
qed

text \<open>What both hosts say of a state.\<close>

context pipeline_host
begin

lemma pl_ok_sound: "pl_ok s \<Longrightarrow> pipelines_sound s"
  by (auto simp: pl_ok_def pipelines_inv_def whole_def core_def memory_good_def pipelines_sound_def state_good_def run_good_def
    memory_state_def)

lemma host_grows:
  "pl_ok s \<Longrightarrow> env_ok (ps_env (pl_serve port digest c s)) \<Longrightarrow> grows (mem s) (mem (pl_serve port digest c s))"
  by (drule (1) serve_result) (simp add: result_def)

lemma callback_effect:
  assumes "pl_ok s" "ps_initialized s" "\<not> ps_closed s" "apply_callback port digest i c s = (x, t)"
  shows "case x of
      Inl _ \<Rightarrow> same_state (mem t) (mem s)
    | Inr k \<Rightarrow> (case events_in (mem s) i (cb_event_id c) of
          Some fp \<Rightarrow> fp = digest (json_dumps (callback_value c)) \<and> t = s \<and> kr_duplicate k
        | None \<Rightarrow> \<not> kr_duplicate k \<and>
            callback_applied i (cb_event_id c) (digest (json_dumps (callback_value c))) (kr_pipeline k) (mem s) (mem t))"
  using wp_callback [OF _ assms(2) refl, where i = i and c = c and digest = digest] assms(1,3,4)
  by (auto simp: wp_def pl_ok_def split: sum.splits option.splits)

end

text \<open>A load after a save reads what was saved, or what was there when the save raised.\<close>

context pipeline_store
begin

lemma load_save_load:
  assumes "good p" "storable d" "pp_load port p = (Inr d0, q)" "pp_save port d q = (r, q1)" "pp_load port q1 = (Inr e, q2)"
  shows "same_state e d \<or> (\<exists>x. r = Inl x) \<and> same_state e d0"
proof -
  have q: "good q" "same_state d0 (stored q)" using load_law [OF assms(1)] assms(3) by (auto simp: wp_def)
  have q1: "good q1" "r = Inr () \<longrightarrow> same_state d (stored q1)" "same_state (stored q1) d0 \<or> same_state d (stored q1)"
    using save_law [OF q(1) assms(2)] assms(4) q(2) same_state_sym [OF q(2)] by (auto simp: wp_def split: sum.splits)
  have "same_state e (stored q1)" using load_law [OF q1(1)] assms(5) by (auto simp: wp_def)
  then show ?thesis using q1(2,3) same_state_sym same_state_trans by (cases r) (blast, metis old.unit.exhaust)
qed

end

lemma call_grows:
  assumes "backend_ok port db" "env_ok (ps_env (start_pipelines e port db digest rs))"
    and env: "env_ok (ps_env (pl_serve port digest c (start_pipelines e port db digest rs)))"
  shows "grows (memory_state (start_pipelines e port db digest rs)) (memory_state (pl_serve port digest c (start_pipelines e port db digest rs)))"
  using assms(1,2)
proof (cases rule: start_cases)
  case Memory
  from Memory(2) show ?thesis by (subst (2) Memory(1), rule memory_host.host_grows) (use env in \<open>simp add: Memory(1)\<close>)
next
  case Database
  from Database(2) show ?thesis by (subst (2) Database(1), rule sqlalchemy_host.host_grows) (use env in \<open>simp add: Database(1)\<close>)
qed

section \<open>Demonstration data\<close>

definition demo_db :: "PipelineRun pipeline_db" where
  "demo_db = \<lparr>pd_tables = empty_tables, pd_dump = (\<lambda>r. r), pd_parse = Some, pd_outcome = (\<lambda>_. Works), pd_calls = 0,
     pd_rank = (\<lambda>_ _. 0), pd_now = int, pd_constraint_message = ''IntegrityError'', pd_validation_message = ''ValidationError''\<rparr>"

lemma demo_db_ok: "codec_ok demo_db" "pd_tables demo_db = empty_tables" "keeps_commits demo_db" "db_good demo_db"
  by (simp_all add: demo_db_def codec_ok_def keeps_commits_def db_good_def empty_rows(1))

definition demo_trigger :: PipelineTriggerRequest where
  "demo_trigger = \<lparr>rq_name = ''build'', rq_stages = [\<lparr>ss_name = ''test'', ss_jobs = [\<lparr>js_name = ''unit'', js_duration_ms = 10, js_should_fail = False\<rparr>]\<rparr>],
     rq_idempotency_key = Some ''k'', rq_auto_start = True, rq_variables = []\<rparr>"

fun calls_in :: "pl_request \<Rightarrow> nat" where
  "calls_in (Call _) = 1"
| "calls_in (ResetRequest cs) = length cs"
| "calls_in RestartRequest = 0"

lemma serve_all_few: "id_count (ps_env (pl_serve_all port digest cs s)) \<le> id_count (ps_env s) + length cs"
proof (induction cs arbitrary: s)
  case (Cons c cs)
  from order_trans [OF Cons.IH [of "pl_serve port digest c s"]] show ?case
    using serve_draws [of s port digest c] by (simp add: pl_serve_all_def)
qed (simp add: pl_serve_all_def)

lemma handle_few: "id_count (ps_env (pl_handle port digest r s)) \<le> id_count (ps_env s) + calls_in r"
proof (cases r)
  case (ResetRequest cs)
  obtain x t where x: "reset_close port s = (x, t)" by (cases "reset_close port s")
  have "id_count (ps_env t) = id_count (ps_env s)"
    using penv.stepsD [OF penv_reset(1) [of port], of s] by (simp add: x env_later_def)
  moreover have "id_count (ps_env (snd (reset_clear port u))) = id_count (ps_env u)" for u
    using penv.stepsD [OF penv_reset(2) [of port], of u] by (simp add: env_later_def)
  ultimately show ?thesis using serve_all_few [of port digest cs t] by (simp add: ResetRequest x split: sum.split)
qed (simp_all add: serve_draws new_pipelines_def)

lemma history_few: "id_count (ps_env (pl_history port digest rs s)) \<le> id_count (ps_env s) + sum_list (map calls_in rs)"
proof (induction rs arbitrary: s)
  case (Cons r rs)
  from order_trans [OF Cons.IH [of "pl_handle port digest r s"]] show ?case
    using handle_few [of port digest r s] by simp
qed simp

lemma history_env: "env_le (ps_env s) (ps_env (pl_history port digest rs s))"
proof (induction rs arbitrary: s)
  case (Cons r rs)
  from env_le_trans [OF handle_env Cons.IH] show ?case by simp
qed simp

lemma demo_pipelines_fair:
  "sum_list (map calls_in rs) < 1000 \<Longrightarrow> env_ok (ps_env (start_pipelines demo_env port db digest rs))"
  using history_few [of port digest rs "new_pipelines demo_env port db"]
    history_env [of "new_pipelines demo_env port db" port digest rs]
  unfolding start_pipelines_def by (intro demo_fair) (simp_all add: new_pipelines_def, simp add: demo_env_def)

section \<open>Properties\<close>

text \<open>C32: In every history of calls, executor sections, resets and restarts, in memory or over the
  database, whatever transactions fail: the stored dicts name each run once and under its own id,
  every trigger key and every delivered event belongs to a run, the per-run tables cover exactly
  the runs, each run's statuses fit together and carry the timestamps they need, the two events
  of an open service tell which runs have ended, and each executor continues at a place that
  exists in its run.\<close>

theorem pipeline_histories_sound:
  assumes "backend_ok port db" "env_ok (ps_env (start_pipelines e port db digest rs))"
  shows "pipelines_sound (start_pipelines e port db digest rs)"
  using assms
proof (cases rule: start_cases)
  case Memory
  show ?thesis by (rule memory_host.pl_ok_sound [OF Memory(2)])
next
  case Database
  show ?thesis by (rule sqlalchemy_host.pl_ok_sound [OF Database(2)])
qed

definition demo_calls :: "pl_request list" where
  "demo_calls = [Call (TriggerCall demo_trigger), Call (ExecutorCall (str_of_uuid 0)), RestartRequest, Call InitializeCall]"

theorem pipeline_histories_sound_witness:
  "pipelines_sound (start_pipelines demo_env (Some sqlalchemy_persistence) demo_db (\<lambda>_. ''d'') demo_calls)"
  by (rule pipeline_histories_sound [OF _ demo_pipelines_fair])
    (simp_all add: backend_ok_def demo_db_ok demo_calls_def)

text \<open>C33: Across any call no run is lost, its plan and its identity stay, each status of its tree stays or
  moves along the lifecycle, what has ended never changes again, not even its timestamps or its
  message, and no trigger key and no delivered event is forgotten or reassigned.\<close>

theorem pipeline_runs_evolve:
  assumes "backend_ok port db" "env_ok (ps_env (start_pipelines e port db digest (rs @ [Call c])))"
  defines "s \<equiv> start_pipelines e port db digest rs" and "t \<equiv> start_pipelines e port db digest (rs @ [Call c])"
  shows "grows (memory_state s) (memory_state t) \<and>
    (\<forall>i r p. map_of (ps_runs s) i = Some r \<and> p \<in> places r \<and> p_terminal (status_at p r) \<longrightarrow>
      (\<exists>r'. map_of (ps_runs t) i = Some r' \<and> progress_at p r' = progress_at p r))"
proof -
  have t: "t = pl_serve port digest c s" by (simp add: s_def t_def start_pipelines_def)
  have env: "env_ok (ps_env (pl_serve port digest c s))" using assms(2) by (simp add: t [unfolded t_def])
  have ok: "env_ok (ps_env s)" using env env_ok_mono serve_env by blast
  have grows: "grows (memory_state s) (memory_state t)"
    unfolding t s_def by (rule call_grows [OF assms(1) ok [unfolded s_def] env [unfolded s_def]])
  show ?thesis
  proof (intro conjI grows allI impI)
    fix i r p assume r: "map_of (ps_runs s) i = Some r \<and> p \<in> places r \<and> p_terminal (status_at p r)"
    have "map_of (dr_runs (memory_state s)) i = Some r" using r by (simp add: memory_state_def)
    from grows_run [OF grows this] obtain r' where "map_of (dr_runs (memory_state t)) i = Some r'" "run_evolves r r'" by blast
    then show "\<exists>r'. map_of (ps_runs t) i = Some r' \<and> progress_at p r' = progress_at p r"
      using r run_evolves_terminal [of r r' p] by (simp add: memory_state_def)
  qed
qed

theorem pipeline_runs_evolve_witness:
  "grows (memory_state (start_pipelines demo_env (Some sqlalchemy_persistence) demo_db (\<lambda>_. ''d'') demo_calls))
    (memory_state (start_pipelines demo_env (Some sqlalchemy_persistence) demo_db (\<lambda>_. ''d'') (demo_calls @ [Call ShutdownCall])))"
  by (rule pipeline_runs_evolve [THEN conjunct1, OF _ demo_pipelines_fair])
    (simp_all add: backend_ok_def demo_db_ok demo_calls_def)

text \<open>C34: A callback is delivered once or not at all: on an open service, one that raises (bad target, bad
  transition, storage failure) leaves runs, trigger keys and delivered events as they were; one
  that returns either repeats an event with the same fingerprint and changes nothing, or replaces
  the one run, records the event under its fingerprint, and touches no other run, key or event.\<close>

theorem pipeline_callback_atomic:
  assumes "backend_ok port db" "env_ok (ps_env (start_pipelines e port db digest rs))"
  defines "s \<equiv> start_pipelines e port db digest rs"
  assumes "ps_initialized s" "\<not> ps_closed s" "apply_callback port digest i c s = (x, t)"
  shows "case x of
      Inl _ \<Rightarrow> same_state (memory_state t) (memory_state s)
    | Inr k \<Rightarrow> (case events_in (memory_state s) i (cb_event_id c) of
          Some fp \<Rightarrow> fp = digest (json_dumps (callback_value c)) \<and> t = s \<and> kr_duplicate k
        | None \<Rightarrow> \<not> kr_duplicate k \<and> callback_applied i (cb_event_id c)
            (digest (json_dumps (callback_value c))) (kr_pipeline k) (memory_state s) (memory_state t))"
  using assms(1,2)
proof (cases rule: start_cases)
  case Memory
  show ?thesis
    unfolding s_def by (rule memory_host.callback_effect [OF Memory(2), where digest = digest and i = i and c = c])
      (use assms(4-6) in \<open>simp_all add: s_def Memory(1)\<close>)
next
  case Database
  show ?thesis
    unfolding s_def by (rule sqlalchemy_host.callback_effect [OF Database(2), where digest = digest and i = i and c = c])
      (use assms(4-6) in \<open>simp_all add: s_def Database(1)\<close>)
qed

definition demo_started :: "PipelineRun pipeline_db pipelines" where
  "demo_started = start_pipelines demo_env None demo_db (\<lambda>_. ''d'') [Call (TriggerCall demo_trigger)]"

definition demo_callback :: PipelineCallbackRequest where
  "demo_callback = \<lparr>cb_event_id = ''e'', cb_target = TargetJob, cb_status = PSucceeded, cb_stage_name = Some ''test'',
     cb_job_name = Some ''unit'', cb_message = None\<rparr>"

lemma demo_started_open: "ps_initialized demo_started" "\<not> ps_closed demo_started"
  "fst ` set (ps_runs demo_started) = {str_of_uuid 0}"
  by (simp_all add: demo_started_def start_pipelines_def pl_history_def trigger_def trigger_new_def initialize_locked_def ensure_open_def
    new_pipelines_def run_simps pl_new_id_def pl_now_def checkpoint_def synchronize_events_def demo_trigger_def Let_def demo_env_def)

lemma demo_memory: "backend_ok None db"
  by (simp add: backend_ok_def)

lemma demo_event: "cb_event_id demo_callback = ''e''"
  by (simp add: demo_callback_def)

lemma demo_started_fair: "env_ok (ps_env demo_started)"
  unfolding demo_started_def by (rule demo_pipelines_fair) simp

theorem pipeline_callback_atomic_witness:
  "case fst (apply_callback None (\<lambda>_. ''d'') (str_of_uuid 0) demo_callback demo_started) of
      Inl _ \<Rightarrow> same_state (memory_state (snd (apply_callback None (\<lambda>_. ''d'') (str_of_uuid 0) demo_callback demo_started)))
        (memory_state demo_started)
    | Inr k \<Rightarrow> (case events_in (memory_state demo_started) (str_of_uuid 0) ''e'' of
          Some fp \<Rightarrow> fp = ''d'' \<and> snd (apply_callback None (\<lambda>_. ''d'') (str_of_uuid 0) demo_callback demo_started) = demo_started \<and>
            kr_duplicate k
        | None \<Rightarrow> \<not> kr_duplicate k \<and> callback_applied (str_of_uuid 0) ''e'' ''d'' (kr_pipeline k) (memory_state demo_started)
            (memory_state (snd (apply_callback None (\<lambda>_. ''d'') (str_of_uuid 0) demo_callback demo_started))))"
  using pipeline_callback_atomic [of None demo_db demo_env "\<lambda>_. ''d''" "[Call (TriggerCall demo_trigger)]"
      "str_of_uuid 0" demo_callback, folded demo_started_def, OF demo_memory demo_started_fair demo_started_open(1,2) prod.collapse [symmetric]]
  unfolding demo_event .

text \<open>C35: Loading after saving: on both adapters, a load that returns after a save gives the saved state as
  dicts, or, only when the save raised, the state a load had given before it.\<close>

theorem persistence_load_after_save:
  assumes "storable d" "db_good db" "db_good (sq_db file)"
  shows "(\<forall>d0 db0 x db1 e db2. sqlalchemy_load db = (Inr d0, db0) \<and> sqlalchemy_save d db0 = (x, db1) \<and> sqlalchemy_load db1 = (Inr e, db2) \<longrightarrow>
      same_state e d \<or> (\<exists>error. x = Inl error) \<and> same_state e d0) \<and>
    (\<forall>d0 file0 x file1 e file2. sqlite_load file = (Inr d0, file0) \<and> sqlite_save d file0 = (x, file1) \<and> sqlite_load file1 = (Inr e, file2) \<longrightarrow>
      same_state e d \<or> (\<exists>error. x = Inl error) \<and> same_state e d0)"
  using sqlalchemy.load_save_load [OF assms(2,1)] sqlite.load_save_load [OF assms(3,1)]
  unfolding sqlalchemy_persistence_def sqlite_persistence_def PipelinePersistence.simps by blast

definition demo_state :: PipelinePersistenceState where
  "demo_state = \<lparr>dr_runs = [(''r'', queued_run demo_trigger ''r'' 0)], dr_trigger_keys = [(''k'', (''r'', ''f''))],
     dr_callback_events = [(''r'', [(''e'', ''g'')])]\<rparr>"

definition demo_file :: "PipelineRun sqlite_file" where
  "demo_file = \<lparr>sq_db = demo_db, sq_schema = False, sq_initialize_schema = True, sq_missing_table_message = ''no such table''\<rparr>"

lemma demo_state_storable: "storable demo_state"
  by (simp add: demo_state_def storable_def queued_run_def)

lemmas demo_store = sqlalchemy_load_def sqlalchemy_save_def sqlite_load_def sqlite_save_def sqlite_call_def transaction_def Let_def
  load_state_def replace_tables_def constraint_error_def constraints_hold_def tables_of_def selected_def dict_of_def decode_run_def put_event_def

lemma demo_saved:
  "\<exists>d0 db0 db1 e db2. sqlalchemy_load demo_db = (Inr d0, db0) \<and> sqlalchemy_save demo_state db0 = (Inr (), db1) \<and> sqlalchemy_load db1 = (Inr e, db2)"
  "\<exists>d0 db0 db1 e db2. sqlite_load demo_file = (Inr d0, db0) \<and> sqlite_save demo_state db0 = (Inr (), db1) \<and> sqlite_load db1 = (Inr e, db2)"
  by (simp_all add: demo_store demo_file_def demo_db_def demo_state_def empty_tables_def queued_run_def bind_sum_def)

theorem persistence_load_after_save_witness:
  "(\<exists>d0 db0 db1 e db2. sqlalchemy_load demo_db = (Inr d0, db0) \<and> sqlalchemy_save demo_state db0 = (Inr (), db1) \<and>
      sqlalchemy_load db1 = (Inr e, db2) \<and> same_state e demo_state) \<and>
   (\<exists>d0 db0 db1 e db2. sqlite_load demo_file = (Inr d0, db0) \<and> sqlite_save demo_state db0 = (Inr (), db1) \<and>
      sqlite_load db1 = (Inr e, db2) \<and> same_state e demo_state)"
proof -
  have "db_good (sq_db demo_file)" by (simp add: demo_file_def demo_db_ok)
  from persistence_load_after_save [OF demo_state_storable demo_db_ok(4) this] show ?thesis
    using demo_saved by (metis sum.distinct(1))
qed

end
