(* ===== verification/Pipeline_Termination.thy ===== *)
theory Pipeline_Termination
  imports Pipeline_Properties
begin

text \<open>
  An executor ends: each of its sections leaves it fewer sections to go, and nothing else brings a
  task back. Each job takes three sections at most, each stage two more, the run three.
\<close>

section \<open>Sections to go\<close>

definition sections_from :: "PipelineRun \<Rightarrow> nat \<Rightarrow> nat" where
  "sections_from r i = 2 + (\<Sum>k \<in> {i..<length (pl_stages r)}. 3 * length (stage_jobs r k) + 2)"

fun sections_left :: "PipelineRun \<Rightarrow> executor \<Rightarrow> nat" where
  "sections_left r ExecBegin = Suc (sections_from r 0)"
| "sections_left r (ExecStage n i) = sections_from r i"
| "sections_left r (ExecJob n i m j) = 3 * (m - j) + 1 + sections_from r (Suc i)"
| "sections_left r (ExecWait n i m j) = 3 * (m - j) + sections_from r (Suc i)"
| "sections_left r (ExecJobDone n i m j) = 3 * (m - j) - 1 + sections_from r (Suc i)"
| "sections_left r (ExecStageDone n i) = Suc (sections_from r (Suc i))"
| "sections_left r ExecEnd = 2"
| "sections_left r (ExecRecover message) = 1"

lemma sections_from_step:
  "i < length (pl_stages r) \<Longrightarrow> sections_from r i = 3 * length (stage_jobs r i) + 2 + sections_from r (Suc i)"
  by (simp add: sections_from_def sum.atLeast_Suc_lessThan)

lemma sections_from_end: "length (pl_stages r) \<le> i \<Longrightarrow> sections_from r i = 2"
  by (simp add: sections_from_def)

lemma sections_from_least: "2 \<le> sections_from r i"
  by (simp add: sections_from_def)

lemma sections_plan:
  assumes "plan_of t = plan_of r"
  shows "sections_left t pc = sections_left r pc"
proof -
  have "sections_from t = sections_from r"
    using plan_stages [OF assms] plan_jobs [OF assms] by (simp add: sections_from_def fun_eq_iff)
  then show ?thesis by (cases pc) simp_all
qed

lemma next_stage_shorter:
  "pc_ready (ExecStageDone n i) r \<Longrightarrow> sections_left r (next_stage n i) = sections_from r (Suc i)"
  by (simp add: next_stage_def sections_from_end)

lemma next_job_shorter:
  "j < m \<Longrightarrow> Suc (Suc (sections_left r (next_job n i m j))) \<le> 3 * (m - j) + sections_from r (Suc i)"
  by (auto simp: next_job_def Suc_diff_Suc [symmetric])

abbreviation shorter :: "PipelineRun \<Rightarrow> executor \<Rightarrow> executor option \<Rightarrow> 'p pipelines \<Rightarrow> bool" where
  "shorter r pc \<equiv> \<lambda>next _. \<forall>pc'. next = Some pc' \<longrightarrow> sections_left r pc' < sections_left r pc"

lemma wp_whatever: "(\<And>x t. wp (k x) Q (\<lambda>_ _. True) t) \<Longrightarrow> wp (andThen m k) Q (\<lambda>_ _. True) s"
  by (simp add: wp_andThen) (simp add: wp_def split: sum.splits prod.splits)

lemma wp_while_shorter:
  "map_of (ps_runs s) i = Some r \<Longrightarrow> wp (k r) (shorter r pc) (\<lambda>_ _. True) s \<Longrightarrow>
   wp (while_running i k) (shorter r pc) (\<lambda>_ _. True) s"
  unfolding while_running_def by (intro wp_andThenI memory_host.wp_require_run wp_ifI wp_retI) auto

lemma section_shorter:
  assumes r: "map_of (ps_runs s) i = Some r" "ps_initialized s" and pc: "pc_ready pc r"
  shows "wp (execute_section port i pc) (shorter r pc) (\<lambda>_ _. True) s"
proof (cases pc)
  case ExecBegin
  have "initialize_locked port s = (Inr (), s)" using r(2) by (simp add: initialize_locked_def run_simps)
  then show ?thesis
    unfolding ExecBegin execute_section.simps Let_def
    by (intro wp_andThenI [of "initialize_locked port"], simp add: wp_run)
      (intro wp_andThenI [of "require_run i"] memory_host.wp_require_run wp_ifI wp_whatever wp_retI,
        auto simp: r(1) sections_from_end)
next
  case (ExecStage n k)
  then show ?thesis
    using pc sections_from_step [of k r] next_stage_shorter [of n k r]
    unfolding ExecStage execute_section.simps Let_def
    by (intro wp_while_shorter r wp_ifI wp_whatever wp_retI) auto
next
  case (ExecJob n k m j)
  then show ?thesis
    using pc next_job_shorter [of j m r n k]
    unfolding ExecJob execute_section.simps
    by (intro wp_while_shorter r wp_ifI wp_whatever wp_retI) auto
next
  case (ExecWait n k m j)
  then show ?thesis
    using pc unfolding ExecWait execute_section.simps
    by (intro wp_whatever wp_retI) auto
next
  case (ExecJobDone n k m j)
  then show ?thesis
    using pc next_job_shorter [of j m r n k]
    unfolding ExecJobDone execute_section.simps
    by (intro wp_while_shorter r wp_ifI wp_whatever wp_retI) auto
next
  case (ExecStageDone n k)
  then show ?thesis
    using pc next_stage_shorter [of n k r]
    unfolding ExecStageDone execute_section.simps
    by (intro wp_while_shorter r wp_whatever wp_retI) auto
next
  case ExecEnd
  then show ?thesis
    unfolding ExecEnd execute_section.simps by (intro wp_while_shorter r wp_whatever wp_retI) auto
next
  case (ExecRecover message)
  then show ?thesis
    unfolding ExecRecover execute_section.simps
    by (intro wp_andThenI [of "reads f" for f] wp_readsI wp_caseI wp_ifI wp_whatever wp_retI) auto
qed

lemma sections_left_handled: "(\<And>message. pc \<noteq> ExecRecover message) \<Longrightarrow> 1 < sections_left r pc"
proof (cases pc)
  case ExecBegin
  then show ?thesis using sections_from_least [of r 0] by simp
next
  case (ExecStage n i)
  then show ?thesis using sections_from_least [of r i] by simp
next
  case (ExecJob n i m j)
  then show ?thesis using sections_from_least [of r "Suc i"] by simp
next
  case (ExecWait n i m j)
  then show ?thesis using sections_from_least [of r "Suc i"] by simp
next
  case (ExecJobDone n i m j)
  then show ?thesis using sections_from_least [of r "Suc i"] by simp
next
  case (ExecStageDone n i)
  then show ?thesis using sections_from_least [of r "Suc i"] by simp
qed (simp_all, blast)

lemma sections_from_mono: "i \<le> j \<Longrightarrow> sections_from r j \<le> sections_from r i"
  unfolding sections_from_def by (intro add_left_mono sum_mono2) auto

lemma sections_from_stage:
  "i < length (pl_stages r) \<Longrightarrow> 3 * length (stage_jobs r i) + 2 + sections_from r (Suc i) \<le> sections_from r 0"
  using sections_from_step [of i r] sections_from_mono [of 0 i r] by simp

lemma sections_left_most: "pc_ready pc r \<Longrightarrow> sections_left r pc \<le> sections_left r ExecBegin"
  using sections_from_least [of r 0] sections_from_mono [of 0 _ r]
  by (cases pc) (auto simp: le_SucI dest!: sections_from_stage)

lemma after_shorter:
  assumes "\<And>pc'. x = Inr (Some pc') \<Longrightarrow> sections_left r pc' < sections_left r pc" "after_section pc x = Some pc'"
  shows "sections_left r pc' < sections_left r pc"
proof (cases x)
  case (Inl e)
  then have "sections_left r pc' = 1" "sections_left r pc > 1"
    using assms(2) sections_left_handled [of pc r] by (auto simp: after_section_def split: executor.splits)
  then show ?thesis by simp
qed (use assms in \<open>simp add: after_section_def\<close>)

section \<open>What a trigger leaves alone\<close>

text \<open>
  Programs that keep a relation for an identifier that has been drawn: a trigger draws another
  one. \<open>starts_new i m\<close> is \<open>steps m\<close> where \<open>i\<close> is drawn and identifiers are distinct.
\<close>

locale pipeline_steps = stepwise R for R :: "'p pipelines \<Rightarrow> 'p pipelines \<Rightarrow> bool" +
  assumes draw: "R s (s\<lparr>ps_env := e\<rparr>)"
begin

lemma steps_attempt [steps_intros]: "steps m \<Longrightarrow> steps (attempt m)"
  unfolding steps_def attempt_def by (auto split: prod.split) (metis snd_conv)

lemma steps_sum [steps_intros]:
  "(\<And>e. steps (f e)) \<Longrightarrow> (\<And>x. steps (g x)) \<Longrightarrow> steps (case r of Inl e \<Rightarrow> f e | Inr x \<Rightarrow> g x)"
  by (cases r) simp_all

lemma steps_draws [steps_intros]: "steps pl_now" "steps pl_new_id"
  by (simp_all add: steps_def pl_now_def pl_new_id_def draw)

lemma steps_guards [steps_intros]: "steps (require_run j)" "steps ensure_open"
  unfolding require_run_def ensure_open_def by (intro steps_intros)+

definition starts_new :: "text_t \<Rightarrow> ('p, 'a) pl_op \<Rightarrow> bool" where
  "starts_new i m \<longleftrightarrow> (\<forall>s. i \<in> drawn_ids (ps_env s) \<longrightarrow> env_ok (ps_env (snd (m s))) \<longrightarrow> R s (snd (m s)))"

lemma starts_none: "steps m \<Longrightarrow> starts_new i m"
  by (simp add: starts_new_def steps_def)

lemma starts_later:
  assumes m: "penv.steps m" "steps m" and k: "\<And>x. starts_new i (k x)"
  shows "starts_new i (andThen m k)"
  unfolding starts_new_def
proof (intro allI impI)
  fix s assume i: "i \<in> drawn_ids (ps_env s)" and ok: "env_ok (ps_env (snd (andThen m k s)))"
  obtain x t where x: "m s = (x, t)" by fastforce
  have t: "i \<in> drawn_ids (ps_env t)" "R s t"
    using penv.stepsD [OF m(1), of s] stepsD [OF m(2), of s] i drawn_mono by (auto simp: x env_later_def)
  show "R s (snd (andThen m k s))"
    using k t ok trans by (cases x) (auto simp: run_andThen x starts_new_def)
qed

lemma starts_first:
  assumes "\<And>x. penv.steps (k x)" "\<And>j. j \<noteq> i \<Longrightarrow> steps (k j)"
  shows "starts_new i (andThen pl_new_id k)"
  unfolding starts_new_def
proof (intro allI impI)
  fix s assume i: "i \<in> drawn_ids (ps_env s)" and ok: "env_ok (ps_env (snd (andThen pl_new_id k s)))"
  let ?e = "(ps_env s)\<lparr>id_count := Suc (id_count (ps_env s))\<rparr>"
  let ?j = "str_of_uuid (id_at (ps_env s) (id_count (ps_env s)))"
  have final: "snd (andThen pl_new_id k s) = snd (k ?j (s\<lparr>ps_env := ?e\<rparr>))" by (simp add: andThen_def pl_new_id_def)
  have "env_le ?e (ps_env (snd (k ?j (s\<lparr>ps_env := ?e\<rparr>))))"
    using penv.stepsD [OF assms(1), of "s\<lparr>ps_env := ?e\<rparr>"] by (simp add: env_later_def)
  then have "env_ok ?e" using ok unfolding final by (rule env_ok_mono [rotated])
  then have "?j \<noteq> i" using fresh_id [of "ps_env s"] i by blast
  from trans [OF draw stepsD [OF assms(2) [OF this], of "s\<lparr>ps_env := ?e\<rparr>"]]
  show "R s (snd (andThen pl_new_id k s))" by (simp add: final)
qed

text \<open>\<open>trigger\<close>, for a relation that its parts keep.\<close>

lemma starts_trigger:
  assumes "steps (initialize_locked port)" "steps (checkpoint port)"
    and "\<And>j r keys. j \<noteq> i \<Longrightarrow> steps (writes (\<lambda>s. s\<lparr>ps_runs := AList.update j r (ps_runs s),
       ps_callback_events := AList.update j [] (ps_callback_events s), ps_cancel_events := AList.update j False (ps_cancel_events s),
       ps_completion_events := AList.update j False (ps_completion_events s), ps_trigger_keys := keys s\<rparr>) :: ('p, unit) pl_op)"
    and "\<And>j. j \<noteq> i \<Longrightarrow> steps (writes (ps_tasks_update (AList.update j ExecBegin)) :: ('p, unit) pl_op)"
  shows "starts_new i (trigger port digest request)"
  unfolding trigger_def Let_def
proof (intro starts_later steps_intros assms(1))
  fix previous
  show "starts_new i (case previous of
        Some entry \<Rightarrow>
          andThen (ensure (snd entry = digest (json_dumps (trigger_value request)))
            (PipelineIdempotencyConflictError ''idempotency key was reused with a different request'')) (\<lambda>_.
          andThen (reads (\<lambda>s. map_of (ps_runs s) (fst entry))) (\<lambda>found.
          andThen (from_option (PipelineKeyError (fst entry)) found) (\<lambda>run.
          ret \<lparr>tr_pipeline = run, tr_replayed = True\<rparr>)))
      | None \<Rightarrow> trigger_new port request (digest (json_dumps (trigger_value request))))"
  proof (cases previous)
    case None
    show ?thesis
      unfolding None option.case trigger_new_def Let_def
      apply (rule starts_first)
      apply (intro steps_intros penv_writes; simp)
      apply (intro steps_intros assms)
      apply simp_all
      done
  next
    case (Some entry)
    show ?thesis unfolding Some option.case by (intro starts_none steps_intros)
  qed
qed

end

section \<open>The task of one run\<close>

interpretation task_at: pipeline_steps "\<lambda>s (t :: 'p pipelines). map_of (ps_tasks t) i = map_of (ps_tasks s) i" for i
  by unfold_locales auto

lemma task_writes: "(\<And>s. map_of (ps_tasks (f s)) i = map_of (ps_tasks s) i) \<Longrightarrow> task_at.steps i (writes f)"
  by (rule task_at.steps_writes)

lemma task_edit [steps_intros]: "task_at.steps i (edit_run j m)"
  by (auto simp: task_at.steps_def edit_run_def split: option.split prod.split)

lemma task_on_store [steps_intros]: "task_at.steps i (on_store m)"
  by (auto simp: task_at.steps_def on_store_def split: prod.splits)

lemma task_checkpoint [steps_intros]: "task_at.steps i (checkpoint port)"
  unfolding checkpoint_def synchronize_events_def restore_state_def
  by (intro steps_intros task_writes) simp_all

lemma task_initialize [steps_intros]: "task_at.steps i (initialize_locked port)"
  unfolding initialize_locked_def restore_state_def by (intro steps_intros task_writes) simp_all

lemma task_checked [steps_intros]: "task_at.steps i (edit_checked port j m)"
  unfolding edit_checked_def by (intro steps_intros)

lemma task_section [steps_intros]: "task_at.steps i (execute_section port j pc)"
  by (cases pc) (simp_all add: while_running_def, (intro steps_intros)+)

lemma task_calls:
  "task_at.steps i (get_run port j)" "task_at.steps i (list_runs port)"
  "task_at.steps i (cancel_run port j)" "task_at.steps i (apply_callback port digest j c)" "task_at.steps i (look_terminal port j)"
  unfolding get_run_def list_runs_def cancel_run_def apply_callback_def look_terminal_def
  by (intro steps_intros task_writes; simp)+

lemma task_other: "j \<noteq> i \<Longrightarrow> task_at.steps i (execute_step port j)"
  unfolding execute_step_def by (intro steps_intros task_writes) (simp_all add: update_conv' delete_conv')

lemma task_gone: "map_of (ps_tasks s) i = None \<Longrightarrow> execute_step port i s = (Inr (), s)"
  by (simp add: execute_step_def run_simps)

lemma task_trigger: "task_at.starts_new i i (trigger port digest request)"
  by (intro task_at.starts_trigger steps_intros task_writes) (simp_all add: update_conv')

lemma shutdown_tasks: "map_of (ps_tasks (snd (shutdown port s))) i \<in> {None, map_of (ps_tasks s) i}"
proof -
  have "task_at.steps i (andThen (initialize_locked port) (\<lambda>_.
     andThen (writes (ps_closed_update (\<lambda>_. True))) (\<lambda>_.
     andThen (reads (\<lambda>s. map fst (ps_runs s))) (\<lambda>ids.
     andThen (for_each (\<lambda>run_id. edit_run run_id shut_run) ids) (\<lambda>_. checkpoint port)))))"
    by (intro steps_intros task_writes) simp
  from task_at.stepsD [OF this, of s] show ?thesis
    by (auto simp: shutdown_def run_andThen run_writes run_reads split: sum.splits prod.splits)
qed

lemma serve_other:
  assumes "c \<noteq> ExecutorCall i \<or> map_of (ps_tasks s) i = None" "i \<in> drawn_ids (ps_env s)"
    and "env_ok (ps_env (pl_serve port digest c s))"
  shows "map_of (ps_tasks (pl_serve port digest c s)) i \<in> {None, map_of (ps_tasks s) i}"
proof (cases c)
  case (TriggerCall request)
  then show ?thesis using task_trigger [of i port digest request] assms by (simp add: task_at.starts_new_def)
next
  case (ExecutorCall j)
  then show ?thesis
    using assms(1) task_gone [of s i port] task_at.stepsD [OF task_other [of j i port], of s] by (cases "j = i") auto
next
  case ShutdownCall
  then show ?thesis using shutdown_tasks [of port s i] by simp
qed (simp_all add: task_calls [THEN task_at.stepsD] task_initialize [THEN task_at.stepsD])

lemma serve_all_gone:
  assumes "map_of (ps_tasks s) i = None" "i \<in> drawn_ids (ps_env s)" "env_ok (ps_env (pl_serve_all port digest cs s))"
  shows "map_of (ps_tasks (pl_serve_all port digest cs s)) i = None"
  using assms
proof (induction cs arbitrary: s)
  case (Cons c cs)
  let ?t = "pl_serve port digest c s"
  have u: "pl_serve_all port digest (c # cs) s = pl_serve_all port digest cs ?t" by (simp add: pl_serve_all_def)
  have "env_ok (ps_env ?t)" using Cons.prems(3) serve_all_env env_ok_mono unfolding u by blast
  then have "map_of (ps_tasks ?t) i = None" using serve_other [of c i s port digest] Cons.prems(1,2) by auto
  moreover have "i \<in> drawn_ids (ps_env ?t)" using Cons.prems(2) drawn_mono [OF serve_env] by blast
  ultimately show ?case using Cons.IH [of ?t] Cons.prems(3) unfolding u by blast
qed (simp add: pl_serve_all_def)

lemma reset_close_tasks: "map_of (ps_tasks (snd (reset_close port s))) i \<in> {None, map_of (ps_tasks s) i}"
  using task_at.stepsD [OF task_initialize [of i port], of s]
  by (auto simp: reset_close_def run_andThen run_writes split: sum.splits prod.splits)

lemma reset_closed_tasks: "reset_close port s = (Inr x, t) \<Longrightarrow> ps_tasks t = []"
  by (auto simp: reset_close_def run_andThen run_writes split: sum.splits prod.splits)

lemma reset_clear_gone: "map_of (ps_tasks (snd (reset_clear port s))) i = None"
  by (auto simp: reset_clear_def run_andThen run_writes on_store_def ret_def split: sum.splits prod.splits option.splits)

section \<open>Sections to go over a history\<close>

definition ending :: "text_t \<Rightarrow> PipelineRun \<Rightarrow> nat \<Rightarrow> 'p pipelines \<Rightarrow> bool" where
  "ending i r b s \<longleftrightarrow> i \<in> drawn_ids (ps_env s) \<and> (\<forall>pc. map_of (ps_tasks s) i = Some pc \<longrightarrow>
     sections_left r pc \<le> b \<and> (\<exists>t. map_of (ps_runs s) i = Some t \<and> plan_of t = plan_of r))"

definition sections_in :: "text_t \<Rightarrow> pl_request list \<Rightarrow> nat" where
  "sections_in i rs = count_list rs (Call (ExecutorCall i))"

lemma ending_gone: "i \<in> drawn_ids (ps_env s) \<Longrightarrow> map_of (ps_tasks s) i = None \<Longrightarrow> ending i r b s"
  by (simp add: ending_def)

lemma ending_over: "ending i r 0 s \<Longrightarrow> map_of (ps_tasks s) i = None"
proof (rule ccontr)
  assume "ending i r 0 s" "map_of (ps_tasks s) i \<noteq> None"
  then obtain pc where "sections_left r pc = 0" by (auto simp: ending_def)
  then show False using sections_left_handled [of pc r] by (cases pc) auto
qed

context pipeline_host
begin

lemma execute_step_shorter:
  assumes "pipelines_inv s" "map_of (ps_tasks s) i = Some pc" "map_of (ps_runs s) i = Some r"
    and "map_of (ps_tasks (snd (execute_step port i s))) i = Some pc'"
  shows "sections_left r pc' < sections_left r pc"
proof -
  obtain x t where x: "execute_section port i pc s = (x, t)" by (cases "execute_section port i pc s")
  have init: "ps_initialized s" using assms(1,2) by (auto simp: pipelines_inv_def)
  have ready: "pc_ready pc r" by (rule during_run(5) [OF during_start [OF assms(1) init] assms(3,2)])
  have after: "after_section pc x = Some pc'"
    using assms(4) by (auto simp: execute_step_def run_simps assms(2) attempt_def x update_conv' delete_conv' split: option.splits)
  show ?thesis
  proof (rule after_shorter [OF _ after])
    show "sections_left r pc'' < sections_left r pc" if "x = Inr (Some pc'')" for pc''
      using section_shorter [OF assms(3) init ready, of port] that by (simp add: wp_def x)
  qed
qed

lemma ending_serve:
  assumes s: "pl_ok s" and env: "env_ok (ps_env (pl_serve port digest c s))" and e: "ending i r b s"
  shows "ending i r (b - (if c = ExecutorCall i then 1 else 0)) (pl_serve port digest c s)"
  unfolding ending_def
proof (intro conjI allI impI)
  let ?t = "pl_serve port digest c s"
  have i: "i \<in> drawn_ids (ps_env s)" using e by (simp add: ending_def)
  then show "i \<in> drawn_ids (ps_env ?t)" using drawn_mono [OF serve_env] by blast
  fix pc' assume pc': "map_of (ps_tasks ?t) i = Some pc'"
  have task: "map_of (ps_tasks s) i \<noteq> None" using serve_other [OF _ i env] pc' by fastforce
  then obtain pc u where pc: "map_of (ps_tasks s) i = Some pc" "sections_left r pc \<le> b"
    and u: "map_of (ps_runs s) i = Some u" "plan_of u = plan_of r"
    using e by (auto simp: ending_def)
  have "map_of (dr_runs (mem s)) i = Some u" using u by (simp add: memory_state_def)
  from grows_run [OF host_grows [OF s env] this]
  show "\<exists>t. map_of (ps_runs ?t) i = Some t \<and> plan_of t = plan_of r"
    using u(2) by (auto simp: memory_state_def run_evolves_def)
  show "sections_left r pc' \<le> b - (if c = ExecutorCall i then 1 else 0)"
  proof (cases "c = ExecutorCall i")
    case True
    have "sections_left u pc' < sections_left u pc"
      using execute_step_shorter [OF _ pc(1) u(1)] s pc' by (simp add: True pl_ok_def)
    then show ?thesis using pc(2) sections_plan [OF u(2)] True by simp
  next
    case False
    then show ?thesis using serve_other [OF _ i env] pc pc' by fastforce
  qed
qed

lemma ending_handle:
  assumes s: "pl_ok s" and env: "env_ok (ps_env (pl_handle port digest q s))" and e: "ending i r b s"
  shows "ending i r (b - (if q = Call (ExecutorCall i) then 1 else 0)) (pl_handle port digest q s)"
proof (cases q)
  case (Call c)
  then show ?thesis using ending_serve [OF s _ e, of digest c] env by simp
next
  case RestartRequest
  then show ?thesis using e by (simp add: ending_def new_pipelines_def)
next
  case (ResetRequest cs)
  have i: "i \<in> drawn_ids (ps_env s)" using e by (simp add: ending_def)
  have drawn: "i \<in> drawn_ids (ps_env (pl_handle port digest q s))" using i drawn_mono [OF handle_env] by blast
  obtain x t where x: "reset_close port s = (x, t)" by (cases "reset_close port s")
  have "map_of (ps_tasks (pl_handle port digest q s)) i = None"
  proof (cases x)
    case (Inl y)
    then have "wp (reset_close port) (\<lambda>_ _. True) (\<lambda>_ t. ps_tasks t = []) s \<longrightarrow> ps_tasks t = []" by (simp add: wp_def x)
    moreover have "wp (reset_close port) (\<lambda>_ _. True) (\<lambda>_ t. ps_tasks t = []) s"
      unfolding reset_close_def
      by (rule wp_andThenI, rule wp_initialize)
        (use s in \<open>auto simp: pl_ok_def pipelines_inv_def post_def wp_writes\<close>)
    ultimately show ?thesis by (simp add: ResetRequest x Inl)
  next
    case (Inr y)
    show ?thesis by (simp add: ResetRequest x Inr reset_clear_gone)
  qed
  then show ?thesis by (rule ending_gone [OF drawn])
qed

lemma ending_history:
  assumes "pl_ok s" "env_ok (ps_env (pl_history port digest rs s))" "ending i r b s"
  shows "ending i r (b - sections_in i rs) (pl_history port digest rs s)"
  using assms
proof (induction rs rule: rev_induct)
  case (snoc q rs)
  let ?t = "pl_history port digest rs s"
  have env: "env_ok (ps_env (pl_handle port digest q ?t))" using snoc.prems(2) by simp
  then have t: "env_ok (ps_env ?t)" by (rule env_ok_mono [OF _ handle_env])
  from ending_handle [OF history_ok [OF snoc.prems(1) t] env snoc.IH [OF snoc.prems(1) t snoc.prems(3)]]
  show ?case by (cases "q = Call (ExecutorCall i)") (simp_all add: sections_in_def)
qed (simp add: sections_in_def)

lemma ending_start:
  assumes s: "pl_ok s" and r: "map_of (ps_runs s) i = Some r"
  shows "ending i r (sections_left r ExecBegin) s"
  unfolding ending_def
proof (intro conjI allI impI)
  have good: "run_good (ps_tasks s) (ps_env s) i r"
    using s r by (simp add: pl_ok_def pipelines_inv_def whole_def core_def memory_good_def state_good_def memory_state_def)
  then show "i \<in> drawn_ids (ps_env s)" by (simp add: run_good_def)
  show "\<exists>t. map_of (ps_runs s) i = Some t \<and> plan_of t = plan_of r" using r by simp
  show "sections_left r pc \<le> sections_left r ExecBegin" if "map_of (ps_tasks s) i = Some pc" for pc
    by (rule sections_left_most) (use good that in \<open>simp add: run_good_def\<close>)
qed

lemma tasks_end:
  assumes "pl_ok s" "env_ok (ps_env (pl_history port digest rs s))" "map_of (ps_runs s) i = Some r"
    and "sections_left r ExecBegin \<le> sections_in i rs"
  shows "map_of (ps_tasks (pl_history port digest rs s)) i = None"
  using ending_history [OF assms(1,2) ending_start [OF assms(1,3)]] assms(4) by (simp add: ending_over)

end

section \<open>Termination\<close>

lemma sections_begin: "sections_left r ExecBegin = 3 + (\<Sum>s \<leftarrow> pl_stages r. 3 * length (sr_jobs s) + 2)"
  by (simp add: sections_from_def sum_list_sum_nth)

lemma start_append: "start_pipelines e port db digest (rs @ later) = pl_history port digest later (start_pipelines e port db digest rs)"
  by (simp add: start_pipelines_def pl_history_def)

text \<open>C37: No executor runs forever: from any reachable state, whatever calls, failing transactions, resets
  and restarts come between, the executor of a run with \<open>n\<close> stages and \<open>m\<close> jobs is over after at most
  \<open>3 + 2n + 3m\<close> of its sections, and none is ever started for that run again.\<close>

theorem executors_end:
  assumes "backend_ok port db" "env_ok (ps_env (start_pipelines e port db digest (rs @ later)))"
    and "map_of (ps_runs (start_pipelines e port db digest rs)) i = Some r"
    and "3 + (\<Sum>s \<leftarrow> pl_stages r. 3 * length (sr_jobs s) + 2) \<le> sections_in i later"
  shows "map_of (ps_tasks (start_pipelines e port db digest (rs @ later))) i = None"
proof -
  let ?s = "start_pipelines e port db digest rs"
  have env: "env_ok (ps_env (pl_history port digest later ?s))" using assms(2) by (simp add: start_append)
  then have ok: "env_ok (ps_env ?s)" by (rule env_ok_mono [OF _ history_env])
  have left: "sections_left r ExecBegin \<le> sections_in i later" using assms(4) by (simp only: sections_begin)
  show ?thesis
    using assms(1) ok unfolding start_append
  proof (cases rule: start_cases)
    case Memory
    show "map_of (ps_tasks (pl_history port digest later ?s)) i = None"
      by (subst Memory(1), rule memory_host.tasks_end [OF Memory(2) _ assms(3) left]) (use env in \<open>simp add: Memory(1)\<close>)
  next
    case Database
    show "map_of (ps_tasks (pl_history port digest later ?s)) i = None"
      by (subst Database(1), rule sqlalchemy_host.tasks_end [OF Database(2) _ assms(3) left]) (use env in \<open>simp add: Database(1)\<close>)
  qed
qed

end
