(* ===== verification/Pipeline_Outcome.thy ===== *)
theory Pipeline_Outcome
  imports Pipeline_Termination
begin

text \<open>
  How the executor of an in-memory run that nobody disturbs ends: in order through the stages and
  their jobs, up to the first job that is to fail.
\<close>

section \<open>Exact effects\<close>

definition aggregated :: "nat \<Rightarrow> view \<Rightarrow> view" where
  "aggregated i V =
     (let W = (if jobs_all V i then V(StagePlace i \<mapsto> PSucceeded) else V)
      in if stages_all W then W(RunPlace \<mapsto> PSucceeded) else W)"

lemma wp_aggregate_exact:
  assumes V: "tview s = V" "V RunPlace = Some PRunning" "V (StagePlace i) = Some c" "may_finish c PSucceeded"
    and Q: "\<And>t. tview t = aggregated i V \<Longrightarrow> Q () t"
  shows "wp (aggregate_success (Some i)) Q E s"
proof -
  have i: "i < length (pl_stages (ts_run s))" using V(1,3) by (auto dest: view_SomeD)
  have second: "wp (andThen (on_run stages_succeeded) (\<lambda>all.
      if all then andThen (finish RunPlace PSucceeded None) (\<lambda>_. mark_terminal) else ret ())) Q E t"
    if t: "tview t = (if jobs_all V i then V(StagePlace i \<mapsto> PSucceeded) else V)" for t
  proof (intro wp_andThenI wp_on_run wp_ifI)
    have run: "tview t RunPlace = Some PRunning" using t V(2) by simp
    assume all: "stages_succeeded (ts_run t)"
    show "wp (finish RunPlace PSucceeded None) (\<lambda>_. wp mark_terminal Q E) E t"
      by (rule wp_finish [OF run], simp add: may_finish_def p_terminal_def, rule wp_mark_terminal [where c = PSucceeded])
        (use all t in \<open>auto simp: stages_succeeded_view p_terminal_def aggregated_def Let_def intro!: Q\<close>)
  next
    assume "\<not> stages_succeeded (ts_run t)"
    then show "wp (ret ()) Q E t"
      using t by (intro wp_retI Q) (simp add: stages_succeeded_view aggregated_def Let_def)
  qed
  show ?thesis
    unfolding aggregate_success_def option.case
    using i V by (intro wp_andThenI [of "case x of None \<Rightarrow> m | Some y \<Rightarrow> n y" for x m n] wp_intros wp_finish [where c = c] second)
      (auto simp: jobs_succeeded_view intro!: second)
qed

definition failed_at :: "nat \<Rightarrow> nat \<Rightarrow> view \<Rightarrow> view" where
  "failed_at i j V = stop_at (\<lambda>p. p \<noteq> RunPlace)
     ((stop_at (job_of i) (V(JobPlace i j \<mapsto> PFailed, StagePlace i \<mapsto> PFailed)))(RunPlace \<mapsto> PFailed))"

lemma wp_fail_job_exact:
  assumes V: "tview s = V" "V RunPlace = Some PRunning" "V (StagePlace i) = Some PRunning" "V (JobPlace i j) = Some PRunning"
    and Q: "\<And>t. tview t = failed_at i j V \<Longrightarrow> Q () t"
  shows "wp (fail_job i j message) Q E s"
proof -
  have fin: "may_finish PRunning PFailed" by (simp add: may_finish_def p_terminal_def)
  have dom: "i < length (pl_stages (ts_run u))" if "tview u (StagePlace i) \<noteq> None" for u
    using that by (auto dest: view_SomeD)
  have ended: "wp (fail_run z) Q E u"
    if u: "tview u = stop_at (job_of i) (V(JobPlace i j \<mapsto> PFailed, StagePlace i \<mapsto> PFailed))" for u z
  proof -
    have run: "tview u RunPlace = Some PRunning" using u V by simp
    show ?thesis
      unfolding fail_run_def
    proof (rule wp_andThenI, rule wp_finish [OF run fin], rule wp_andThenI, rule wp_cancel_unfinished_children)
      fix v w assume v: "tview v = (tview u)(RunPlace \<mapsto> PFailed)" and w: "tview w = stop_at (\<lambda>p. p \<noteq> RunPlace) (tview v)"
      then have "tview w = failed_at i j V" by (simp add: failed_at_def u)
      then show "wp mark_terminal Q E w"
        by (intro wp_mark_terminal [where c = PFailed] Q) (simp_all add: failed_at_def stop_at_other p_terminal_def)
    qed
  qed
  show ?thesis
    unfolding fail_job_def
  proof (rule wp_andThenI, rule wp_finish [OF _ fin])
    show "tview s (JobPlace i j) = Some PRunning" by (simp add: V)
    fix t assume t: "tview t = (tview s)(JobPlace i j \<mapsto> PFailed)"
    have stage: "tview t (StagePlace i) = Some PRunning" by (simp add: t V)
    have rest: "wp (finish (StagePlace i) PFailed x) (\<lambda>_. wp (andThen (cancel_unfinished_jobs i y) (\<lambda>_. fail_run z)) Q E) E t" for x y z
    proof (rule wp_finish [OF stage fin], rule wp_andThenI)
      fix u assume u: "tview u = (tview t)(StagePlace i \<mapsto> PFailed)"
      show "wp (cancel_unfinished_jobs i y) (\<lambda>_. wp (fail_run z) Q E) E u"
        by (rule wp_cancel_unfinished_jobs [OF dom]) (simp_all add: u t V ended)
    qed
    show "wp (andThen (on_run (\<lambda>r. (stage_name r i, job_name r i j))) (\<lambda>(stage, job).
      andThen (finish (StagePlace i) PFailed (Some (''job '' @ job @ '' failed''))) (\<lambda>_.
      andThen (cancel_unfinished_jobs i ''not executed after an earlier job failed'') (\<lambda>_.
      fail_run (Some (''stage '' @ stage @ '', job '' @ job @ '' failed'')))))) Q E t"
      by (intro wp_andThenI wp_on_run wp_case_pairI rest)
  qed
qed

section \<open>The statuses along the way\<close>

definition upon :: "PipelineRun \<Rightarrow> (place \<Rightarrow> PipelineStatus) \<Rightarrow> view" where
  "upon r f = (\<lambda>p. if p \<in> places r then Some (f p) else None)"

fun staged :: "nat \<Rightarrow> place \<Rightarrow> PipelineStatus" where
  "staged i RunPlace = PRunning"
| "staged i (StagePlace k) = (if k < i then PSucceeded else PQueued)"
| "staged i (JobPlace k l) = (if k < i then PSucceeded else PQueued)"

fun front :: "nat \<Rightarrow> nat \<Rightarrow> place \<Rightarrow> PipelineStatus" where
  "front i j RunPlace = PRunning"
| "front i j (StagePlace k) = (if k < i then PSucceeded else if k = i then PRunning else PQueued)"
| "front i j (JobPlace k l) = (if k < i \<or> k = i \<and> l < j then PSucceeded else PQueued)"

text \<open>Everything before job \<open>(i, j)\<close> succeeded, the job failed, the rest was cancelled.\<close>

fun broken :: "nat \<Rightarrow> nat \<Rightarrow> place \<Rightarrow> PipelineStatus" where
  "broken i j RunPlace = PFailed"
| "broken i j (StagePlace k) = (if k < i then PSucceeded else if k = i then PFailed else PCancelled)"
| "broken i j (JobPlace k l) =
     (if k < i \<or> k = i \<and> l < j then PSucceeded else if k = i \<and> l = j then PFailed else PCancelled)"

lemma upon_set: "p \<in> places r \<Longrightarrow> (upon r f)(p \<mapsto> c) = upon r (f(p := c))"
  by (auto simp: upon_def fun_eq_iff)

lemma upon_eqI: "(\<And>p. p \<in> places r \<Longrightarrow> f p = g p) \<Longrightarrow> upon r f = upon r g"
  by (auto simp: upon_def fun_eq_iff)

lemma upon_at: "p \<in> places r \<Longrightarrow> upon r f p = Some (f p)"
  by (simp add: upon_def)

lemma view_upon: "view r = upon r (\<lambda>p. status_at p r)"
  by (simp add: view_def upon_def)

lemma jobs_all_upon: "i < length (pl_stages r) \<Longrightarrow>
  jobs_all (upon r f) i \<longleftrightarrow> (\<forall>j < length (stage_jobs r i). f (JobPlace i j) = PSucceeded)"
  by (auto simp: jobs_all_def upon_def)

lemma stages_all_upon: "stages_all (upon r f) \<longleftrightarrow> (\<forall>i < length (pl_stages r). f (StagePlace i) = PSucceeded)"
  by (auto simp: stages_all_def upon_def)

lemma stop_upon: "stop_at P (upon r f) = upon r (\<lambda>p. if P p then stopped (f p) else f p)"
  by (auto simp: stop_at_def upon_def fun_eq_iff)

lemma failed_upon:
  assumes "i < length (pl_stages r)" "j < length (stage_jobs r i)"
  shows "failed_at i j ((upon r (front i j))(JobPlace i j \<mapsto> PRunning)) = upon r (broken i j)"
proof -
  have in_r: "JobPlace i j \<in> places r" "StagePlace i \<in> places r" "RunPlace \<in> places r" using assms by simp_all
  show ?thesis
    unfolding failed_at_def upon_set [OF in_r(1)] upon_set [OF in_r(2)] upon_set [OF in_r(3)] stop_upon
  proof (rule upon_eqI)
    fix p assume "p \<in> places r"
    then show "(if p \<noteq> RunPlace then stopped (((\<lambda>p. if job_of i p then
        stopped ((((front i j)(JobPlace i j := PRunning))(JobPlace i j := PFailed, StagePlace i := PFailed)) p)
        else (((front i j)(JobPlace i j := PRunning))(JobPlace i j := PFailed, StagePlace i := PFailed)) p)(RunPlace := PFailed)) p)
      else ((\<lambda>p. if job_of i p then
        stopped ((((front i j)(JobPlace i j := PRunning))(JobPlace i j := PFailed, StagePlace i := PFailed)) p)
        else (((front i j)(JobPlace i j := PRunning))(JobPlace i j := PFailed, StagePlace i := PFailed)) p)(RunPlace := PFailed)) p) =
      broken i j p"
      by (cases p) (auto simp: stopped_def p_terminal_def)
  qed
qed


section \<open>The course of a run\<close>

abbreviation should_fail :: "PipelineRun \<Rightarrow> nat \<Rightarrow> nat \<Rightarrow> bool" where
  "should_fail r i j \<equiv> jr_should_fail (stage_jobs r i ! j)"

text \<open>No job before job \<open>(i, j)\<close> is to fail.\<close>

definition passes :: "PipelineRun \<Rightarrow> nat \<Rightarrow> nat \<Rightarrow> bool" where
  "passes r i j \<longleftrightarrow> (\<forall>k l. k < length (pl_stages r) \<and> l < length (stage_jobs r k) \<and> (k < i \<or> k = i \<and> l < j) \<longrightarrow>
     \<not> should_fail r k l)"

definition passed :: "PipelineRun \<Rightarrow> nat \<Rightarrow> place \<Rightarrow> PipelineStatus" where
  "passed r i = (if i < length (pl_stages r) then staged i else (\<lambda>_. PSucceeded))"

text \<open>Every stage has a job, as the request model demands.\<close>

definition no_gaps :: "PipelineRun \<Rightarrow> bool" where
  "no_gaps r \<longleftrightarrow> pl_stages r \<noteq> [] \<and> list_all (\<lambda>s. sr_jobs s \<noteq> []) (pl_stages r)"

lemma no_gaps_job: "no_gaps r \<Longrightarrow> i < length (pl_stages r) \<Longrightarrow> 0 < length (stage_jobs r i)"
  by (simp add: no_gaps_def list_all_length)

lemma passes_next: "passes r i j \<Longrightarrow> \<not> should_fail r i j \<Longrightarrow> passes r i (Suc j)"
  by (auto simp: passes_def less_Suc_eq)

lemma passes_stage: "passes r i (length (stage_jobs r i)) \<Longrightarrow> passes r (Suc i) 0"
  by (auto simp: passes_def less_Suc_eq)

text \<open>The statuses of the run where its executor continues.\<close>

fun course :: "PipelineRun \<Rightarrow> executor \<Rightarrow> view \<Rightarrow> bool" where
  "course r ExecBegin V \<longleftrightarrow> V = upon r (\<lambda>_. PQueued)"
| "course r (ExecStage n i) V \<longleftrightarrow> n = length (pl_stages r) \<and> i < n \<and> passes r i 0 \<and> V = upon r (staged i)"
| "course r (ExecJob n i m j) V \<longleftrightarrow> n = length (pl_stages r) \<and> i < n \<and> m = length (stage_jobs r i) \<and> j < m \<and>
     passes r i j \<and> V = upon r (front i j)"
| "course r (ExecWait n i m j) V \<longleftrightarrow> n = length (pl_stages r) \<and> i < n \<and> m = length (stage_jobs r i) \<and> j < m \<and>
     passes r i j \<and> V = upon r ((front i j)(JobPlace i j := PRunning))"
| "course r (ExecJobDone n i m j) V \<longleftrightarrow> n = length (pl_stages r) \<and> i < n \<and> m = length (stage_jobs r i) \<and> j < m \<and>
     passes r i j \<and> V = upon r ((front i j)(JobPlace i j := PRunning))"
| "course r (ExecStageDone n i) V \<longleftrightarrow> n = length (pl_stages r) \<and> i < n \<and> passes r (Suc i) 0 \<and> V = upon r (passed r (Suc i))"
| "course r ExecEnd V \<longleftrightarrow> passes r (length (pl_stages r)) 0 \<and> V = upon r (\<lambda>_. PSucceeded)"
| "course r (ExecRecover message) V \<longleftrightarrow> False"

text \<open>How it ends: everything succeeded, or the first job that is to fail stopped it.\<close>

definition outcome :: "PipelineRun \<Rightarrow> view \<Rightarrow> bool" where
  "outcome r V \<longleftrightarrow> passes r (length (pl_stages r)) 0 \<and> V = upon r (\<lambda>_. PSucceeded) \<or>
     (\<exists>i < length (pl_stages r). \<exists>j < length (stage_jobs r i). passes r i j \<and> should_fail r i j \<and> V = upon r (broken i j))"

definition arrived :: "PipelineRun \<Rightarrow> executor option \<Rightarrow> view \<Rightarrow> bool" where
  "arrived r nxt V \<longleftrightarrow> (case nxt of None \<Rightarrow> outcome r V | Some pc \<Rightarrow> course r pc V)"

lemma arrived_simps [simp]: "arrived r None V = outcome r V" "arrived r (Some pc) V = course r pc V"
  by (simp_all add: arrived_def)

subsection \<open>Statuses that fit together\<close>

lemma view_ok_upon:
  assumes "\<And>i. i < length (pl_stages r) \<Longrightarrow> child_ok (f RunPlace) (f (StagePlace i))"
    and "\<And>i j. i < length (pl_stages r) \<Longrightarrow> j < length (stage_jobs r i) \<Longrightarrow> child_ok (f (StagePlace i)) (f (JobPlace i j))"
  shows "view_ok (upon r f)"
  using assms by (auto simp: view_ok_def upon_def)

lemma views_ok:
  "view_ok (upon r (staged i))" "view_ok (upon r (front i j))" "view_ok (upon r (broken i j))" "view_ok (upon r (\<lambda>_. PSucceeded))"
  by (rule view_ok_upon; simp add: p_terminal_def)+

lemma view_ok_passed: "view_ok (upon r (passed r i))"
  by (simp add: passed_def views_ok)

subsection \<open>Aggregation\<close>

lemma aggregated_done:
  assumes i: "i < length (pl_stages r)"
  shows "aggregated i (upon r (staged (Suc i))) = upon r (passed r (Suc i))"
proof -
  have all: "jobs_all (upon r (staged (Suc i))) i" using i by (simp add: jobs_all_upon)
  have same: "(upon r (staged (Suc i)))(StagePlace i \<mapsto> PSucceeded) = upon r (staged (Suc i))"
    using i by (simp add: upon_set) (rule upon_eqI, simp)
  have stages: "stages_all (upon r (staged (Suc i))) \<longleftrightarrow> \<not> Suc i < length (pl_stages r)"
    by (auto simp: stages_all_upon)
  have over: "(upon r (staged (Suc i)))(RunPlace \<mapsto> PSucceeded) = upon r (\<lambda>_. PSucceeded)" if "\<not> Suc i < length (pl_stages r)"
    unfolding upon_set [OF in_places(1)]
  proof (rule upon_eqI)
    fix p assume "p \<in> places r"
    then show "((staged (Suc i))(RunPlace := PSucceeded)) p = PSucceeded" using that by (cases p) auto
  qed
  show ?thesis
    using over by (auto simp: aggregated_def all same stages Let_def passed_def)
qed

lemma aggregated_job:
  assumes i: "i < length (pl_stages r)" "j < length (stage_jobs r i)"
  shows "aggregated i (upon r ((front i j)(JobPlace i j := PSucceeded))) =
    (if Suc j < length (stage_jobs r i) then upon r (front i (Suc j)) else upon r (passed r (Suc i)))"
proof -
  let ?f = "(front i j)(JobPlace i j := PSucceeded)"
  have front: "upon r ?f = upon r (front i (Suc j))"
  proof (rule upon_eqI)
    show "?f p = front i (Suc j) p" for p by (cases p) (auto simp: less_Suc_eq)
  qed
  have all: "jobs_all (upon r (front i (Suc j))) i \<longleftrightarrow> \<not> Suc j < length (stage_jobs r i)"
    using i by (auto simp: jobs_all_upon)
  have not: "\<not> stages_all (upon r (front i (Suc j)))" using i(1) by (auto simp: stages_all_upon)
  have last: "(upon r (front i (Suc j)))(StagePlace i \<mapsto> PSucceeded) = upon r (staged (Suc i))" if "\<not> Suc j < length (stage_jobs r i)"
    unfolding upon_set [OF in_places(2) [THEN iffD2, OF i(1)]]
  proof (rule upon_eqI)
    fix p assume "p \<in> places r"
    then show "((front i (Suc j))(StagePlace i := PSucceeded)) p = staged (Suc i) p" using that by (cases p) (auto simp: less_Suc_eq)
  qed
  show ?thesis
  proof (cases "Suc j < length (stage_jobs r i)")
    case True
    then show ?thesis by (simp add: aggregated_def front all not)
  next
    case False
    have "jobs_all (upon r (staged (Suc i))) i" using i(1) by (simp add: jobs_all_upon)
    moreover have "(upon r (staged (Suc i)))(StagePlace i \<mapsto> PSucceeded) = upon r (staged (Suc i))"
      using i(1) by (simp add: upon_set) (rule upon_eqI, simp)
    ultimately show ?thesis
      using False aggregated_done [OF i(1)] by (simp add: aggregated_def [of i "upon r (front i (Suc j))"] front all last aggregated_def [of i "upon r (staged (Suc i))"])
  qed
qed

section \<open>Sections of an in-memory run\<close>

definition runs_to :: "text_t \<Rightarrow> PipelineRun \<Rightarrow> executor option \<Rightarrow> 'p pipelines \<Rightarrow> bool" where
  "runs_to i r nxt s \<longleftrightarrow> (\<exists>t. map_of (ps_runs s) i = Some t \<and> plan_of t = plan_of r \<and> arrived r nxt (view t))"

lemma wp_course_edit:
  assumes s: "memory_good s" and t: "map_of (ps_runs s) i = Some t" "plan_of t = plan_of r" and m: "evo.steps m"
    and prog: "\<And>x. ts_run x = t \<Longrightarrow> wp m (\<lambda>_ u. arrived r nxt (tview u)) (\<lambda>_ _. False) x"
  shows "wp (andThen (edit_run i m) (\<lambda>_. andThen (checkpoint None) (\<lambda>_. ret nxt))) (\<lambda>y. runs_to i r y) (\<lambda>_ _. False) s"
proof (rule wp_andThenI)
  let ?x = "\<lparr>ts_env = ps_env s, ts_run = t\<rparr>"
  obtain y u where u: "m ?x = (y, u)" by (cases "m ?x")
  have ev: "plan_of (ts_run u) = plan_of r" using evo.stepsD [OF m, of ?x] t(2) by (simp add: u run_evolves_def)
  let ?s = "s\<lparr>ps_env := ts_env u, ps_runs := AList.update i (ts_run u) (ps_runs s)\<rparr>"
  have ok: "wp (checkpoint None) (\<lambda>_ v. runs_to i r nxt v) (\<lambda>_ _. False) ?s" if "arrived r nxt (tview u)"
    unfolding checkpoint_def option.case
  proof (rule wp_synchronize_events)
    show "distinct (map fst (ps_runs ?s))" using s by (simp add: memory_good_def storable_def memory_state_def distinct_update)
    show "tables_match ?s" using s memory_host.fst_update_present [OF t(1)] by (simp add: memory_good_def tables_match_def)
    fix v assume "events_differ ?s v"
    from events_differ_fields(1) [OF this] have "ps_runs v = AList.update i (ts_run u) (ps_runs s)" by (simp add: memory_state_def)
    then show "runs_to i r nxt v" using ev that by (simp add: runs_to_def update_conv')
  qed
  have run: "edit_run i m s = (y, ?s)" by (simp add: edit_run_def t(1) u)
  show "wp (edit_run i m) (\<lambda>_. wp (andThen (checkpoint None) (\<lambda>_. ret nxt)) (\<lambda>y. runs_to i r y) (\<lambda>_ _. False)) (\<lambda>_ _. False) s"
    unfolding wp_run [where m = "edit_run i m" and s = s, OF run] using prog [of ?x] ok by (auto simp: wp_def [of m] u wp_andThen wp_ret split: sum.splits elim!: wp_mono)
qed

lemma wp_course_checked:
  assumes s: "memory_good s" and t: "map_of (ps_runs s) i = Some t" "plan_of t = plan_of r" and m: "evo.steps m"
    and prog: "\<And>x. ts_run x = t \<Longrightarrow> wp m (\<lambda>_ u. view_ok (tview u) \<and> arrived r nxt (tview u)) (\<lambda>_ _. False) x"
  shows "wp (andThen (edit_checked None i m) (\<lambda>_. ret nxt)) (\<lambda>y. runs_to i r y) (\<lambda>_ _. False) s"
proof -
  have "wp (andThen (edit_run i (andThen m (\<lambda>_. assert_run_invariants))) (\<lambda>_. andThen (checkpoint None) (\<lambda>_. ret nxt)))
      (\<lambda>y. runs_to i r y) (\<lambda>_ _. False) s"
  proof (rule wp_course_edit [OF s t])
    show "evo.steps (andThen m (\<lambda>_. assert_run_invariants))" by (intro steps_intros m)
    show "wp (andThen m (\<lambda>_. assert_run_invariants)) (\<lambda>_ u. arrived r nxt (tview u)) (\<lambda>_ _. False) x" if "ts_run x = t" for x
      by (rule wp_andThenI, rule wp_mono [OF prog [OF that]]) (auto intro: wp_assert_run_invariants)
  qed
  then show ?thesis by (simp add: edit_checked_def wp_andThen [abs_def])
qed

lemma status_upon: "view t = upon r f \<Longrightarrow> p \<in> places r \<Longrightarrow> status_at p t = f p"
  using view_SomeD [of t p "f p"] by (simp add: upon_at)

lemma wp_while_at:
  assumes "map_of (ps_runs s) i = Some t" "status_at RunPlace t = PRunning \<Longrightarrow> wp (k t) Q E s"
    and "status_at RunPlace t \<noteq> PRunning \<Longrightarrow> Q None s"
  shows "wp (while_running i k) Q E s"
  unfolding while_running_def using assms by (intro wp_andThenI memory_host.wp_require_run wp_ifI wp_retI) auto

lemma wp_section_course:
  assumes s: "memory_good s" "ps_initialized s" and t: "map_of (ps_runs s) i = Some t" "plan_of t = plan_of r"
    and gaps: "no_gaps r" and at: "course r pc (view t)" and event: "map_of (ps_cancel_events s) i = Some (run_terminal t)"
  shows "wp (execute_section None i pc) (\<lambda>nxt. runs_to i r nxt) (\<lambda>_ _. False) s"
proof -
  note edit = wp_course_edit [OF s(1) t]
  note checked = wp_course_checked [OF s(1) t]
  have here: "runs_to i r nxt s" if "arrived r nxt (view t)" for nxt
    using t that by (simp add: runs_to_def)
  have n: "length (pl_stages t) = length (pl_stages r)" by (rule plan_stages [OF t(2)])
  have m: "length (stage_jobs t k) = length (stage_jobs r k)" if "k < length (pl_stages r)" for k
    by (rule plan_jobs [OF t(2)]) (simp add: n that)
  show ?thesis
  proof (cases pc)
    case ExecBegin
    have V: "view t = upon r (\<lambda>_. PQueued)" using at by (simp add: ExecBegin)
    have "initialize_locked None s = (Inr (), s)" using s(2) by (simp add: initialize_locked_def run_simps)
    then have init: "wp (initialize_locked None) (\<lambda>_. Q) E s = Q s" for Q E by (simp add: wp_def)
    have "upon r ((\<lambda>_. PQueued)(RunPlace := PRunning)) = upon r (staged 0)"
    proof (rule upon_eqI)
      show "((\<lambda>_. PQueued)(RunPlace := PRunning)) p = staged 0 p" for p by (cases p) auto
    qed
    then have begun: "wp (start RunPlace) (\<lambda>_ u. arrived r (Some (ExecStage (length (pl_stages r)) 0)) (tview u)) (\<lambda>_ _. False) x"
      if "ts_run x = t" for x
      using gaps by (intro wp_start [where c = PQueued]) (auto simp: that V upon_at upon_set no_gaps_def passes_def)
    show ?thesis
      using gaps edit [OF steps_start begun] status_upon [OF V in_places(1)]
      by (simp add: ExecBegin wp_andThen init require_run_def wp_simps t(1) Let_def n no_gaps_def)
  next
    case (ExecStage b k)
    then have k: "b = length (pl_stages r)" "k < length (pl_stages r)" "passes r k 0" and V: "view t = upon r (staged k)"
      using at by auto
    have "upon r ((staged k)(StagePlace k := PRunning)) = upon r (front k 0)"
    proof (rule upon_eqI)
      show "((staged k)(StagePlace k := PRunning)) p = front k 0 p" for p by (cases p) auto
    qed
    then have started: "wp (start (StagePlace k)) (\<lambda>_ u. arrived r (Some (ExecJob b k (length (stage_jobs r k)) 0)) (tview u)) (\<lambda>_ _. False) x"
      if "ts_run x = t" for x
      using k no_gaps_job [OF gaps k(2)] by (intro wp_start [where c = PQueued]) (auto simp: that V upon_at upon_set)
    show ?thesis
      unfolding ExecStage execute_section.simps
      by (rule wp_while_at [OF t(1)])
        (use status_upon [OF V] k no_gaps_job [OF gaps k(2)] edit [OF steps_start started] m [OF k(2)] in \<open>auto simp: Let_def\<close>)
  next
    case (ExecJob b k c j)
    then have k: "b = length (pl_stages r)" "k < length (pl_stages r)" "c = length (stage_jobs r k)" "j < length (stage_jobs r k)"
      "passes r k j" and V: "view t = upon r (front k j)"
      using at by auto
    have started: "wp (start (JobPlace k j)) (\<lambda>_ u. arrived r (Some (ExecWait b k c j)) (tview u)) (\<lambda>_ _. False) x"
      if "ts_run x = t" for x
      using k by (intro wp_start [where c = PQueued]) (auto simp: that V upon_at upon_set)
    show ?thesis
      unfolding ExecJob execute_section.simps
      by (rule wp_while_at [OF t(1)]) (use status_upon [OF V] k edit [OF steps_start started] in auto)
  next
    case (ExecWait b k c j)
    have "run_terminal t = False"
      using at status_upon [of t r "(front k j)(JobPlace k j := PRunning)" RunPlace] by (simp add: ExecWait run_terminal_def p_terminal_def)
    then show ?thesis
      using at here by (simp add: ExecWait wp_simps event)
  next
    case (ExecJobDone b k c j)
    then have k: "b = length (pl_stages r)" "k < length (pl_stages r)" "c = length (stage_jobs r k)" "j < length (stage_jobs r k)"
      "passes r k j" and V: "view t = upon r ((front k j)(JobPlace k j := PRunning))"
      using at by auto
    have fails: "should_fail t k j = should_fail r k j" using plan_should_fail [OF t(2)] k m n by simp
    have in_r: "JobPlace k j \<in> places r" "StagePlace k \<in> places r" using k by simp_all
    have failed: "wp (fail_job k j msg) (\<lambda>_ u. view_ok (tview u) \<and> arrived r None (tview u)) (\<lambda>_ _. False) x"
      if "ts_run x = t" "should_fail r k j" for x msg
    proof (rule wp_fail_job_exact)
      show "tview x = (upon r (front k j))(JobPlace k j \<mapsto> PRunning)" by (simp add: that(1) V upon_set k(2,4))
      show "view_ok (tview u) \<and> arrived r None (tview u)" if "tview u = failed_at k j ((upon r (front k j))(JobPlace k j \<mapsto> PRunning))" for u
        using that failed_upon [OF k(2,4)] k \<open>should_fail r k j\<close> by (auto simp: views_ok outcome_def)
    qed (use k in \<open>simp_all add: upon_at\<close>)
    have finished: "wp (andThen (finish (JobPlace k j) PSucceeded None) (\<lambda>_. aggregate_success (Some k)))
        (\<lambda>_ u. view_ok (tview u) \<and> arrived r (Some (next_job b k c j)) (tview u)) (\<lambda>_ _. False) x"
      if "ts_run x = t" "\<not> should_fail r k j" for x
    proof (rule wp_andThenI, rule wp_finish [where c = PRunning])
      fix u assume "tview u = (tview x)(JobPlace k j \<mapsto> PSucceeded)"
      then have u: "tview u = upon r ((front k j)(JobPlace k j := PSucceeded))" by (simp add: that(1) V upon_set k(2,4))
      show "wp (aggregate_success (Some k)) (\<lambda>_ u. view_ok (tview u) \<and> arrived r (Some (next_job b k c j)) (tview u)) (\<lambda>_ _. False) u"
      proof (rule wp_aggregate_exact [OF u, where c = PRunning])
        fix v assume v: "tview v = aggregated k (upon r ((front k j)(JobPlace k j := PSucceeded)))"
        have "passes r k (Suc j)" by (rule passes_next [OF k(5) that(2)])
        moreover have "passes r (Suc k) 0" if "\<not> Suc j < length (stage_jobs r k)"
        proof (rule passes_stage)
          have "length (stage_jobs r k) = Suc j" using that k(4) by simp
          then show "passes r k (length (stage_jobs r k))" using \<open>passes r k (Suc j)\<close> by simp
        qed
        ultimately show "view_ok (tview v) \<and> arrived r (Some (next_job b k c j)) (tview v)"
          unfolding v aggregated_job [OF k(2,4)] using k by (auto simp: next_job_def views_ok view_ok_passed)
      qed (use k in \<open>simp_all add: upon_at may_finish_def p_terminal_def\<close>)
    qed (use k in \<open>simp_all add: that(1) V upon_at may_finish_def p_terminal_def\<close>)
    show ?thesis
      unfolding ExecJobDone execute_section.simps
      by (rule wp_while_at [OF t(1)])
        (use status_upon [OF V] k checked [OF steps_edits(6) failed] checked [OF _ finished] fails in \<open>auto intro!: steps_intros\<close>)
  next
    case (ExecStageDone b k)
    then have k: "b = length (pl_stages r)" "k < length (pl_stages r)" "passes r (Suc k) 0" and V: "view t = upon r (passed r (Suc k))"
      using at by auto
    show ?thesis
    proof (cases "Suc k < length (pl_stages r)")
      case True
      then have V': "view t = upon r (staged (Suc k))" using V by (simp add: passed_def)
      have agg: "wp (aggregate_success (Some k)) (\<lambda>_ u. view_ok (tview u) \<and> arrived r (Some (next_stage b k)) (tview u)) (\<lambda>_ _. False) x"
        if "ts_run x = t" for x
      proof (rule wp_aggregate_exact [where c = PSucceeded])
        show "tview x = upon r (staged (Suc k))" by (simp add: that V')
        show "view_ok (tview u) \<and> arrived r (Some (next_stage b k)) (tview u)" if "tview u = aggregated k (upon r (staged (Suc k)))" for u
          unfolding that aggregated_done [OF k(2)] using True k by (simp add: next_stage_def view_ok_passed passed_def views_ok)
      qed (use k in \<open>simp_all add: upon_at may_finish_def p_terminal_def\<close>)
      show ?thesis
        unfolding ExecStageDone execute_section.simps
        by (rule wp_while_at [OF t(1)]) (use checked [OF steps_edits(4) agg] status_upon [OF V' in_places(1)] in auto)
    next
      case False
      then have "Suc k = length (pl_stages r)" using k by simp
      then have over: "outcome r (view t)" "status_at RunPlace t = PSucceeded"
        using k V status_upon [OF V in_places(1)] by (simp_all add: outcome_def passed_def)
      show ?thesis
        unfolding ExecStageDone execute_section.simps
        by (rule wp_while_at [OF t(1)]) (use over here [of None] in auto)
    qed
  next
    case ExecEnd
    then have over: "outcome r (view t)" "status_at RunPlace t = PSucceeded"
      using at status_upon [of t r "\<lambda>_. PSucceeded" RunPlace] by (simp_all add: outcome_def)
    show ?thesis
      unfolding ExecEnd execute_section.simps
      by (rule wp_while_at [OF t(1)]) (use over here [of None] in auto)
  next
    case (ExecRecover message)
    then show ?thesis using at by simp
  qed
qed

section \<open>Calls for other runs\<close>

interpretation unmoved: pipeline_steps "\<lambda>s (t :: 'p pipelines). map_of (ps_runs t) i = map_of (ps_runs s) i \<and>
    map_of (ps_tasks t) i = map_of (ps_tasks s) i \<and> ps_closed t = ps_closed s" for i
  by unfold_locales auto

lemma unmoved_writes:
  "(\<And>s. map_of (ps_runs (f s)) i = map_of (ps_runs s) i \<and> map_of (ps_tasks (f s)) i = map_of (ps_tasks s) i \<and>
     ps_closed (f s) = ps_closed s) \<Longrightarrow> unmoved.steps i (writes f)"
  by (rule unmoved.steps_writes)

lemma unmoved_edit [steps_intros]: "j \<noteq> i \<Longrightarrow> unmoved.steps i (edit_run j m)"
  by (auto simp: unmoved.steps_def edit_run_def update_conv' split: option.split prod.split)

lemma unmoved_initialize [steps_intros]: "unmoved.steps i (initialize_locked None)"
  by (simp add: unmoved.steps_def initialize_locked_def run_simps)

lemma unmoved_checkpoint [steps_intros]: "unmoved.steps i (checkpoint None)"
  unfolding checkpoint_def option.case synchronize_events_def by (intro steps_intros unmoved_writes) simp

lemma unmoved_checked [steps_intros]: "j \<noteq> i \<Longrightarrow> unmoved.steps i (edit_checked None j m)"
  unfolding edit_checked_def by (intro steps_intros)

lemma unmoved_section [steps_intros]: "j \<noteq> i \<Longrightarrow> unmoved.steps i (execute_section None j pc)"
  by (cases pc) (simp_all add: while_running_def, (intro steps_intros; assumption)+)

lemma unmoved_calls:
  "unmoved.steps i (get_run None j)" "unmoved.steps i (list_runs None)" "unmoved.steps i (look_terminal None j)"
  "j \<noteq> i \<Longrightarrow> unmoved.steps i (cancel_run None j)" "j \<noteq> i \<Longrightarrow> unmoved.steps i (apply_callback None digest j c)"
  "j \<noteq> i \<Longrightarrow> unmoved.steps i (execute_step None j)"
  unfolding get_run_def list_runs_def cancel_run_def apply_callback_def look_terminal_def execute_step_def Let_def
  by (intro steps_intros unmoved_writes; simp add: update_conv' delete_conv')+

lemma unmoved_trigger: "unmoved.starts_new i i (trigger None digest request)"
  by (intro unmoved.starts_trigger steps_intros unmoved_writes) (simp_all add: update_conv')

text \<open>Requests that leave run \<open>i\<close> to its executor.\<close>

fun leaves_alone :: "text_t \<Rightarrow> pl_request \<Rightarrow> bool" where
  "leaves_alone i (Call (CancelCall j)) = (j \<noteq> i)"
| "leaves_alone i (Call (CallbackCall j c)) = (j \<noteq> i)"
| "leaves_alone i (Call ShutdownCall) = False"
| "leaves_alone i (Call c) = True"
| "leaves_alone i (ResetRequest cs) = False"
| "leaves_alone i RestartRequest = False"

lemma serve_unmoved:
  assumes "leaves_alone i (Call c)" "c \<noteq> ExecutorCall i" "i \<in> drawn_ids (ps_env s)" "env_ok (ps_env (pl_serve None digest c s))"
  shows "map_of (ps_runs (pl_serve None digest c s)) i = map_of (ps_runs s) i \<and>
    map_of (ps_tasks (pl_serve None digest c s)) i = map_of (ps_tasks s) i \<and> ps_closed (pl_serve None digest c s) = ps_closed s"
proof (cases c)
  case (TriggerCall request)
  then show ?thesis using assms(3,4) by (simp add: unmoved_trigger [unfolded unmoved.starts_new_def, rule_format])
qed (use assms(1,2) in \<open>simp_all add: unmoved_calls [THEN unmoved.stepsD] unmoved_initialize [THEN unmoved.stepsD]\<close>)

section \<open>The course over a history\<close>

definition under_way :: "text_t \<Rightarrow> PipelineRun \<Rightarrow> 'p pipelines \<Rightarrow> bool" where
  "under_way i r s \<longleftrightarrow> i \<in> drawn_ids (ps_env s) \<and> \<not> ps_closed s \<and> runs_to i r (map_of (ps_tasks s) i) s"

lemma under_way_serve:
  assumes ok: "memory_host.pl_ok s" and env: "env_ok (ps_env (pl_serve None digest c s))"
    and s: "under_way i r s" "no_gaps r" "leaves_alone i (Call c)"
  shows "under_way i r (pl_serve None digest c s)"
proof -
  have i: "i \<in> drawn_ids (ps_env s)" "\<not> ps_closed s" using s(1) by (simp_all add: under_way_def)
  have drawn: "i \<in> drawn_ids (ps_env (pl_serve None digest c s))" using i(1) drawn_mono [OF serve_env] by blast
  show ?thesis
  proof (cases "c = ExecutorCall i")
    case False
    then show ?thesis using serve_unmoved [OF s(3) False i(1) env] s(1) drawn by (simp add: under_way_def runs_to_def)
  next
    case True
    show ?thesis
    proof (cases "map_of (ps_tasks s) i")
      case None
      then show ?thesis using s(1) by (simp add: True task_gone)
    next
      case (Some pc)
      have inv: "memory_host.pipelines_inv s" using ok by (simp add: memory_host.pl_ok_def)
      obtain t where t: "map_of (ps_runs s) i = Some t" "plan_of t = plan_of r" "course r pc (view t)"
        using s(1) by (auto simp: under_way_def runs_to_def Some)
      have mem: "memory_good s" "ps_initialized s" "map_of (ps_cancel_events s) i = Some (run_terminal t)"
        using inv i(2) t(1) Some
        by (auto simp: memory_host.pipelines_inv_def memory_host.whole_def memory_host.core_def synced_def)
      obtain x u where x: "execute_section None i pc s = (x, u)" by (cases "execute_section None i pc s")
      obtain nxt where nxt: "x = Inr nxt" "runs_to i r nxt u"
        using wp_section_course [OF mem(1,2) t(1,2) s(2) t(3) mem(3)] by (auto simp: wp_def x split: sum.splits)
      have "ps_closed u = ps_closed s"
        using memory_host.wp_execute_section [OF inv Some] by (simp add: wp_def x nxt(1) memory_host.section_done_def memory_host.post_def)
      then show ?thesis
        using drawn nxt i(2)
        by (auto simp: True under_way_def execute_step_def run_simps Some attempt_def x after_section_def runs_to_def
          update_conv' delete_conv' split: option.splits)
    qed
  qed
qed

lemma under_way_history:
  assumes "memory_host.pl_ok s" "env_ok (ps_env (pl_history None digest rs s))"
    and "under_way i r s" "no_gaps r" "list_all (leaves_alone i) rs"
  shows "under_way i r (pl_history None digest rs s)"
  using assms(1,2,3,5)
proof (induction rs arbitrary: s)
  case (Cons q rs)
  obtain c where c: "q = Call c" using Cons.prems(4) by (cases q) auto
  have env: "env_ok (ps_env (pl_handle None digest q s))" using Cons.prems(2) env_ok_mono [OF _ history_env] by simp
  have "memory_host.pl_ok (pl_handle None digest q s)" by (rule memory_host.handle_ok [OF Cons.prems(1) env])
  moreover have "under_way i r (pl_handle None digest q s)"
    using under_way_serve [OF Cons.prems(1) _ Cons.prems(3) assms(4)] env Cons.prems(4) by (simp add: c)
  ultimately show ?case using Cons.IH Cons.prems(2,4) by simp
qed simp

text \<open>What a trigger that creates a run leaves.\<close>

definition triggered :: "PipelineTriggerRequest \<Rightarrow> PipelineTriggerResult \<Rightarrow> 'p pipelines \<Rightarrow> bool" where
  "triggered request x t \<longleftrightarrow> (\<not> tr_replayed x \<and> rq_auto_start request \<longrightarrow> \<not> ps_closed t \<and>
     map_of (ps_runs t) (pl_id (tr_pipeline x)) = Some (tr_pipeline x) \<and>
     map_of (ps_tasks t) (pl_id (tr_pipeline x)) = Some ExecBegin \<and>
     (\<exists>now. tr_pipeline x = queued_run request (pl_id (tr_pipeline x)) now))"

lemma queued_run_id: "pl_id (queued_run request i now) = i"
  by (simp add: queued_run_def)

lemma queued_run_sections: "sections_left (queued_run request i now) ExecBegin = 3 + (\<Sum>s \<leftarrow> rq_stages request. 3 * length (ss_jobs s) + 2)"
  unfolding sections_begin by (simp add: queued_run_def comp_def)

lemma queued_run_no_gaps: "trigger_valid request \<Longrightarrow> no_gaps (queued_run request i now)"
  by (auto simp: trigger_valid_def no_gaps_def queued_run_def list_all_iff stage_spec_valid_def)

lemma view_queued_run: "view (queued_run request i now) = upon (queued_run request i now) (\<lambda>_. PQueued)"
  unfolding view_upon
proof (rule upon_eqI)
  show "status_at p (queued_run request i now) = PQueued" if "p \<in> places (queued_run request i now)" for p
    using that by (cases p) (auto simp: status_at_def queued_run_def not_started_def)
qed

lemma wp_trigger_new_started:
  assumes "\<not> ps_closed s"
  shows "wp (trigger_new None request fp) (triggered request) (\<lambda>_ _. True) s"
proof -
  define i where "i = str_of_uuid (id_at (ps_env s) (id_count (ps_env s)))"
  have rest: "wp (andThen (checkpoint None) (\<lambda>_.
     andThen (if rq_auto_start request then writes (ps_tasks_update (AList.update i ExecBegin)) else ret ()) (\<lambda>_.
     ret \<lparr>tr_pipeline = queued_run request i now, tr_replayed = False\<rparr>))) (triggered request) (\<lambda>_ _. True) u"
    if "\<not> ps_closed u" "map_of (ps_runs u) i = Some (queued_run request i now)" for u now
    by (rule wp_andThenI, rule wp_mono [OF unmoved.steps_wp [OF unmoved_checkpoint [of i]]])
      (use that in \<open>auto simp: wp_simps triggered_def update_conv' queued_run_id\<close>)
  show ?thesis
    unfolding trigger_new_def Let_def
    by (intro wp_andThenI [of pl_new_id] memory_host.wp_pl_new_id wp_andThenI [of pl_now] memory_host.wp_pl_now
        wp_andThenI [of "writes f" for f] wp_writesI, fold i_def, intro rest)
      (use assms in \<open>simp_all add: update_conv'\<close>)
qed

lemma wp_trigger_started:
  assumes "ps_initialized s"
  shows "wp (trigger None digest request) (triggered request) (\<lambda>_ _. True) s"
proof -
  have init: "initialize_locked None s = (Inr (), s)" using assms by (simp add: initialize_locked_def run_simps)
  show ?thesis
    unfolding trigger_def Let_def
    by (intro wp_andThenI [of "initialize_locked None"], simp add: wp_def [of "initialize_locked None"] init,
        unfold ensure_open_def, intro wp_intros wp_trigger_new_started)
      (auto simp: triggered_def)
qed

lemma under_way_start:
  assumes s: "memory_host.pl_ok s" and env: "env_ok (ps_env t)" and trigger: "trigger None digest request s = (Inr x, t)"
    and new: "\<not> tr_replayed x" "rq_auto_start request"
  shows "memory_host.pl_ok t" "map_of (ps_runs t) (pl_id (tr_pipeline x)) = Some (tr_pipeline x)"
    "under_way (pl_id (tr_pipeline x)) (tr_pipeline x) t" "\<exists>now. tr_pipeline x = queued_run request (pl_id (tr_pipeline x)) now"
proof -
  have init: "ps_initialized s"
    using s by (simp add: memory_host.pl_ok_def memory_host.pipelines_inv_def memory_host.whole_def memory_host.core_def memory_host.store_good_def)
  have t: "t = pl_handle None digest (Call (TriggerCall request)) s" by (simp add: trigger)
  show ok: "memory_host.pl_ok t" unfolding t by (rule memory_host.handle_ok [OF s]) (use env in \<open>simp add: trigger\<close>)
  have started: "triggered request x t" using wp_trigger_started [OF init] trigger by (rule wp_returns)
  then have "pl_id (tr_pipeline x) \<in> drawn_ids (ps_env t)"
    using ok new by (auto simp: triggered_def memory_host.pl_ok_def tasks_drawn_def dest!: map_of_SomeD)
  moreover show queued: "\<exists>now. tr_pipeline x = queued_run request (pl_id (tr_pipeline x)) now"
    using started new by (simp add: triggered_def)
  then have "view (tr_pipeline x) = upon (tr_pipeline x) (\<lambda>_. PQueued)" using view_queued_run by metis
  ultimately show "map_of (ps_runs t) (pl_id (tr_pipeline x)) = Some (tr_pipeline x)" "under_way (pl_id (tr_pipeline x)) (tr_pipeline x) t"
    using started new by (simp_all add: triggered_def under_way_def runs_to_def)
qed

section \<open>Outcomes\<close>

text \<open>C36: A simulated run does what its request says: in memory, after a trigger that creates a run and
  starts it, any later calls that do not cancel it, report on it or stop the service, and
  \<open>3 + 2n + 3m\<close> sections of its executor among them, the executor has returned and the run has the
  requested stages and jobs, all succeeded if no job was to fail. Otherwise the first job that was
  to fail, its stage and the run failed, everything before succeeded and everything after was
  cancelled.\<close>

theorem simulation_outcome:
  assumes "env_ok (ps_env (start_pipelines e None db digest (rs @ Call (TriggerCall request) # later)))"
    and "trigger None digest request (start_pipelines e None db digest rs) = (Inr x, t)"
    and "\<not> tr_replayed x" "rq_auto_start request"
  defines "run \<equiv> tr_pipeline x" and "u \<equiv> start_pipelines e None db digest (rs @ Call (TriggerCall request) # later)"
  assumes "trigger_valid request" "list_all (leaves_alone (pl_id run)) later"
    and "3 + (\<Sum>s \<leftarrow> rq_stages request. 3 * length (ss_jobs s) + 2) \<le> sections_in (pl_id run) later"
  shows "map_of (ps_tasks u) (pl_id run) = None \<and> (\<exists>now. run = queued_run request (pl_id run) now) \<and>
    (\<exists>run'. map_of (ps_runs u) (pl_id run) = Some run' \<and> plan_of run' = plan_of run \<and> outcome run (view run'))"
proof -
  let ?s = "start_pipelines e None db digest rs" and ?i = "pl_id run"
  have u: "u = pl_history None digest later t" unfolding u_def start_append by (simp add: assms(2))
  have final: "env_ok (ps_env (pl_history None digest later t))" using assms(1) by (simp only: u [symmetric] u_def)
  then have t: "env_ok (ps_env t)" by (rule env_ok_mono [OF _ history_env])
  then have "env_ok (ps_env ?s)" by (rule env_ok_mono) (use serve_env [of ?s None digest "TriggerCall request"] in \<open>simp add: assms(2)\<close>)
  then have "memory_host.pl_ok ?s"
    unfolding start_pipelines_def by (intro memory_host.history_ok memory_start)
  note start = under_way_start [OF this t assms(2-4), folded run_def]
  from start(4) obtain now where run: "run = queued_run request ?i now" by blast
  have gaps: "no_gaps run" by (subst run) (rule queued_run_no_gaps [OF assms(7)])
  have left: "sections_left run ExecBegin \<le> sections_in ?i later" by (subst run) (use assms(9) in \<open>simp only: queued_run_sections\<close>)
  have way: "under_way ?i run u" unfolding u by (rule under_way_history [OF start(1) final start(3) gaps assms(8)])
  have gone: "map_of (ps_tasks u) ?i = None"
    unfolding u by (rule memory_host.tasks_end [OF start(1) final start(2) left])
  show ?thesis using way gone start(4) by (auto simp: under_way_def runs_to_def)
qed

section \<open>Demonstrations\<close>

definition demo_sections :: "pl_request list" where
  "demo_sections = replicate 8 (Call (ExecutorCall (str_of_uuid 0)))"

definition demo_run :: PipelineRun where
  "demo_run = queued_run demo_trigger (str_of_uuid 0) (now_at demo_env 0)"

lemma no_variables_valid: "variables_valid []"
  by (simp add: variables_valid_def variables_json_def utf8_length_def)

lemma demo_valid: "trigger_valid demo_trigger"
  unfolding trigger_valid_def using no_variables_valid
  by (simp add: demo_trigger_def stage_spec_valid_def job_spec_valid_def text_within_def optional_text_within_def)

lemma demo_run_simps:
  "pl_id demo_run = str_of_uuid 0" "(\<Sum>s \<leftarrow> pl_stages demo_run. Suc (Suc (3 * length (sr_jobs s)))) = 5"
  "list_all (leaves_alone i) demo_sections" "sections_in (str_of_uuid 0) demo_sections = 8" "sum_list (map calls_in demo_sections) = 8"
  "(\<Sum>s \<leftarrow> rq_stages demo_trigger. Suc (Suc (3 * length (ss_jobs s)))) = 5"
  by (simp_all add: demo_run_def queued_run_def demo_trigger_def demo_sections_def sections_in_def eval_nat_numeral)

lemma demo_started_auto: "rq_auto_start demo_trigger"
  by (simp add: demo_trigger_def)

lemma some_false: "Ex Not"
  by (rule exI [of _ False]) simp

lemma demo_triggered:
  "fst (trigger None (\<lambda>_. ''d'') demo_trigger (start_pipelines demo_env None demo_db (\<lambda>_. ''d'') [])) =
     Inr \<lparr>tr_pipeline = demo_run, tr_replayed = False\<rparr>"
  "map_of (ps_runs (start_pipelines demo_env None demo_db (\<lambda>_. ''d'') [Call (TriggerCall demo_trigger)])) (str_of_uuid 0) = Some demo_run"
  by (simp_all add: start_pipelines_def pl_history_def trigger_def trigger_new_def initialize_locked_def ensure_open_def demo_run_def
    new_pipelines_def run_simps pl_new_id_def pl_now_def checkpoint_def synchronize_events_def demo_trigger_def Let_def demo_env_def some_false)

theorem executors_end_witness:
  "map_of (ps_tasks (start_pipelines demo_env None demo_db (\<lambda>_. ''d'') ([Call (TriggerCall demo_trigger)] @ demo_sections))) (str_of_uuid 0) = None"
  by (rule executors_end [OF demo_memory demo_pipelines_fair demo_triggered(2)]) (simp_all add: demo_run_simps)

theorem simulation_outcome_witness:
  "\<exists>run'. map_of (ps_runs (start_pipelines demo_env None demo_db (\<lambda>_. ''d'') ([] @ Call (TriggerCall demo_trigger) # demo_sections))) (str_of_uuid 0) =
     Some run' \<and> status_at (JobPlace 0 0) run' = PSucceeded \<and> status_at RunPlace run' = PSucceeded"
proof -
  obtain t where t: "trigger None (\<lambda>_. ''d'') demo_trigger (start_pipelines demo_env None demo_db (\<lambda>_. ''d'') []) =
     (Inr \<lparr>tr_pipeline = demo_run, tr_replayed = False\<rparr>, t)"
    using demo_triggered(1) by (metis prod.collapse)
  have env: "env_ok (ps_env (start_pipelines demo_env None demo_db (\<lambda>_. ''d'') ([] @ Call (TriggerCall demo_trigger) # demo_sections)))"
    by (rule demo_pipelines_fair) (simp add: demo_run_simps)
  have all: "length (pl_stages demo_run) = 1" "length (stage_jobs demo_run 0) = 1" "\<not> should_fail demo_run 0 0"
    by (simp_all add: demo_run_def queued_run_def demo_trigger_def)
  have "outcome demo_run V \<longleftrightarrow> passes demo_run 1 0 \<and> V = upon demo_run (\<lambda>_. PSucceeded)" for V
    by (auto simp: outcome_def all)
  with simulation_outcome [OF env t] obtain run' where run':
    "map_of (ps_runs (start_pipelines demo_env None demo_db (\<lambda>_. ''d'') ([] @ Call (TriggerCall demo_trigger) # demo_sections))) (str_of_uuid 0) = Some run'"
    "view run' = upon demo_run (\<lambda>_. PSucceeded)"
    by (auto simp: demo_run_simps demo_started_auto demo_valid)
  show ?thesis
    using run'(1) status_upon [OF run'(2)] all by (intro exI [of _ run']) simp
qed

end
