(* ===== verification/Binary64.thy ===== *)
theory Binary64
  imports Complex_Main
begin

text \<open>
  Division and multiplication of Python floats that stay in the normal range of binary64: the
  exact result rounded to the nearest multiple of the unit in the last place (53 significant
  bits, ties to even). A float is the rational it denotes. The lemmas show that the exponent is
  the right one and that rounding does not cross an integer of at most 53 bits.
\<close>

definition round_half_even :: "rat \<Rightarrow> int" where
  "round_half_even x =
     (let n = \<lfloor>x\<rfloor>; rest = x - of_int n
      in if rest < 1/2 then n else if 1/2 < rest then n + 1 else if even n then n else n + 1)"

text \<open>The exponent of the binade of a positive number, from the bit lengths of its two parts.\<close>

fun bit_count :: "nat \<Rightarrow> nat" where
  "bit_count n = (if n = 0 then 0 else Suc (bit_count (n div 2)))"

declare bit_count.simps [simp del]

definition binade :: "rat \<Rightarrow> int" where
  "binade x =
     (case quotient_of x of (a, b) \<Rightarrow>
        let e = int (bit_count (nat a)) - int (bit_count (nat b)) in if 2 powi e \<le> x then e else e - 1)"

definition to_double :: "rat \<Rightarrow> rat" where
  "to_double x = (if x = 0 then 0 else let ulp = 2 powi (binade x - 52) in of_int (round_half_even (x / ulp)) * ulp)"

text \<open>\<open>binade\<close> finds the exponent: \<open>2 ^ e \<le> x < 2 ^ (e + 1)\<close>.\<close>

lemma bit_count_bounds: "0 < n \<Longrightarrow> 2 ^ bit_count n \<le> 2 * n \<and> n < 2 ^ bit_count n"
proof (induction n rule: bit_count.induct)
  case (1 n)
  show ?case
  proof (cases "n div 2 = 0")
    case True
    then have "n = 1" using 1(2) by (simp add: div_eq_0_iff)
    then show ?thesis by (simp add: bit_count.simps)
  next
    case False
    then show ?thesis using 1 by (subst (1 2) bit_count.simps) auto
  qed
qed

lemma binade_exact:
  assumes "0 < x"
  shows "2 powi binade x \<le> x" "x < 2 powi (binade x + 1)"
proof -
  obtain a b where ab: "quotient_of x = (a, b)" by fastforce
  have b: "0 < b" using quotient_of_denom_pos [OF ab] .
  have x: "x = of_int a / of_int b" using quotient_of_div [OF ab] .
  then have a: "0 < a" using assms b by (simp add: zero_less_divide_iff)
  define p q where "p = int (bit_count (nat a))" and "q = int (bit_count (nat b))"
  have nats: "0 < nat a" "0 < nat b" using a b by simp_all
  have pw: "of_nat ((2::nat) ^ bit_count n) = (2 powi int (bit_count n) :: rat)" for n by simp
  have an: "rat_of_int a = of_nat (nat a)" "rat_of_int b = of_nat (nat b)" using a b by simp_all
  have bounds: "2 powi p \<le> 2 * rat_of_int a" "rat_of_int a < 2 powi p" "2 powi q \<le> 2 * rat_of_int b" "rat_of_int b < 2 powi q"
    unfolding an p_def q_def using bit_count_bounds [OF nats(1)] bit_count_bounds [OF nats(2)]
    by (metis (mono_tags) pw of_nat_le_iff of_nat_less_iff of_nat_mult of_nat_numeral)+
  have pos: "(0::rat) < 2 powi k" for k by simp
  have up: "x < 2 powi (p - q + 1)"
  proof -
    have "x < 2 powi p / rat_of_int b" unfolding x using b by (intro divide_strict_right_mono bounds) simp
    also have "\<dots> \<le> 2 powi p / (2 powi q / 2)" using bounds(3) b by (intro divide_left_mono) (auto intro!: mult_pos_pos)
    also have "\<dots> = 2 powi (p - q + 1)" by (simp add: power_int_add power_int_diff)
    finally show ?thesis .
  qed
  have low: "2 powi (p - q - 1) \<le> x"
  proof -
    have "2 powi (p - q - 1) = (2 powi p / 2) / (2 powi q :: rat)" by (simp add: power_int_diff)
    also have "\<dots> \<le> rat_of_int a / 2 powi q" using bounds(1) by (intro divide_right_mono) auto
    also have "\<dots> \<le> x" unfolding x using bounds(4) a b by (intro divide_left_mono) (auto intro!: mult_pos_pos)
    finally show ?thesis .
  qed
  have e: "binade x = (if 2 powi (p - q) \<le> x then p - q else p - q - 1)"
    by (simp add: binade_def ab Let_def p_def q_def)
  show "2 powi binade x \<le> x" using low by (simp add: e)
  show "x < 2 powi (binade x + 1)" using up by (simp add: e)
qed

lemma round_half_even_le: "y \<le> of_int m \<Longrightarrow> round_half_even y \<le> m"
proof -
  assume y: "y \<le> of_int m"
  show ?thesis
  proof (cases "\<lfloor>y\<rfloor> = m")
    case True
    then have "y = of_int m" using y of_int_floor_le [of y] by simp
    then show ?thesis by (simp add: round_half_even_def)
  next
    case False
    then have "\<lfloor>y\<rfloor> + 1 \<le> m" using y floor_mono [OF y] by simp
    then show ?thesis by (simp add: round_half_even_def Let_def)
  qed
qed

lemma round_half_even_ge: "of_int m \<le> y \<Longrightarrow> m \<le> round_half_even y"
  using le_floor_iff [of m y] by (simp add: round_half_even_def Let_def)

text \<open>Rounding to a double does not cross an integer of at most 53 bits.\<close>

lemma to_double_bounds:
  assumes "0 \<le> x" "x \<le> of_int m" "m < 2 ^ 53"
  shows "to_double x \<le> of_int m \<and> (of_int l \<le> x \<longrightarrow> of_int l \<le> to_double x)"
proof -
  have "to_double x \<le> of_int m \<and> (of_int l \<le> x \<longrightarrow> of_int l \<le> to_double x)" if "0 < x"
  proof -
    define u where "u = (2 powi (binade x - 52) :: rat)"
    have u: "0 < u" by (simp add: u_def)
    have "2 powi binade x < (2 powi 53 :: rat)"
    proof -
      have "2 powi binade x \<le> x" by (rule binade_exact(1) [OF that])
      also have "\<dots> \<le> rat_of_int m" by fact
      also have "\<dots> < 2 powi 53"
      proof -
        have "rat_of_int m < of_int (2 ^ 53)" using assms(3) by (simp only: of_int_less_iff)
        then show ?thesis by simp
      qed
      finally show ?thesis .
    qed
    then have "binade x < 53" by (intro power_int_le_imp_less_exp [of "2::rat" "binade x" 53]) (assumption | simp)+
    then have "binade x \<le> 52" by simp
    then have e: "- (binade x - 52) = int (nat (52 - binade x))" by simp
    have "1 / u = 2 powi (- (binade x - 52))" by (simp only: u_def power_int_minus inverse_eq_divide)
    also have "\<dots> = of_int (2 ^ nat (52 - binade x))" by (simp only: e power_int_of_nat of_int_power of_int_numeral)
    finally obtain k where k: "1 / u = of_int k" by blast
    have scale: "y / u = y * of_int k" for y using k by (simp add: divide_inverse)
    have d: "to_double x = of_int (round_half_even (x / u)) * u" using that by (simp add: to_double_def Let_def u_def)
    have "x / u \<le> of_int (m * k)" using assms(2) u by (simp add: divide_right_mono flip: scale)
    then have "of_int (round_half_even (x / u)) \<le> rat_of_int m / u"
      using round_half_even_le by (simp add: scale flip: of_int_mult)
    then have up: "to_double x \<le> of_int m" using u by (simp add: d pos_le_divide_eq)
    have "of_int l \<le> to_double x" if "of_int l \<le> x"
    proof -
      have "of_int (l * k) \<le> x / u" using that u by (simp add: divide_right_mono flip: scale)
      then have "rat_of_int l / u \<le> of_int (round_half_even (x / u))"
        using round_half_even_ge by (simp add: scale flip: of_int_mult)
      then show ?thesis using u by (simp add: d pos_divide_le_eq)
    qed
    with up show ?thesis by blast
  qed
  then show ?thesis using assms by (cases "x = 0") (auto simp: to_double_def)
qed

end
