(* ===== verification/Quality.thy ===== *)
theory Quality
  imports Snapshots Binary64
begin

text \<open>
  \<open>services/quality.py\<close> and the response models of \<open>schemas/quality.py\<close>: the quality report of a
  project over a period of days. A \<open>date\<close> is its day number. The report reads the repositories
  one after the other, so its computation is a function of the five lists it read. The labels
  the source has in Chinese are given in English, as the messages are.
\<close>

section \<open>Percentages\<close>

text \<open>\<open>round(numerator / denominator * 100, 1)\<close>, kept in tenths; Python rounds the exact value of the float, ties to even.\<close>

definition percent_tenths :: "nat \<Rightarrow> nat \<Rightarrow> int" where
  "percent_tenths numerator denominator =
     round_half_even (to_double (to_double (of_nat numerator / of_nat denominator) * 100) * 10)"

record CountAndRate =
  rate_numerator :: nat
  rate_denominator :: nat
  rate_percent :: "int option"

definition rate :: "nat \<Rightarrow> nat \<Rightarrow> CountAndRate" where
  "rate numerator denominator =
     \<lparr>rate_numerator = numerator, rate_denominator = denominator,
      rate_percent = (if denominator \<noteq> 0 then Some (percent_tenths numerator denominator) else None)\<rparr>"

section \<open>Periods\<close>

datatype TrendGranularity = DayTrend | WeekTrend

datatype quality_error = QualityError domain_error | OverflowError

definition max_period_days :: int where "max_period_days = 366"

text \<open>\<open>_timezone_for\<close>: the offset from UTC.\<close>

definition timezone_for :: "text_t \<Rightarrow> quality_error + int" where
  "timezone_for name =
     (if name = ''UTC'' then Inr 0
      else if name = ''Asia/Shanghai'' then Inr (8 * 60 * minute_us)
      else Inl (QualityError (BusinessValidationError ''timezone supports only UTC or Asia/Shanghai'')))"

text \<open>The end is the midnight after \<open>date_to\<close>; both bounds must be representable.\<close>

definition period_bounds :: "int \<Rightarrow> int \<Rightarrow> int \<Rightarrow> quality_error + instant \<times> instant" where
  "period_bounds date_from date_to offset =
     (if date_to < date_from then Inl (QualityError (BusinessValidationError ''date_to must not be before date_from''))
      else if date_to - date_from + 1 > max_period_days
        then Inl (QualityError (BusinessValidationError ''the period of a quality report is at most 366 days''))
      else
        let start = date_from * day_us - offset; end_local = (date_to + 1) * day_us in
        if end_local > dt_max \<or> start < dt_min then Inl OverflowError
        else Inr (start, end_local - offset))"

definition within_period :: "instant option \<Rightarrow> instant \<times> instant \<Rightarrow> bool" where
  "within_period v bounds = (case v of None \<Rightarrow> False | Some t \<Rightarrow> fst bounds \<le> t \<and> t < snd bounds)"

definition weekday :: "int \<Rightarrow> int" where "weekday day = (day + 3) mod 7"

definition local_day :: "int \<Rightarrow> instant \<Rightarrow> int" where
  "local_day offset t = day_of (t + offset)"

definition bucket_of_day :: "TrendGranularity \<Rightarrow> int \<Rightarrow> int" where
  "bucket_of_day g day = (if g = WeekTrend then day - weekday day else day)"

definition bucket_start :: "int \<Rightarrow> TrendGranularity \<Rightarrow> instant \<Rightarrow> int" where
  "bucket_start offset g t = bucket_of_day g (local_day offset t)"

text \<open>\<open>while cursor <= date_to\<close>\<close>

function collect_buckets :: "TrendGranularity \<Rightarrow> int \<Rightarrow> int \<Rightarrow> int list \<Rightarrow> int list" where
  "collect_buckets g date_to cursor found =
     (if cursor \<le> date_to then
        let bucket = bucket_of_day g cursor in
        collect_buckets g date_to (cursor + 1) (if bucket \<in> set found then found else found @ [bucket])
      else found)"
  by pat_completeness auto

termination
  by (relation "measure (\<lambda>(_, date_to, cursor, _). nat (date_to - cursor + 1))") auto

declare collect_buckets.simps [simp del]

definition period_bucket_starts :: "int \<Rightarrow> int \<Rightarrow> TrendGranularity \<Rightarrow> int list" where
  "period_bucket_starts date_from date_to g = collect_buckets g date_to date_from []"

section \<open>Facts about executions and audits\<close>

record facts =
  fact_counts :: "CaseResultStatus \<Rightarrow> nat"
  fact_reached :: "uuid set"
  fact_failures :: "(uuid \<times> uuid) set"

definition no_facts :: facts where
  "no_facts = \<lparr>fact_counts = (\<lambda>_. 0), fact_reached = {}, fact_failures = {}\<rparr>"

definition add_result :: "uuid \<Rightarrow> CaseExecutionResult \<Rightarrow> facts \<Rightarrow> facts" where
  "add_result execution_id r f =
     (let st = cr_status r in
      \<lparr>fact_counts = (fact_counts f)(st := fact_counts f st + 1),
       fact_reached = (if st \<noteq> NotRun then insert (cr_case_id r) (fact_reached f) else fact_reached f),
       fact_failures = (if st \<in> {Failed, Blocked} then insert (execution_id, cr_case_id r) (fact_failures f)
         else fact_failures f)\<rparr>)"

definition execution_facts :: "TestExecution list \<Rightarrow> facts" where
  "execution_facts execs = fold (\<lambda>e. fold (add_result (ex_id e)) (ex_results e)) execs no_facts"

definition is_reopen_event :: "AuditEvent \<Rightarrow> bool" where
  "is_reopen_event e \<longleftrightarrow> au_entity_type e = ''defect'' \<and> au_action e = StatusChanged \<and>
     (case map_of (au_changes e) ''status'' of None \<Rightarrow> False
      | Some c \<Rightarrow> chg_after c = JStr (defect_status_value Reopened))"

section \<open>Trends\<close>

datatype trend_count = CompletedExecutions | ResultCount CaseResultStatus | DefectsCreated | DefectsResolved
  | DefectsClosed | DefectsReopened

type_synonym counters = "int \<times> trend_count \<Rightarrow> nat"

definition bump :: "int \<Rightarrow> trend_count \<Rightarrow> counters \<Rightarrow> counters" where
  "bump bucket key c = c((bucket, key) := c (bucket, key) + 1)"

record QualityTrendPoint =
  qt_bucket_start :: int
  qt_completed_executions :: nat
  qt_passed :: nat
  qt_failed :: nat
  qt_blocked :: nat
  qt_skipped :: nat
  qt_not_run :: nat
  qt_pass_rate :: CountAndRate
  qt_defects_created :: nat
  qt_defects_resolved :: nat
  qt_defects_closed :: nat
  qt_defects_reopened :: nat

definition trend_point :: "counters \<Rightarrow> int \<Rightarrow> QualityTrendPoint" where
  "trend_point counters bucket =
     (let values = (\<lambda>key. counters (bucket, key)); passed = values (ResultCount Passed); failed = values (ResultCount Failed)
      in \<lparr>qt_bucket_start = bucket, qt_completed_executions = values CompletedExecutions,
          qt_passed = passed, qt_failed = failed, qt_blocked = values (ResultCount Blocked),
          qt_skipped = values (ResultCount Skipped), qt_not_run = values (ResultCount NotRun),
          qt_pass_rate = rate passed (passed + failed), qt_defects_created = values DefectsCreated,
          qt_defects_resolved = values DefectsResolved, qt_defects_closed = values DefectsClosed,
          qt_defects_reopened = values DefectsReopened\<rparr>)"

definition count_execution :: "int \<Rightarrow> TrendGranularity \<Rightarrow> TestExecution \<Rightarrow> counters \<Rightarrow> counters" where
  "count_execution offset g e c =
     (case ex_completed_at e of
        None \<Rightarrow> c  \<comment> \<open>the assertion: every selected execution has completed\<close>
      | Some t \<Rightarrow>
          let bucket = bucket_start offset g t in
          fold (\<lambda>r. bump bucket (ResultCount (cr_status r))) (ex_results e) (bump bucket CompletedExecutions c))"

definition defect_times :: "Defect \<Rightarrow> (trend_count \<times> instant option) list" where
  "defect_times d = [(DefectsCreated, Some (df_created_at d)), (DefectsResolved, df_resolved_at d), (DefectsClosed, df_closed_at d)]"

definition count_time :: "int \<Rightarrow> int \<Rightarrow> int \<Rightarrow> TrendGranularity \<Rightarrow> trend_count \<times> instant option \<Rightarrow> counters \<Rightarrow> counters" where
  "count_time date_from date_to offset g field c =
     (case snd field of
        None \<Rightarrow> c
      | Some t \<Rightarrow>
          if date_from \<le> local_day offset t \<and> local_day offset t \<le> date_to
          then bump (bucket_start offset g t) (fst field) c else c)"

text \<open>\<open>astimezone\<close> raises when the local time is past the year 9999; every time below is converted.\<close>

definition localizable :: "int \<Rightarrow> instant option \<Rightarrow> bool" where
  "localizable offset v \<longleftrightarrow> (case v of None \<Rightarrow> True | Some t \<Rightarrow> t + offset \<le> dt_max)"

definition build_trends ::
  "int \<Rightarrow> int \<Rightarrow> TrendGranularity \<Rightarrow> int \<Rightarrow> TestExecution list \<Rightarrow> Defect list \<Rightarrow> AuditEvent list \<Rightarrow>
   quality_error + QualityTrendPoint list" where
  "build_trends date_from date_to g offset execs found_defects reopen_events =
     (let counters =
        fold (\<lambda>e. bump (bucket_start offset g (au_created_at e)) DefectsReopened) reopen_events
          (fold (\<lambda>d. fold (count_time date_from date_to offset g) (defect_times d)) found_defects
            (fold (count_execution offset g) execs (\<lambda>_. 0)))
      in if list_all (\<lambda>e. localizable offset (ex_completed_at e)) execs \<and>
           list_all (\<lambda>d. list_all (\<lambda>f. localizable offset (snd f)) (defect_times d)) found_defects \<and>
           list_all (\<lambda>e. localizable offset (Some (au_created_at e))) reopen_events
         then Inr (map (trend_point counters) (period_bucket_starts date_from date_to g))
         else Inl OverflowError)"

section \<open>Coverage by suite\<close>

text \<open>
  The loop of \<open>_build_suite_coverage\<close> over the parents of a candidate: the parent identifiers it
  visits, also one that no suite has. A parent visited before ends the loop.
\<close>

function visited_parents :: "(uuid \<times> TestSuite) list \<Rightarrow> uuid list \<Rightarrow> uuid option \<Rightarrow> uuid list" where
  "visited_parents by_id visited None = visited"
| "visited_parents by_id visited (Some parent_id) =
     (if parent_id \<in> set visited then visited
      else case map_of by_id parent_id of
          None \<Rightarrow> parent_id # visited
        | Some parent \<Rightarrow> visited_parents by_id (parent_id # visited) (ts_parent_id parent))"
  by pat_completeness auto

termination
  by (relation "measure (\<lambda>(d, visited, _). card (fst ` set d - set visited))")
    (auto intro!: visit_decreases [unfolded repo_get_def] simp del: list.set)

text \<open>\<open>descendant_ids[suite_id]\<close>: the suite and every candidate whose parents include it.\<close>

definition descendant_ids :: "TestSuite list \<Rightarrow> uuid \<Rightarrow> uuid set" where
  "descendant_ids suites suite_id =
     insert suite_id (ts_id ` set (filter (\<lambda>c. suite_id \<in> set (visited_parents (suites_by_id suites) [] (ts_parent_id c))) suites))"

text \<open>The loop of \<open>_suite_paths\<close> from one suite: the names up to the root.\<close>

function names_to_root :: "(uuid \<times> TestSuite) list \<Rightarrow> uuid list \<Rightarrow> text_t list \<Rightarrow> TestSuite \<Rightarrow> text_t list" where
  "names_to_root by_id visited names current =
     (if ts_id current \<in> set visited then names @ [''[cycle]'']
      else case ts_parent_id current of
          None \<Rightarrow> names @ [ts_name current]
        | Some parent_id \<Rightarrow>
            (case map_of by_id parent_id of
               None \<Rightarrow> names @ [ts_name current, ''[missing parent]'']
             | Some parent \<Rightarrow> names_to_root by_id (ts_id current # visited) (names @ [ts_name current]) parent))"
  by pat_completeness auto

termination
proof (relation "measure (\<lambda>(by_id, visited, _, current). card (insert (ts_id current) (ts_id ` snd ` set by_id) - set visited))",
    goal_cases)
  case (2 by_id visited names current parent_id parent)
  have "parent \<in> snd ` set by_id" using 2(3) by (force dest: map_of_SomeD)
  then have "insert (ts_id parent) (ts_id ` snd ` set by_id) - set (ts_id current # visited) \<subset>
      insert (ts_id current) (ts_id ` snd ` set by_id) - set visited"
    using 2(1) by auto
  then show ?case by (simp add: psubset_card_mono del: list.set)
qed simp

declare names_to_root.simps [simp del]

text \<open>\<open>"/".join(...)\<close>\<close>

fun join_slash :: "text_t list \<Rightarrow> text_t" where
  "join_slash [] = []"
| "join_slash [x] = x"
| "join_slash (x # xs) = x @ ''/'' @ join_slash xs"

definition suite_path_text :: "TestSuite list \<Rightarrow> TestSuite \<Rightarrow> text_t" where
  "suite_path_text suites s = join_slash (rev (names_to_root (suites_by_id suites) [] [] s))"

record SuiteCoverage =
  cov_suite_id :: "uuid option"
  cov_suite_path :: text_t
  cov_suite_status :: "TestSuiteStatus option"
  cov_active_cases :: nat
  cov_automated_cases :: nat
  cov_automation_coverage :: CountAndRate
  cov_executed_cases :: nat
  cov_execution_reach :: CountAndRate
  cov_failed_or_blocked_results :: nat
  cov_linked_failed_or_blocked_results :: nat
  cov_failure_defect_coverage :: CountAndRate

definition coverage_row ::
  "uuid option \<Rightarrow> text_t \<Rightarrow> TestSuiteStatus option \<Rightarrow> TestCase list \<Rightarrow> uuid set \<Rightarrow> (uuid \<times> uuid) set \<Rightarrow> (uuid \<times> uuid) set \<Rightarrow> SuiteCoverage" where
  "coverage_row suite_id path status cases reached_case_ids failure_pairs linked_failure_pairs =
     (let case_ids = tc_id ` set cases; automated = length (filter (\<lambda>c. tc_case_type c = Automated) cases);
          reached = case_ids \<inter> reached_case_ids; failures = {pair \<in> failure_pairs. snd pair \<in> case_ids};
          linked = failures \<inter> linked_failure_pairs
      in \<lparr>cov_suite_id = suite_id, cov_suite_path = path, cov_suite_status = status,
          cov_active_cases = length cases, cov_automated_cases = automated,
          cov_automation_coverage = rate automated (length cases),
          cov_executed_cases = card reached, cov_execution_reach = rate (card reached) (length cases),
          cov_failed_or_blocked_results = card failures, cov_linked_failed_or_blocked_results = card linked,
          cov_failure_defect_coverage = rate (card linked) (card failures)\<rparr>)"

definition scoped_cases :: "TestCase list \<Rightarrow> uuid set \<Rightarrow> TestCase list" where
  "scoped_cases cases scope = filter (\<lambda>c. case tc_suite_id c of None \<Rightarrow> False | Some i \<Rightarrow> i \<in> scope) cases"

definition build_suite_coverage ::
  "TestCase list \<Rightarrow> TestSuite list \<Rightarrow> uuid set \<Rightarrow> (uuid \<times> uuid) set \<Rightarrow> (uuid \<times> uuid) set \<Rightarrow> SuiteCoverage list" where
  "build_suite_coverage cases suites reached_case_ids failure_pairs linked_failure_pairs =
     (let row = (\<lambda>s. coverage_row (Some (ts_id s)) (suite_path_text suites s) (Some (ts_status s))
            (scoped_cases cases (descendant_ids suites (ts_id s))) reached_case_ids failure_pairs linked_failure_pairs);
          unassigned = filter (\<lambda>c. tc_suite_id c = None) cases;
          rows = map row suites @ (if unassigned = [] then []
            else [coverage_row None ''(unassigned)'' None unassigned reached_case_ids failure_pairs linked_failure_pairs])
      in sort_key (\<lambda>r. (cov_suite_id r = None, cov_suite_path r)) rows)"

section \<open>The report\<close>

record QualityPeriod =
  period_from :: int
  period_to :: int
  period_timezone :: text_t

record TestCaseQualitySummary =
  tq_total_current :: nat
  tq_active_current :: nat
  tq_automated_active_current :: nat
  tq_automation_coverage :: CountAndRate
  tq_execution_reach :: CountAndRate

record ExecutionQualitySummary =
  eq_completed_executions :: nat
  eq_total_results :: nat
  eq_executed_results :: nat
  eq_passed :: nat
  eq_failed :: nat
  eq_blocked :: nat
  eq_skipped :: nat
  eq_not_run :: nat
  eq_completion_rate :: CountAndRate
  eq_pass_rate :: CountAndRate
  eq_failure_defect_coverage :: CountAndRate

record DefectQualitySummary =
  dq_created_in_period :: nat
  dq_resolved_in_period :: nat
  dq_closed_in_period :: nat
  dq_reopened_in_period :: nat
  dq_not_closed_current :: nat
  dq_unresolved_current :: nat
  dq_high_severity_not_closed_current :: nat

record QualitySummary =
  qs_project_id :: uuid
  qs_period :: QualityPeriod
  qs_test_cases :: TestCaseQualitySummary
  qs_executions :: ExecutionQualitySummary
  qs_defects :: DefectQualitySummary
  qs_generated_at :: instant

record QualityReport =
  qr_summary :: QualitySummary
  qr_granularity :: TrendGranularity
  qr_trends :: "QualityTrendPoint list"
  qr_coverage_by_suite :: "SuiteCoverage list"

definition all_results :: "CaseResultStatus list" where
  "all_results = [NotRun, Passed, Failed, Blocked, Skipped]"

definition case_summary :: "TestCase list \<Rightarrow> uuid set \<Rightarrow> TestCaseQualitySummary" where
  "case_summary project_cases reached_case_ids =
     (let active = filter (\<lambda>c. tc_status c = CaseActive) project_cases;
          reached_active = reached_case_ids \<inter> tc_id ` set active;
          automated_active = filter (\<lambda>c. tc_case_type c = Automated) active
      in \<lparr>tq_total_current = length project_cases, tq_active_current = length active,
          tq_automated_active_current = length automated_active,
          tq_automation_coverage = rate (length automated_active) (length active),
          tq_execution_reach = rate (card reached_active) (length active)\<rparr>)"

definition execution_summary :: "TestExecution list \<Rightarrow> facts \<Rightarrow> (uuid \<times> uuid) set \<Rightarrow> ExecutionQualitySummary" where
  "execution_summary selected f linked_failure_pairs =
     (let total = sum_list (map (fact_counts f) all_results); not_run = fact_counts f NotRun; executed = total - not_run;
          passed = fact_counts f Passed; failed = fact_counts f Failed
      in \<lparr>eq_completed_executions = length selected, eq_total_results = total, eq_executed_results = executed,
          eq_passed = passed, eq_failed = failed, eq_blocked = fact_counts f Blocked, eq_skipped = fact_counts f Skipped,
          eq_not_run = not_run, eq_completion_rate = rate executed total, eq_pass_rate = rate passed (passed + failed),
          eq_failure_defect_coverage = rate (card linked_failure_pairs) (card (fact_failures f))\<rparr>)"

definition count_within :: "instant \<times> instant \<Rightarrow> instant option list \<Rightarrow> nat" where
  "count_within bounds stamps = length (filter (\<lambda>t. within_period t bounds) stamps)"

definition defect_summary :: "Defect list \<Rightarrow> instant \<times> instant \<Rightarrow> nat \<Rightarrow> DefectQualitySummary" where
  "defect_summary project_defects bounds reopened =
     (let not_closed = filter (\<lambda>d. df_status d \<noteq> DefectClosed) project_defects
      in \<lparr>dq_created_in_period = count_within bounds (map (\<lambda>d. Some (df_created_at d)) project_defects),
          dq_resolved_in_period = count_within bounds (map df_resolved_at project_defects),
          dq_closed_in_period = count_within bounds (map df_closed_at project_defects),
          dq_reopened_in_period = reopened,
          dq_not_closed_current = length not_closed,
          dq_unresolved_current = length (filter (\<lambda>d. df_status d \<in> {DefectOpen, InProgress, Reopened}) project_defects),
          dq_high_severity_not_closed_current = length (filter (\<lambda>d. df_severity d \<in> {Blocker, Critical}) not_closed)\<rparr>)"

text \<open>Failures that a defect of the project names by execution and case.\<close>

definition linked_failures :: "Defect list \<Rightarrow> (uuid \<times> uuid) set \<Rightarrow> (uuid \<times> uuid) set" where
  "linked_failures project_defects failure_pairs =
     set (filter (\<lambda>p. p \<in> failure_pairs)
       (concat (map (\<lambda>d. case (df_execution_id d, df_case_id d) of (Some e, Some c) \<Rightarrow> [(e, c)] | _ \<Rightarrow> []) project_defects)))"

text \<open>
  The computation of \<open>report\<close> from the lists it read: the completed executions of the project in
  the period and the reopenings in the period are what the metrics count.
\<close>

definition selected_executions :: "uuid \<Rightarrow> instant \<times> instant \<Rightarrow> TestExecution list \<Rightarrow> TestExecution list" where
  "selected_executions project_id bounds execs =
     filter (\<lambda>e. ex_status e = ExecCompleted \<and> within_period (ex_completed_at e) bounds)
       (filter (\<lambda>e. ex_project_id e = project_id) execs)"

definition reopened_audits :: "uuid \<Rightarrow> instant \<times> instant \<Rightarrow> AuditEvent list \<Rightarrow> AuditEvent list" where
  "reopened_audits project_id bounds audits =
     filter (\<lambda>e. is_reopen_event e \<and> within_period (Some (au_created_at e)) bounds)
       (filter (\<lambda>e. au_project_id e = Some project_id) audits)"

definition quality_report ::
  "uuid \<Rightarrow> int \<Rightarrow> int \<Rightarrow> TrendGranularity \<Rightarrow> text_t \<Rightarrow> int \<Rightarrow> instant \<times> instant \<Rightarrow> instant \<Rightarrow>
   TestCase list \<Rightarrow> TestSuite list \<Rightarrow> TestExecution list \<Rightarrow> Defect list \<Rightarrow> AuditEvent list \<Rightarrow> quality_error + QualityReport" where
  "quality_report project_id date_from date_to g timezone_name offset bounds now cases suites execs all_defects audits =
     (let project_cases = filter (\<lambda>c. tc_project_id c = project_id) cases;
          project_suites = filter (\<lambda>s. ts_project_id s = project_id) suites;
          project_defects = filter (\<lambda>d. df_project_id d = project_id) all_defects;
          selected = selected_executions project_id bounds execs;
          reopened = reopened_audits project_id bounds audits;
          f = execution_facts selected;
          linked = linked_failures project_defects (fact_failures f);
          summary = \<lparr>qs_project_id = project_id,
            qs_period = \<lparr>period_from = date_from, period_to = date_to, period_timezone = timezone_name\<rparr>,
            qs_test_cases = case_summary project_cases (fact_reached f),
            qs_executions = execution_summary selected f linked,
            qs_defects = defect_summary project_defects bounds (length reopened),
            qs_generated_at = now\<rparr>
      in bind_sum (build_trends date_from date_to g offset selected project_defects reopened) (\<lambda>trends.
         Inr \<lparr>qr_summary = summary, qr_granularity = g, qr_trends = trends,
           qr_coverage_by_suite = build_suite_coverage (filter (\<lambda>c. tc_status c = CaseActive) project_cases) project_suites
             (fact_reached f) (fact_failures f) linked\<rparr>))"

text \<open>\<open>_as_utc\<close> reads a naive time as UTC.\<close>

fun utc_of :: "dt \<Rightarrow> instant" where
  "utc_of (Aware t) = t"
| "utc_of (Naive t) = t"

definition lift_domain :: "domain_error + 'a \<Rightarrow> quality_error + 'a" where
  "lift_domain r = (case r of Inl e \<Rightarrow> Inl (QualityError e) | Inr x \<Rightarrow> Inr x)"

definition report ::
  "id_arg \<Rightarrow> int \<Rightarrow> int \<Rightarrow> TrendGranularity \<Rightarrow> text_t \<Rightarrow> dt option \<Rightarrow> (qa, quality_error, QualityReport) prog" where
  "report project_id date_from date_to g timezone_name generated_at =
     andThen (from_sum (lift_domain (parse_uuid project_id ''project_id''))) (\<lambda>parsed.
     andThen (reads (\<lambda>s. repo_get (Projects s) parsed)) (\<lambda>project.
     andThen (from_option (QualityError (NotFoundError ''project'' (str_of_uuid parsed))) project) (\<lambda>_.
     andThen (from_sum (timezone_for timezone_name)) (\<lambda>offset.
     andThen (from_sum (period_bounds date_from date_to offset)) (\<lambda>bounds.
     andThen (reads (\<lambda>s. repo_list (TestCases s))) (\<lambda>cases.
     andThen (reads (\<lambda>s. repo_list (TestSuites s))) (\<lambda>suites.
     andThen (reads (\<lambda>s. repo_list (Executions s))) (\<lambda>execs.
     andThen (reads (\<lambda>s. repo_list (Defects s))) (\<lambda>all_defects.
     andThen (reads (\<lambda>s. repo_list (audit_events s))) (\<lambda>audits.
     andThen (case generated_at of
         None \<Rightarrow> (\<lambda>s. (Inr (clock s (ticks s)), s\<lparr>ticks := Suc (ticks s)\<rparr>))
       | Some d \<Rightarrow> ret (utc_of d)) (\<lambda>now.
     from_sum (quality_report parsed date_from date_to g timezone_name offset bounds now cases suites execs all_defects audits))))))))))))"

end
