(* ===== verification/Quality_Properties.thy ===== *)
theory Quality_Properties
  imports Quality
begin

text \<open>
  What the numbers of a quality report mean: the points of the trend add up to the summary, no
  rate exceeds its base, and the row of a suite counts the active cases of its subtree.
\<close>

section \<open>Buckets\<close>

lemma bucket_mono: "c \<le> d \<Longrightarrow> bucket_of_day g c \<le> bucket_of_day g d"
  unfolding bucket_of_day_def weekday_def by (cases g; simp) presburger+

text \<open>The loop invariant: the buckets found are those of the days before the cursor, in order.\<close>

lemma collect_buckets_exact:
  assumes "set found = bucket_of_day g ` {a..<cursor}" "sorted_wrt (<) found" "a \<le> cursor" "cursor \<le> b + 1"
  shows "set (collect_buckets g b cursor found) = bucket_of_day g ` {a..b} \<and> sorted_wrt (<) (collect_buckets g b cursor found)"
  using assms
proof (induction g b cursor found rule: collect_buckets.induct)
  case (1 g b cursor found)
  show ?case
  proof (cases "cursor \<le> b")
    case True
    have days: "{a..<cursor + 1} = insert cursor {a..<cursor}" using 1(4) by auto
    have last: "x < bucket_of_day g cursor" if "x \<in> set found" "bucket_of_day g cursor \<notin> set found" for x
    proof -
      have "x \<noteq> bucket_of_day g cursor" using that by blast
      moreover have "x \<le> bucket_of_day g cursor" using that(1) 1(2) bucket_mono by fastforce
      ultimately show ?thesis by simp
    qed
    let ?found = "if bucket_of_day g cursor \<in> set found then found else found @ [bucket_of_day g cursor]"
    have "set ?found = bucket_of_day g ` {a..<cursor + 1}" using 1(2) by (auto simp: days)
    moreover have "sorted_wrt (<) ?found" using 1(3) last by (auto simp: sorted_wrt_append)
    ultimately show ?thesis
      using 1(1) [OF True refl] 1(4,5) True by (simp add: collect_buckets.simps [of g b cursor found] Let_def)
  next
    case False
    then have "{a..<cursor} = {a..b}" using 1(5) by auto
    then show ?thesis using False 1(2,3) by (simp add: collect_buckets.simps [of g b cursor found])
  qed
qed

lemma period_buckets:
  assumes "a \<le> b"
  shows "set (period_bucket_starts a b g) = bucket_of_day g ` {a..b}" "sorted_wrt (<) (period_bucket_starts a b g)"
  using collect_buckets_exact [of "[]" g a a b] assms by (simp_all add: period_bucket_starts_def)

lemma le_div_iff: "0 < k \<Longrightarrow> a \<le> x div k \<longleftrightarrow> a * k \<le> x" for a :: int
proof
  assume k: "0 < k" and "a \<le> x div k"
  then have "a * k \<le> x div k * k" by (simp add: mult_right_mono)
  then show "a * k \<le> x" using pos_mod_sign [OF k, of x] by (simp flip: minus_mod_eq_div_mult)
next
  assume k: "0 < k" and "a * k \<le> x"
  then have "a * k div k \<le> x div k" by (rule zdiv_mono1 [rotated])
  then show "a \<le> x div k" using k by simp
qed

lemma within_local:
  assumes "period_bounds a b offset = Inr bounds"
  shows "within_period (Some t) bounds \<longleftrightarrow> a \<le> local_day offset t \<and> local_day offset t \<le> b" "a \<le> b"
proof -
  have bounds: "bounds = (a * day_us - offset, (b + 1) * day_us - offset)" and "a \<le> b"
    using assms by (auto simp: period_bounds_def Let_def split: if_splits)
  then show "a \<le> b" by simp
  have "0 < day_us" by (simp add: day_us_def)
  note days = le_div_iff [OF this, of a "t + offset"] le_div_iff [OF this, of "b + 1" "t + offset"]
  have "local_day offset t \<le> b \<longleftrightarrow> \<not> b + 1 \<le> (t + offset) div day_us"
    by (auto simp: local_day_def day_of_def)
  then show "within_period (Some t) bounds \<longleftrightarrow> a \<le> local_day offset t \<and> local_day offset t \<le> b"
    unfolding days(2) using days(1) by (auto simp: within_period_def bounds local_day_def day_of_def)
qed

section \<open>Counting\<close>

abbreviation bumps :: "(int \<times> trend_count) list \<Rightarrow> counters \<Rightarrow> counters" where
  "bumps \<equiv> fold (\<lambda>(bucket, key). bump bucket key)"

lemma bumps_count: "bumps evs c p = c p + count_list evs p"
  by (induction evs arbitrary: c) (auto simp: bump_def)

lemma fold_bumps: "(\<And>x c. x \<in> set xs \<Longrightarrow> f x c = bumps (evs x) c) \<Longrightarrow> fold f xs c = bumps (concat (map evs xs)) c"
  by (induction xs arbitrary: c) auto

text \<open>Summed over all buckets, the counters of a key count the events of this key.\<close>

lemma count_list_filter: "count_list xs x = length (filter (\<lambda>y. y = x) xs)"
  by (induction xs) auto

lemma sum_buckets:
  assumes "distinct bs" "\<And>b k. (b, k) \<in> set evs \<Longrightarrow> b \<in> set bs"
  shows "sum_list (map (\<lambda>b. count_list evs (b, key)) bs) = length (filter (\<lambda>e. snd e = key) evs)"
  using assms(2)
proof (induction evs)
  case (Cons e evs)
  obtain b k where e: "e = (b, k)" by (cases e)
  have "sum_list (map (\<lambda>c. count_list (e # evs) (c, key)) bs) =
      sum_list (map (\<lambda>c. count_list evs (c, key)) bs) + sum_list (map (\<lambda>c. if c = b \<and> k = key then 1 else 0) bs)"
    by (simp add: e flip: sum_list_addf) (rule arg_cong [where f = sum_list], rule map_cong, auto)
  also have "sum_list (map (\<lambda>c. if c = b \<and> k = key then 1 else 0 :: nat) bs) = (if k = key then 1 else 0)"
  proof (cases "k = key")
    case True
    have "b \<in> set bs" using Cons.prems by (auto simp: e)
    then have "sum_list (map (\<lambda>c. if c = b then 1 else 0 :: nat) bs) = 1"
      using assms(1) by (induction bs) (auto simp: sum_list_eq_0_iff)
    then show ?thesis using True by simp
  qed simp
  also have "sum_list (map (\<lambda>c. count_list evs (c, key)) bs) = length (filter (\<lambda>e. snd e = key) evs)"
    by (rule Cons.IH) (use Cons.prems in auto)
  finally show ?case by (simp add: e)
qed simp

definition execution_events :: "int \<Rightarrow> TrendGranularity \<Rightarrow> TestExecution \<Rightarrow> (int \<times> trend_count) list" where
  "execution_events offset g e = (case ex_completed_at e of None \<Rightarrow> []
     | Some t \<Rightarrow> (bucket_start offset g t, CompletedExecutions) #
         map (\<lambda>r. (bucket_start offset g t, ResultCount (cr_status r))) (ex_results e))"

definition time_events :: "int \<Rightarrow> int \<Rightarrow> int \<Rightarrow> TrendGranularity \<Rightarrow> trend_count \<times> instant option \<Rightarrow> (int \<times> trend_count) list" where
  "time_events a b offset g field = (case snd field of None \<Rightarrow> []
     | Some t \<Rightarrow> if a \<le> local_day offset t \<and> local_day offset t \<le> b then [(bucket_start offset g t, fst field)] else [])"

definition trend_events ::
  "int \<Rightarrow> int \<Rightarrow> TrendGranularity \<Rightarrow> int \<Rightarrow> TestExecution list \<Rightarrow> Defect list \<Rightarrow> AuditEvent list \<Rightarrow> (int \<times> trend_count) list" where
  "trend_events a b g offset execs ds audits =
     concat (map (execution_events offset g) execs) @
     concat (map (\<lambda>d. concat (map (time_events a b offset g) (defect_times d))) ds) @
     map (\<lambda>e. (bucket_start offset g (au_created_at e), DefectsReopened)) audits"

lemma count_execution_events: "count_execution offset g e c = bumps (execution_events offset g e) c"
  by (simp add: count_execution_def execution_events_def fold_map comp_def Let_def split: option.split)

lemma count_time_events: "count_time a b offset g f c = bumps (time_events a b offset g f) c"
  by (simp add: count_time_def time_events_def split: option.split)

lemma trends_of_events:
  "build_trends a b g offset execs ds audits = Inr trends \<Longrightarrow>
   trends = map (trend_point (bumps (trend_events a b g offset execs ds audits) (\<lambda>_. 0))) (period_bucket_starts a b g)"
proof -
  have ex: "fold (count_execution offset g) execs c = bumps (concat (map (execution_events offset g) execs)) c" for c
    by (rule fold_bumps) (rule count_execution_events)
  have ds: "fold (\<lambda>d. fold (count_time a b offset g) (defect_times d)) ds c =
      bumps (concat (map (\<lambda>d. concat (map (time_events a b offset g) (defect_times d))) ds)) c" for c
    by (rule fold_bumps) (rule fold_bumps, rule count_time_events)
  assume "build_trends a b g offset execs ds audits = Inr trends"
  then show ?thesis
    by (simp add: build_trends_def Let_def ex ds trend_events_def fold_map comp_def split: if_splits)
qed

section \<open>The totals\<close>

lemma execution_event_totals:
  assumes "\<forall>e \<in> set execs. ex_completed_at e \<noteq> None"
  shows "length (filter (\<lambda>e. snd e = ResultCount st) (concat (map (execution_events offset g) execs))) =
      length (filter (\<lambda>r. cr_status r = st) (concat (map ex_results execs)))"
    "length (filter (\<lambda>e. snd e = CompletedExecutions) (concat (map (execution_events offset g) execs))) = length execs"
    "k \<in> {DefectsCreated, DefectsResolved, DefectsClosed, DefectsReopened} \<Longrightarrow>
      filter (\<lambda>e. snd e = k) (concat (map (execution_events offset g) execs)) = []"
  using assms by (induction execs) (auto simp: execution_events_def filter_map comp_def)

definition defect_events :: "int \<Rightarrow> int \<Rightarrow> int \<Rightarrow> TrendGranularity \<Rightarrow> Defect list \<Rightarrow> (int \<times> trend_count) list" where
  "defect_events a b offset g ds = concat (map (\<lambda>d. concat (map (time_events a b offset g) (defect_times d))) ds)"

lemma defect_event_totals:
  assumes "period_bounds a b offset = Inr bounds"
  shows "length (filter (\<lambda>e. snd e = DefectsCreated) (defect_events a b offset g ds)) = count_within bounds (map (\<lambda>d. Some (df_created_at d)) ds)"
    "length (filter (\<lambda>e. snd e = DefectsResolved) (defect_events a b offset g ds)) = count_within bounds (map df_resolved_at ds)"
    "length (filter (\<lambda>e. snd e = DefectsClosed) (defect_events a b offset g ds)) = count_within bounds (map df_closed_at ds)"
    "k \<notin> {DefectsCreated, DefectsResolved, DefectsClosed} \<Longrightarrow> filter (\<lambda>e. snd e = k) (defect_events a b offset g ds) = []"
proof -
  have one: "filter (\<lambda>e. snd e = k) (time_events a b offset g (l, v)) =
      (if k = l \<and> within_period v bounds then time_events a b offset g (l, v) else [])" for k l v
    using within_local(1) [OF assms] by (cases v) (auto simp: time_events_def within_period_def)
  have len: "length (time_events a b offset g (l, v)) = (if within_period v bounds then 1 else 0)" for l v
    using within_local(1) [OF assms] by (cases v) (auto simp: time_events_def within_period_def)
  show "length (filter (\<lambda>e. snd e = DefectsCreated) (defect_events a b offset g ds)) = count_within bounds (map (\<lambda>d. Some (df_created_at d)) ds)"
    "length (filter (\<lambda>e. snd e = DefectsResolved) (defect_events a b offset g ds)) = count_within bounds (map df_resolved_at ds)"
    "length (filter (\<lambda>e. snd e = DefectsClosed) (defect_events a b offset g ds)) = count_within bounds (map df_closed_at ds)"
    "k \<notin> {DefectsCreated, DefectsResolved, DefectsClosed} \<Longrightarrow> filter (\<lambda>e. snd e = k) (defect_events a b offset g ds) = []"
    by (induction ds) (simp_all add: defect_events_def count_within_def defect_times_def one len)
qed

lemma trend_events_split:
  "trend_events a b g offset execs ds audits = concat (map (execution_events offset g) execs) @ defect_events a b offset g ds @
     map (\<lambda>e. (bucket_start offset g (au_created_at e), DefectsReopened)) audits"
  by (simp add: trend_events_def defect_events_def)

text \<open>Every event lies in a bucket of the period.\<close>

lemma event_buckets:
  assumes bounds: "period_bounds a b offset = Inr bounds"
    and ex: "\<forall>e \<in> set execs. within_period (ex_completed_at e) bounds"
    and au: "\<forall>e \<in> set audits. within_period (Some (au_created_at e)) bounds"
    and e: "(c, k) \<in> set (trend_events a b g offset execs ds audits)"
  shows "c \<in> set (period_bucket_starts a b g)"
proof -
  have inside: "bucket_start offset g t \<in> set (period_bucket_starts a b g)"
    if "a \<le> local_day offset t" "local_day offset t \<le> b" for t
    using that period_buckets(1) [OF within_local(2) [OF bounds], of g] by (simp add: bucket_start_def)
  show ?thesis
    using e ex au inside within_local(1) [OF bounds]
    by (fastforce simp: trend_events_def execution_events_def time_events_def split: option.splits if_splits)
qed

lemma fact_counts_exact:
  "fact_counts (execution_facts execs) st = length (filter (\<lambda>r. cr_status r = st) (concat (map ex_results execs)))"
proof -
  have results: "fact_counts (fold (add_result i) rs f) st = fact_counts f st + length (filter (\<lambda>r. cr_status r = st) rs)" for i rs f
    by (induction rs arbitrary: f) (simp_all add: add_result_def Let_def)
  have "fact_counts (fold (\<lambda>e. fold (add_result (ex_id e)) (ex_results e)) execs f) st =
      fact_counts f st + length (filter (\<lambda>r. cr_status r = st) (concat (map ex_results execs)))" for f
    by (induction execs arbitrary: f) (simp_all add: results)
  then show ?thesis by (simp add: execution_facts_def no_facts_def)
qed

section \<open>Reports\<close>

lemma report_returns:
  assumes "report project_id a b g zone generated_at s = (Inr r, t)"
  obtains pid offset bounds now where "period_bounds a b offset = Inr bounds"
    "quality_report pid a b g zone offset bounds now (repo_list (TestCases s)) (repo_list (TestSuites s)) (repo_list (Executions s))
       (repo_list (Defects s)) (repo_list (audit_events s)) = Inr r"
  using assms unfolding report_def
  by (auto simp: run_simps split: sum.splits option.splits prod.splits if_splits)

text \<open>The events a report counts, from its parts.\<close>

lemma report_trends:
  assumes bounds: "period_bounds a b offset = Inr bounds"
    and r: "quality_report pid a b g zone offset bounds now cases suites execs ds audits = Inr r"
  defines "evs \<equiv> trend_events a b g offset (selected_executions pid bounds execs) (filter (\<lambda>d. df_project_id d = pid) ds)
    (reopened_audits pid bounds audits)"
  shows "qr_trends r = map (trend_point (count_list evs)) (period_bucket_starts a b g)"
    "sum_list (map (\<lambda>c. count_list evs (c, key)) (period_bucket_starts a b g)) = length (filter (\<lambda>e. snd e = key) evs)"
proof -
  have "bumps evs (\<lambda>_. 0) = count_list evs" by (simp add: fun_eq_iff bumps_count)
  then show "qr_trends r = map (trend_point (count_list evs)) (period_bucket_starts a b g)"
    using r by (auto simp: quality_report_def Let_def bind_sum_Inr evs_def dest!: trends_of_events)
  show "sum_list (map (\<lambda>c. count_list evs (c, key)) (period_bucket_starts a b g)) = length (filter (\<lambda>e. snd e = key) evs)"
  proof (rule sum_buckets)
    show "distinct (period_bucket_starts a b g)"
      using period_buckets(2) [OF within_local(2) [OF bounds]] strict_sorted_iff by blast
    show "c \<in> set (period_bucket_starts a b g)" if "(c, k) \<in> set evs" for c k
      using that unfolding evs_def
      by (rule event_buckets [OF bounds, rotated 2]) (auto simp: selected_executions_def reopened_audits_def)
  qed
qed

definition total :: "(QualityTrendPoint \<Rightarrow> nat) \<Rightarrow> QualityReport \<Rightarrow> nat" where
  "total f r = sum_list (map f (qr_trends r))"

text \<open>C38: The trend of a report is a partition of its summary: its buckets are strictly increasing, and summed
  over them the completed executions, the results of each status and the defects created,
  resolved, closed and reopened are exactly the numbers of the summary, in both time zones and
  both granularities. No event of the period falls outside the trend or is counted twice.\<close>

theorem report_trends_add_up:
  assumes "report project_id date_from date_to g zone generated_at s = (Inr r, t)"
  defines "E \<equiv> qs_executions (qr_summary r)" and "D \<equiv> qs_defects (qr_summary r)"
  shows "sorted_wrt (<) (map qt_bucket_start (qr_trends r)) \<and>
    total qt_completed_executions r = eq_completed_executions E \<and>
    total qt_passed r = eq_passed E \<and> total qt_failed r = eq_failed E \<and> total qt_blocked r = eq_blocked E \<and>
    total qt_skipped r = eq_skipped E \<and> total qt_not_run r = eq_not_run E \<and>
    total qt_defects_created r = dq_created_in_period D \<and> total qt_defects_resolved r = dq_resolved_in_period D \<and>
    total qt_defects_closed r = dq_closed_in_period D \<and> total qt_defects_reopened r = dq_reopened_in_period D"
proof -
  from report_returns [OF assms(1)] obtain pid offset bounds now where
    bounds: "period_bounds date_from date_to offset = Inr bounds"
    and r: "quality_report pid date_from date_to g zone offset bounds now (repo_list (TestCases s)) (repo_list (TestSuites s))
      (repo_list (Executions s)) (repo_list (Defects s)) (repo_list (audit_events s)) = Inr r" .
  let ?selected = "selected_executions pid bounds (repo_list (Executions s))"
  let ?ds = "filter (\<lambda>d. df_project_id d = pid) (repo_list (Defects s))"
  let ?audits = "reopened_audits pid bounds (repo_list (audit_events s))"
  note trends = report_trends [OF bounds r]
  have completed: "\<forall>e \<in> set ?selected. ex_completed_at e \<noteq> None"
    by (auto simp: selected_executions_def within_period_def split: option.splits)
  have sums: "total f r = length (filter (\<lambda>e. snd e = key) (trend_events date_from date_to g offset ?selected ?ds ?audits))"
    if "\<And>c b. f (trend_point c b) = c (b, key)" for f key
    by (simp add: total_def trends(1) comp_def that flip: trends(2))
  have exec: "E = execution_summary ?selected (execution_facts ?selected)
      (linked_failures ?ds (fact_failures (execution_facts ?selected)))"
    and defect: "D = defect_summary ?ds bounds (length ?audits)"
    using r by (auto simp: quality_report_def Let_def bind_sum_Inr E_def D_def)
  have point: "qt_bucket_start (trend_point c b) = b" "qt_completed_executions (trend_point c b) = c (b, CompletedExecutions)"
    "qt_passed (trend_point c b) = c (b, ResultCount Passed)" "qt_failed (trend_point c b) = c (b, ResultCount Failed)"
    "qt_blocked (trend_point c b) = c (b, ResultCount Blocked)" "qt_skipped (trend_point c b) = c (b, ResultCount Skipped)"
    "qt_not_run (trend_point c b) = c (b, ResultCount NotRun)" "qt_defects_created (trend_point c b) = c (b, DefectsCreated)"
    "qt_defects_resolved (trend_point c b) = c (b, DefectsResolved)" "qt_defects_closed (trend_point c b) = c (b, DefectsClosed)"
    "qt_defects_reopened (trend_point c b) = c (b, DefectsReopened)" for c b
    by (simp_all add: trend_point_def Let_def)
  note splits = trend_events_split execution_event_totals [OF completed] defect_event_totals [OF bounds] filter_map comp_def
  have "sorted_wrt (<) (map qt_bucket_start (qr_trends r))"
    using period_buckets(2) [OF within_local(2) [OF bounds]] by (simp add: trends(1) comp_def point(1))
  then show ?thesis
    by (simp add: sums [OF point(2)] sums [OF point(3)] sums [OF point(4)] sums [OF point(5)] sums [OF point(6)] sums [OF point(7)]
        sums [OF point(8)] sums [OF point(9)] sums [OF point(10)] sums [OF point(11)] splits exec defect execution_summary_def
        defect_summary_def Let_def fact_counts_exact)
qed

section \<open>Rates\<close>

lemma percent_bounds:
  assumes "n \<le> d" "d \<noteq> 0"
  shows "0 \<le> percent_tenths n d" "percent_tenths n d \<le> 1000" "n = d \<Longrightarrow> percent_tenths n d = 1000" "n = 0 \<Longrightarrow> percent_tenths n d = 0"
proof -
  let ?q = "rat_of_nat n / of_nat d"
  have q: "0 \<le> ?q" "?q \<le> of_int 1" using assms by simp_all
  have a: "of_int 0 \<le> to_double ?q" "to_double ?q \<le> of_int 1"
    using to_double_bounds [OF q, where l = 0] q(1) by simp_all
  then have p: "0 \<le> to_double ?q * 100" "to_double ?q * 100 \<le> of_int 100" by simp_all
  have b: "0 \<le> to_double (to_double ?q * 100)" "to_double (to_double ?q * 100) \<le> 100"
    using to_double_bounds [OF p, where l = 0] p(1) by simp_all
  show "0 \<le> percent_tenths n d" unfolding percent_tenths_def by (rule round_half_even_ge) (use b in simp)
  show le: "percent_tenths n d \<le> 1000" unfolding percent_tenths_def by (rule round_half_even_le) (use b in simp)
  show "percent_tenths n d = 1000" if "n = d"
  proof (rule antisym [OF le])
    have one: "?q = 1" using that assms by simp
    have "to_double 1 = 1" using to_double_bounds [of 1 1, where l = 1] by simp
    moreover have "to_double 100 = 100" using to_double_bounds [of 100 100, where l = 100] by simp
    ultimately show "1000 \<le> percent_tenths n d"
      unfolding percent_tenths_def one by (intro round_half_even_ge) simp
  qed
  show "percent_tenths n d = 0" if "n = 0"
    using that by (simp add: percent_tenths_def to_double_def round_half_even_def)
qed

text \<open>A rate with its percentage in tenths.\<close>

definition rate_ok :: "CountAndRate \<Rightarrow> bool" where
  "rate_ok c \<longleftrightarrow> rate_numerator c \<le> rate_denominator c \<and>
     (case rate_percent c of
        None \<Rightarrow> rate_denominator c = 0
      | Some p \<Rightarrow> rate_denominator c \<noteq> 0 \<and> 0 \<le> p \<and> p \<le> 1000 \<and>
          (rate_numerator c = 0 \<longrightarrow> p = 0) \<and> (rate_numerator c = rate_denominator c \<longrightarrow> p = 1000))"

lemma rate_ok: "n \<le> d \<Longrightarrow> rate_ok (rate n d)"
  using percent_bounds [of n d] by (auto simp: rate_ok_def rate_def)

lemma card_ids: "card (A \<inter> f ` set xs) \<le> length xs"
proof -
  have "card (A \<inter> f ` set xs) \<le> card (f ` set xs)" by (rule card_mono) auto
  also have "\<dots> \<le> length xs" using card_image_le [of "set xs" f] card_length [of xs] by simp
  finally show ?thesis .
qed

lemma finite_failures: "finite (fact_failures (execution_facts execs))"
proof -
  have results: "finite (fact_failures f) \<Longrightarrow> finite (fact_failures (fold (add_result i) rs f))" for i rs f
    by (induction rs arbitrary: f) (simp_all add: add_result_def Let_def)
  have "finite (fact_failures f) \<Longrightarrow> finite (fact_failures (fold (\<lambda>e. fold (add_result (ex_id e)) (ex_results e)) execs f))" for f
    by (induction execs arbitrary: f) (simp_all add: results)
  then show ?thesis by (simp add: execution_facts_def no_facts_def)
qed

lemma case_summary_rates:
  "rate_ok (tq_automation_coverage (case_summary cases reached))" "rate_ok (tq_execution_reach (case_summary cases reached))"
  using card_ids [of reached tc_id "filter (\<lambda>c. tc_status c = CaseActive) cases"]
  by (simp_all only: case_summary_def Let_def TestCaseQualitySummary.simps rate_ok length_filter_le)

definition row_rates :: "SuiteCoverage \<Rightarrow> CountAndRate list" where
  "row_rates c = [cov_automation_coverage c, cov_execution_reach c, cov_failure_defect_coverage c]"

lemma row_rates_ok:
  assumes "finite failures"
  shows "\<forall>c \<in> set (row_rates (coverage_row i path st cases reached failures linked)). rate_ok c"
proof -
  let ?f = "{pair \<in> failures. snd pair \<in> tc_id ` set cases}"
  have "card (?f \<inter> linked) \<le> card ?f" by (rule card_mono) (use assms in auto)
  then show ?thesis
    using card_ids [of reached tc_id cases] by (simp add: row_rates_def coverage_row_def Let_def rate_ok Int_commute)
qed

definition rates_of :: "QualityReport \<Rightarrow> CountAndRate list" where
  "rates_of r = (let t = qs_test_cases (qr_summary r); e = qs_executions (qr_summary r) in
     [tq_automation_coverage t, tq_execution_reach t, eq_completion_rate e, eq_pass_rate e, eq_failure_defect_coverage e] @
     map qt_pass_rate (qr_trends r) @ concat (map row_rates (qr_coverage_by_suite r)))"

text \<open>C40: In every report each of its rates (of the summary, of every point of the trend and of every
  suite) has a numerator not above its denominator; the percentage is absent exactly when the
  denominator is 0, lies between 0 and 100 although it is computed with floats, is 0 for an
  empty numerator and 100 for a full one.\<close>

theorem report_rates_sound:
  assumes "report project_id date_from date_to g zone generated_at s = (Inr r, t)"
  shows "\<forall>c \<in> set (rates_of r). rate_ok c"
proof -
  from report_returns [OF assms(1)] obtain pid offset bounds now where
    bounds: "period_bounds date_from date_to offset = Inr bounds"
    and r: "quality_report pid date_from date_to g zone offset bounds now (repo_list (TestCases s)) (repo_list (TestSuites s))
      (repo_list (Executions s)) (repo_list (Defects s)) (repo_list (audit_events s)) = Inr r" .
  let ?f = "execution_facts (selected_executions pid bounds (repo_list (Executions s)))"
  let ?ds = "filter (\<lambda>d. df_project_id d = pid) (repo_list (Defects s))"
  let ?cases = "filter (\<lambda>c. tc_project_id c = pid) (repo_list (TestCases s))"
  have "card (linked_failures ?ds (fact_failures ?f)) \<le> card (fact_failures ?f)"
    by (rule card_mono [OF finite_failures]) (auto simp: linked_failures_def)
  then have e: "\<forall>c \<in> {eq_completion_rate e, eq_pass_rate e, eq_failure_defect_coverage e}. rate_ok c"
    if "e = qs_executions (qr_summary r)" for e
    using r that by (auto simp: quality_report_def Let_def bind_sum_Inr execution_summary_def rate_ok)
  have "qs_test_cases (qr_summary r) = case_summary ?cases (fact_reached ?f)"
    using r by (auto simp: quality_report_def Let_def bind_sum_Inr)
  then have t: "\<forall>c \<in> {tq_automation_coverage u, tq_execution_reach u}. rate_ok c" if "u = qs_test_cases (qr_summary r)" for u
    using that case_summary_rates by simp
  have "\<forall>c \<in> qt_pass_rate ` set (qr_trends r). rate_ok c"
    unfolding report_trends(1) [OF bounds r] by (auto simp: trend_point_def Let_def rate_ok)
  moreover have "\<forall>row \<in> set (qr_coverage_by_suite r). \<forall>c \<in> set (row_rates row). rate_ok c"
    using r row_rates_ok [OF finite_failures]
    by (auto simp: quality_report_def Let_def bind_sum_Inr build_suite_coverage_def split: if_splits)
  ultimately show ?thesis using e t by (auto simp: rates_of_def Let_def)
qed

end
