(* ===== verification/Quality_Coverage.thy ===== *)
theory Quality_Coverage
  imports Quality_Properties Qa_Structure
begin

text \<open>
  The rows per suite of a quality report in the reachable states of the platform: the walk over
  the parents finds the same subtree as the loop of the snapshot service, and the rows without a
  parent split the active cases of the project.
\<close>

section \<open>The walk over the parents\<close>

lemma suites_by_id_exact:
  assumes "distinct (map ts_id suites)"
  shows "map_of (suites_by_id suites) k = Some s \<longleftrightarrow> s \<in> set suites \<and> ts_id s = k"
  using assms
proof (induction suites rule: rev_induct)
  case Nil
  then show ?case by (simp add: suites_by_id_def)
next
  case (snoc x xs)
  have "map_of (suites_by_id (xs @ [x])) = (map_of (suites_by_id xs))(ts_id x \<mapsto> x)"
    by (simp add: suites_by_id_def update_conv')
  then show ?case using snoc by (auto simp: image_iff)
qed

lemma child_rel_successor:
  assumes "distinct (map ts_id suites)" "s \<in> set suites"
  shows "(ts_id s, x) \<in> child_rel suites \<longleftrightarrow> ts_parent_id s = Some x"
  using assms by (auto simp: child_rel_def distinct_map inj_on_def)

lemma child_rel_single: "distinct (map ts_id suites) \<Longrightarrow> single_valued (child_rel suites)"
  by (force simp: single_valued_def child_rel_def distinct_map inj_on_def)

text \<open>Loop invariant: what a visited suite hangs under has been visited or comes next.\<close>

lemma visited_parents_exact:
  assumes ids: "distinct (map ts_id suites)"
    and "\<forall>v \<in> set visited. \<forall>x. (v, x) \<in> child_rel suites \<longrightarrow> x \<in> set visited \<or> start = Some x"
  shows "set (visited_parents (suites_by_id suites) visited start) =
    set visited \<union> {x. \<exists>p. start = Some p \<and> (p, x) \<in> (child_rel suites)\<^sup>*}"
  using assms(2)
proof (induction "suites_by_id suites" visited start rule: visited_parents.induct)
  case (2 visited p)
  consider (seen) "p \<in> set visited" | (missing) "p \<notin> set visited" "map_of (suites_by_id suites) p = None"
    | (parent) s where "p \<notin> set visited" "map_of (suites_by_id suites) p = Some s"
    by (cases "map_of (suites_by_id suites) p") auto
  then show ?case
  proof cases
    case seen
    have "x \<in> set visited" if "(p, x) \<in> (child_rel suites)\<^sup>*" for x
      using that seen by (induction rule: rtrancl_induct) (use 2(2) seen in auto)
    then show ?thesis using seen by auto
  next
    case missing
    have none: "(p, x) \<notin> child_rel suites" for x
      using missing(2) suites_by_id_exact [OF ids, of p] by (auto simp: child_rel_def)
    have "x = p" if "(p, x) \<in> (child_rel suites)\<^sup>*" for x
      using that by (cases rule: converse_rtranclE) (auto simp: none)
    then show ?thesis using missing by auto
  next
    case parent
    have s: "s \<in> set suites" "ts_id s = p" using parent(2) suites_by_id_exact [OF ids] by auto
    note up = child_rel_successor [OF ids s(1), unfolded s(2)]
    have "set (visited_parents (suites_by_id suites) (p # visited) (ts_parent_id s)) =
        set (p # visited) \<union> {x. \<exists>q. ts_parent_id s = Some q \<and> (q, x) \<in> (child_rel suites)\<^sup>*}"
      by (rule 2(1) [OF parent]) (use 2(2) up in auto)
    moreover have "(p, x) \<in> (child_rel suites)\<^sup>* \<longleftrightarrow> x = p \<or> (\<exists>q. ts_parent_id s = Some q \<and> (q, x) \<in> (child_rel suites)\<^sup>*)" for x
      using up by (blast elim: converse_rtranclE intro: converse_rtrancl_into_rtrancl)
    ultimately show ?thesis using parent by auto
  qed
qed simp

text \<open>The scope of a row is the scope that the snapshot service computes by its fixpoint loop.\<close>

lemma descendants_are_scope:
  assumes "distinct (map ts_id suites)"
  shows "descendant_ids suites k = suite_scope_ids k suites True"
proof -
  have walk: "k \<in> set (visited_parents (suites_by_id suites) [] (ts_parent_id c)) \<longleftrightarrow> (ts_id c, k) \<in> (child_rel suites)\<^sup>+"
    if "c \<in> set suites" for c
    using visited_parents_exact [OF assms, of "[]"] child_rel_successor [OF assms that]
    by (auto simp: trancl_unfold_left relcomp_unfold)
  have "(a, k) \<in> (child_rel suites)\<^sup>* \<longleftrightarrow> a = k \<or> (\<exists>c \<in> set suites. ts_id c = a \<and> (ts_id c, k) \<in> (child_rel suites)\<^sup>+)" for a
    by (auto simp: rtrancl_eq_or_trancl child_rel_def dest: tranclD)
  then show ?thesis
    unfolding descendant_ids_def grow_scope_closure suite_scope_ids_def by (auto simp: walk)
qed

section \<open>Roots\<close>

lemma roots_exist:
  assumes "acyclic (child_rel suites)" "s \<in> set suites"
    and closed: "\<forall>x \<in> set suites. \<forall>p. ts_parent_id x = Some p \<longrightarrow> p \<in> ts_id ` set suites"
  shows "\<exists>r \<in> set suites. ts_parent_id r = None \<and> (ts_id s, ts_id r) \<in> (child_rel suites)\<^sup>*"
proof -
  have "child_rel suites \<subseteq> (\<lambda>s. (ts_id s, the (ts_parent_id s))) ` set suites" by (force simp: child_rel_def)
  then have "wf ((child_rel suites)\<inverse>)" using assms(1) by (intro finite_acyclic_wf_converse) (auto intro: finite_subset)
  then show ?thesis using assms(2)
  proof (induction "ts_id s" arbitrary: s rule: wf_induct_rule)
    case less
    show ?case
    proof (cases "ts_parent_id s")
      case (Some p)
      obtain y where y: "y \<in> set suites" "ts_id y = p" using closed less(2) Some by fastforce
      have edge: "(ts_id s, ts_id y) \<in> child_rel suites" using less(2) Some y(2) by (auto simp: child_rel_def)
      then obtain r where "r \<in> set suites" "ts_parent_id r = None" "(ts_id y, ts_id r) \<in> (child_rel suites)\<^sup>*"
        using less(1) [of y] y(1) by auto
      then show ?thesis using edge converse_rtrancl_into_rtrancl by metis
    qed (use less(2) in auto)
  qed
qed

lemma roots_unique:
  assumes "distinct (map ts_id suites)" "q \<in> set suites" "r \<in> set suites" "ts_parent_id q = None" "ts_parent_id r = None"
    and "(k, ts_id q) \<in> (child_rel suites)\<^sup>*" "(k, ts_id r) \<in> (child_rel suites)\<^sup>*"
  shows "q = r"
proof -
  have stop: "b = a" if "(a, b) \<in> (child_rel suites)\<^sup>*" "a \<in> {ts_id q, ts_id r}" for a b
    using that child_rel_successor [OF assms(1,2)] child_rel_successor [OF assms(1,3)] assms(4,5)
    by (auto elim: converse_rtranclE)
  have "ts_id q = ts_id r"
    using single_valued_confluent [OF child_rel_single [OF assms(1)] assms(6,7)] stop by fastforce
  then show ?thesis using assms(1-3) by (auto simp: distinct_map inj_on_def)
qed

text \<open>Counting by a key that every counted element has exactly once.\<close>

lemma sum_unique_key:
  assumes "distinct ks"
    and "\<And>x. x \<in> set xs \<Longrightarrow> A x \<Longrightarrow> \<exists>k \<in> set ks. P k x" "\<And>x k. x \<in> set xs \<Longrightarrow> k \<in> set ks \<Longrightarrow> P k x \<Longrightarrow> A x"
    and "\<And>x j k. x \<in> set xs \<Longrightarrow> j \<in> set ks \<Longrightarrow> k \<in> set ks \<Longrightarrow> P j x \<Longrightarrow> P k x \<Longrightarrow> j = k"
  shows "sum_list (map (\<lambda>k. length (filter (P k) xs)) ks) = length (filter A xs)"
  using assms(2-4)
proof (induction xs)
  case (Cons x xs)
  have one: "sum_list (map (\<lambda>k. if P k x then 1 else 0 :: nat) ks) = (if A x then 1 else 0)"
  proof (cases "A x")
    case True
    then obtain j where j: "j \<in> set ks" "P j x" using Cons.prems(1) by auto
    have only: "P k x \<longleftrightarrow> k = j" if "k \<in> set ks" for k
      using Cons.prems(3) [of x j k] j that by auto
    have "sum_list (map (\<lambda>k. if P k x then 1 else 0 :: nat) ks) = sum_list (map (\<lambda>k. if k = j then 1 else 0) ks)"
      by (rule arg_cong [where f = sum_list], rule map_cong) (simp_all add: only)
    also have "\<dots> = 1"
      using assms(1) j(1) by (induction ks) (auto simp: sum_list_eq_0_iff)
    finally show ?thesis using True by simp
  next
    case False
    then show ?thesis using Cons.prems(2) [of x] by (auto simp: sum_list_eq_0_iff)
  qed
  have "sum_list (map (\<lambda>k. length (filter (P k) (x # xs))) ks) =
      sum_list (map (\<lambda>k. (if P k x then 1 else 0) + length (filter (P k) xs)) ks)"
    by (rule arg_cong [where f = sum_list], rule map_cong) auto
  also have "\<dots> = (if A x then 1 else 0) + sum_list (map (\<lambda>k. length (filter (P k) xs)) ks)"
    unfolding sum_list_addf one ..
  also have "sum_list (map (\<lambda>k. length (filter (P k) xs)) ks) = length (filter A xs)"
  proof (rule Cons.IH)
    show "\<exists>k \<in> set ks. P k y" if "y \<in> set xs" "A y" for y using that Cons.prems(1) by simp
    show "A y" if "y \<in> set xs" "k \<in> set ks" "P k y" for y k using that Cons.prems(2) [of y k] by simp
    show "j = k" if "y \<in> set xs" "j \<in> set ks" "k \<in> set ks" "P j y" "P k y" for y j k
      using that Cons.prems(3) [of y j k] by simp
  qed
  finally show ?case by simp
qed simp

section \<open>Rows\<close>

text \<open>A row is exact: it counts the active cases without a suite, or those whose suite lies in the subtree.\<close>

definition row_exact :: "TestCase list \<Rightarrow> TestSuite list \<Rightarrow> SuiteCoverage \<Rightarrow> bool" where
  "row_exact active suites row \<longleftrightarrow> cov_active_cases row = length (filter (\<lambda>c. case cov_suite_id row of
       None \<Rightarrow> tc_suite_id c = None
     | Some k \<Rightarrow> (\<exists>i \<in> suite_scope_ids k suites True. tc_suite_id c = Some i)) active)"

definition top_row :: "TestSuite list \<Rightarrow> SuiteCoverage \<Rightarrow> bool" where
  "top_row suites row \<longleftrightarrow> (\<forall>k. cov_suite_id row = Some k \<longrightarrow> (\<exists>s \<in> set suites. ts_id s = k \<and> ts_parent_id s = None))"

lemma scoped_filter:
  "distinct (map ts_id suites) \<Longrightarrow> scoped_cases active (descendant_ids suites k) =
     filter (\<lambda>c. \<exists>i \<in> suite_scope_ids k suites True. tc_suite_id c = Some i) active"
  unfolding scoped_cases_def descendants_are_scope by (rule filter_cong) (auto split: option.split)

lemma coverage_rows:
  assumes "distinct (map ts_id suites)"
  shows "mset (map cov_suite_id (build_suite_coverage active suites hit failures linked)) =
      mset (map (\<lambda>s. Some (ts_id s)) suites) + (if \<exists>c \<in> set active. tc_suite_id c = None then {#None#} else {#})"
    "\<forall>row \<in> set (build_suite_coverage active suites hit failures linked). row_exact active suites row"
proof -
  have ids: "cov_suite_id (coverage_row i path st cases hit failures linked) = i" for i path st cases
    by (simp add: coverage_row_def Let_def)
  have empty: "filter (\<lambda>c. tc_suite_id c = None) active = [] \<longleftrightarrow> \<not> (\<exists>c \<in> set active. tc_suite_id c = None)"
    by (simp add: filter_empty_conv)
  show "mset (map cov_suite_id (build_suite_coverage active suites hit failures linked)) =
      mset (map (\<lambda>s. Some (ts_id s)) suites) + (if \<exists>c \<in> set active. tc_suite_id c = None then {#None#} else {#})"
    unfolding build_suite_coverage_def Let_def mset_map mset_sort empty
    by (simp add: multiset.map_comp comp_def ids)
  show "\<forall>row \<in> set (build_suite_coverage active suites hit failures linked). row_exact active suites row"
    by (auto simp: build_suite_coverage_def Let_def row_exact_def coverage_row_def scoped_filter [OF assms] split: if_splits)
qed

lemma sum_list_sorted: "sum_list (map f (filter P (sort_key key xs))) = (sum_list (map f (filter P xs)) :: nat)"
  by (simp flip: sum_mset_sum_list add: mset_sort)

lemma top_rows_partition:
  assumes ids: "distinct (map ts_id suites)" and "acyclic (child_rel suites)"
    and closed: "\<forall>x \<in> set suites. \<forall>p. ts_parent_id x = Some p \<longrightarrow> p \<in> ts_id ` set suites"
    and cases: "\<forall>c \<in> set active. \<forall>i. tc_suite_id c = Some i \<longrightarrow> i \<in> ts_id ` set suites"
  shows "sum_list (map cov_active_cases (filter (top_row suites) (build_suite_coverage active suites hit failures linked))) = length active"
proof -
  define roots where "roots = filter (\<lambda>s. ts_parent_id s = None) suites"
  have top: "top_row suites (coverage_row (Some (ts_id s)) path st cs hit failures linked) \<longleftrightarrow> ts_parent_id s = None"
    if "s \<in> set suites" for s path st cs
    using that ids by (auto simp: top_row_def coverage_row_def Let_def distinct_map inj_on_def)
  have count: "cov_active_cases (coverage_row i path st cs hit failures linked) = length cs" for i path st cs
    by (simp add: coverage_row_def Let_def)
  have none: "top_row suites (coverage_row None path st cs hit failures linked)" for path st cs
    by (simp add: top_row_def coverage_row_def Let_def)
  let ?scope = "\<lambda>s c. \<exists>i \<in> suite_scope_ids (ts_id s) suites True. tc_suite_id c = Some i"
  have scope: "?scope s c \<longleftrightarrow> (\<exists>i. tc_suite_id c = Some i \<and> (i, ts_id s) \<in> (child_rel suites)\<^sup>*)" for s c
    by (auto simp: suite_scope_is_subtree)
  have roots: "sum_list (map (\<lambda>s. length (filter (?scope s) active)) roots) = length (filter (\<lambda>c. tc_suite_id c \<noteq> None) active)"
  proof (rule sum_unique_key)
    show "distinct roots" using ids by (simp add: roots_def distinct_map)
    show "\<exists>s \<in> set roots. ?scope s c" if c: "c \<in> set active" "tc_suite_id c \<noteq> None" for c
    proof -
      obtain i where i: "tc_suite_id c = Some i" using c(2) by auto
      obtain s where s: "s \<in> set suites" "ts_id s = i" using cases c(1) i by fastforce
      obtain r where "r \<in> set suites" "ts_parent_id r = None" "(ts_id s, ts_id r) \<in> (child_rel suites)\<^sup>*"
        using roots_exist [OF assms(2) s(1) closed] by auto
      then show ?thesis unfolding scope roots_def using i s(2) by (intro bexI [of _ r]) simp_all
    qed
    show "q = r" if "q \<in> set roots" "r \<in> set roots" "?scope q c" "?scope r c" for q r c
      using that roots_unique [OF ids] by (auto simp: roots_def scope)
  qed (auto simp: scope)
  have "sum_list (map cov_active_cases (filter (top_row suites) (build_suite_coverage active suites hit failures linked))) =
      sum_list (map (\<lambda>s. length (filter (?scope s) active)) roots) + length (filter (\<lambda>c. tc_suite_id c = None) active)"
    unfolding build_suite_coverage_def Let_def sum_list_sorted roots_def
    by (simp add: filter_map comp_def top none count scoped_filter [OF ids] cong: filter_cong)
  also have "\<dots> = length active"
    unfolding roots using sum_length_filter_compl [of "\<lambda>c. tc_suite_id c = None" active] by simp
  finally show ?thesis .
qed

section \<open>Reachable states\<close>

lemma listed: "repo_ok f items \<Longrightarrow> x \<in> set (repo_list items) \<longleftrightarrow> repo_get items (f x) = Some x"
  by (auto simp: repo_ok_def repo_list_def repo_get_def) (force dest: map_of_SomeD)

lemma distinct_listed: "repo_ok f items \<Longrightarrow> distinct (map f (filter P (repo_list items)))"
  by (rule distinct_map_filter) (simp add: repo_list_ids, simp add: repo_ok_def)

text \<open>C39: In every reachable state, a report has exactly one row per suite of the project, and one for the
  cases without a suite when there are any; the row of a suite counts the active cases whose suite
  lies in the scope that the snapshot service's fixpoint loop gives for it; and the rows of the
  suites without a parent, with the row of the unassigned cases, add up to the active cases of
  the project: no case is lost or counted twice.\<close>

theorem report_covers_suites:
  assumes "report project_id date_from date_to g zone generated_at (reached account rs instants ids) = (Inr r, t)"
  defines "pid \<equiv> qs_project_id (qr_summary r)" and "b \<equiv> biz (reached account rs instants ids)"
  defines "suites \<equiv> filter (\<lambda>s. ts_project_id s = pid) (repo_list (test_suites b))"
    and "active \<equiv> filter (\<lambda>c. tc_project_id c = pid \<and> tc_status c = CaseActive) (repo_list (test_cases b))"
  shows "mset (map cov_suite_id (qr_coverage_by_suite r)) =
      mset (map (\<lambda>s. Some (ts_id s)) suites) + (if \<exists>c \<in> set active. tc_suite_id c = None then {#None#} else {#}) \<and>
    (\<forall>row \<in> set (qr_coverage_by_suite r). row_exact active suites row) \<and>
    sum_list (map cov_active_cases (filter (top_row suites) (qr_coverage_by_suite r))) =
      tq_active_current (qs_test_cases (qr_summary r))"
proof -
  note ok = biz_okD(2,3) [OF reached_ok [of account rs instants ids], folded b_def]
  have inv: "acyclic (parent_rel (world_of b))" "\<forall>k x. repo_get (test_suites b) k = Some x \<longrightarrow> suite_of_project (world_of b) (ts_project_id x) (ts_parent_id x)"
    "\<forall>k x. repo_get (test_cases b) k = Some x \<longrightarrow> suite_of_project (world_of b) (tc_project_id x) (tc_suite_id x)"
    using reached_inv [of account rs instants ids] by (simp_all add: qa_inv_def inv_tree_def inv_cases_def b_def)
  have found: "k \<in> ts_id ` set suites" if k: "suite_of_project (world_of b) pid (Some k)" for k
  proof -
    obtain x where x: "repo_get (test_suites b) k = Some x" "ts_project_id x = pid"
      using k by (auto simp: suite_of_project_def)
    then have "ts_id x = k" using ok(1) by (auto simp: repo_ok_def repo_get_def dest: map_of_SomeD)
    then show ?thesis using x listed [OF ok(1), of x] by (auto simp: suites_def)
  qed
  have "child_rel suites \<subseteq> parent_rel (world_of b)"
    by (auto simp: child_rel_def parent_rel_def suites_def listed [OF ok(1)])
  then have acyclic: "acyclic (child_rel suites)" using inv(1) acyclic_subset by blast
  have ids: "distinct (map ts_id suites)" unfolding suites_def by (rule distinct_listed [OF ok(1)])
  have closed: "\<forall>x \<in> set suites. \<forall>p. ts_parent_id x = Some p \<longrightarrow> p \<in> ts_id ` set suites"
  proof (intro ballI allI impI)
    fix x p assume x: "x \<in> set suites" "ts_parent_id x = Some p"
    then have "repo_get (test_suites b) (ts_id x) = Some x" "ts_project_id x = pid"
      by (simp_all add: suites_def listed [OF ok(1)])
    then show "p \<in> ts_id ` set suites" using inv(2) x(2) by (intro found) fastforce
  qed
  have cases: "\<forall>c \<in> set active. \<forall>i. tc_suite_id c = Some i \<longrightarrow> i \<in> ts_id ` set suites"
  proof (intro ballI allI impI)
    fix c i assume c: "c \<in> set active" "tc_suite_id c = Some i"
    then have "repo_get (test_cases b) (tc_id c) = Some c" "tc_project_id c = pid"
      by (simp_all add: active_def listed [OF ok(2)])
    then show "i \<in> ts_id ` set suites" using inv(3) c(2) by (intro found) fastforce
  qed
  from report_returns [OF assms(1)] obtain pid' offset bounds now where
    r: "quality_report pid' date_from date_to g zone offset bounds now (repo_list (test_cases b)) (repo_list (test_suites b))
      (repo_list (executions b)) (repo_list (defects b)) (repo_list (audit_events (reached account rs instants ids))) = Inr r"
    unfolding b_def .
  then have pid: "pid' = pid" by (auto simp: quality_report_def Let_def bind_sum_Inr pid_def)
  obtain hit failures linked where rows: "qr_coverage_by_suite r = build_suite_coverage active suites hit failures linked"
    using r by (auto simp: quality_report_def Let_def bind_sum_Inr pid active_def suites_def)
  have "tq_active_current (qs_test_cases (qr_summary r)) = length active"
    using r by (auto simp: quality_report_def Let_def bind_sum_Inr pid active_def case_summary_def)
  then show ?thesis
    unfolding rows using coverage_rows [OF ids] top_rows_partition [OF ids acyclic closed cases] by simp
qed

section \<open>Reports at concrete inputs\<close>

definition demo_project :: Project where
  "demo_project = \<lparr>prj_id = 7, prj_key = ''QA'', prj_name = ''qa'', prj_description = [], prj_status = ProjectActive,
     prj_created_at = 0, prj_updated_at = 0\<rparr>"

definition demo_execution :: TestExecution where
  "demo_execution = \<lparr>ex_id = 8, ex_plan_id = 9, ex_project_id = 7, ex_status = ExecCompleted,
     ex_results = [\<lparr>cr_case_id = 10, cr_case_title = ''login'', cr_status = Passed, cr_actual_result = [], cr_comment = [], cr_executed_at = Some 5\<rparr>,
       \<lparr>cr_case_id = 11, cr_case_title = ''logout'', cr_status = Failed, cr_actual_result = [], cr_comment = [], cr_executed_at = Some 6\<rparr>],
     ex_created_at = 1, ex_updated_at = 7, ex_started_at = Some 2, ex_completed_at = Some 7\<rparr>"

definition demo_quality :: qa where
  "demo_quality = (initial_qa int word_of_nat)\<lparr>biz := empty_biz\<lparr>projects := [(7, demo_project)], executions := [(8, demo_execution)]\<rparr>\<rparr>"

lemma demo_report: "\<exists>r t. report (IdUuid 7) 0 6 WeekTrend ''Asia/Shanghai'' None demo_quality = (Inr r, t)"
  by (simp add: report_def run_simps lift_domain_def timezone_for_def period_bounds_def quality_report_def build_trends_def Let_def
    bind_sum_def localizable_def defect_times_def selected_executions_def reopened_audits_def demo_quality_def initial_qa_def empty_biz_def repo_get_def repo_list_def demo_project_def demo_execution_def
    max_period_days_def day_us_def minute_us_def dt_max_def dt_min_def)

definition demo_suite_requests :: "qa_request list" where
  "demo_suite_requests = [ProjectCreateR \<lparr>pc_key = ''qa'', pc_name = ''qa'', pc_description = []\<rparr>,
     SuiteCreateR \<lparr>sc_project_id = str_of_uuid 0, sc_parent_id = None, sc_name = ''smoke'', sc_description = [], sc_position = 0\<rparr>]"

lemma demo_texts [simp]:
  "py_strip ''test_suite'' = ''test_suite''" "py_lower ''test_suite'' = ''test_suite''" "py_strip ''local-user'' = ''local-user''"
  "py_strip ''create test suite'' = ''create test suite''"
  by code_simp+

lemmas demo_steps = demo_suite_requests_def initial_qa_def empty_biz_def project_create_def run_simps uuid4_def utc_now_def store_def
  repo_create_def repo_get_def repo_list_def ensure_unique_def suite_create_def suite_require_active_project_def require_active_project_def get_in_def
  validate_parent_def list_of_def ensure_unique_name_def parse_uuid_opt_def suite_audit_def audit_record_def normalize_entity_type_def Let_def bind_sum_def
  uuid_text_roundtrip uuid_text_nonempty get_current_actor_def

lemma demo_reached: "map fst (test_suites (biz (reached (\<lambda>_. True) demo_suite_requests int word_of_nat))) = [1]"
  by (simp add: demo_steps)

lemma demo_reached_report: "\<exists>r t. report (IdUuid 0) 0 6 DayTrend ''UTC'' None (reached (\<lambda>_. True) demo_suite_requests int word_of_nat) = (Inr r, t)"
  by (simp add: demo_steps report_def lift_domain_def timezone_for_def period_bounds_def quality_report_def build_trends_def localizable_def
    defect_times_def selected_executions_def reopened_audits_def is_reopen_event_def max_period_days_def day_us_def minute_us_def dt_max_def dt_min_def)

theorem report_trends_add_up_witness:
  "\<exists>r t. report (IdUuid 7) 0 6 WeekTrend ''Asia/Shanghai'' None demo_quality = (Inr r, t) \<and>
    total qt_passed r = eq_passed (qs_executions (qr_summary r)) \<and> total qt_failed r = eq_failed (qs_executions (qr_summary r))"
  using demo_report report_trends_add_up by blast

theorem report_rates_sound_witness:
  "\<exists>r t. report (IdUuid 7) 0 6 WeekTrend ''Asia/Shanghai'' None demo_quality = (Inr r, t) \<and> (\<forall>c \<in> set (rates_of r). rate_ok c)"
  using demo_report report_rates_sound by blast

theorem report_covers_suites_witness:
  "\<exists>r t. report (IdUuid 0) 0 6 DayTrend ''UTC'' None (reached (\<lambda>_. True) demo_suite_requests int word_of_nat) = (Inr r, t) \<and>
    sum_list (map cov_active_cases (filter (top_row (filter (\<lambda>s. ts_project_id s = qs_project_id (qr_summary r))
      (repo_list (test_suites (biz (reached (\<lambda>_. True) demo_suite_requests int word_of_nat)))))) (qr_coverage_by_suite r))) =
      tq_active_current (qs_test_cases (qr_summary r))"
  using demo_reached_report report_covers_suites by blast

end
