(* ===== verification/Spec2Isabelle.thy ===== *)
theory Spec2Isabelle
  imports Qa_Structure Task_Properties Device_Properties Overlap Pipeline_Outcome Quality_Coverage
begin

text \<open>
  A model of the backend of the QA platform (\<open>backend/app\<close>): its domain services, its
  automation core and its pipeline simulator.

  \<^bold>\<open>Shape of the model.\<close> A coroutine that runs under a service's lock is an atomic program
  \<^theory_text>\<open>('s, 'e, 'a) prog\<close> (\<open>Prelude\<close>): from a state it returns a value or raises, and it gives
  the state reached in both cases, because Python does not undo assignments. A dict is an
  association list in insertion order, a UUID a 128-bit word, an instant a number of
  microseconds, a text a list of characters. Clocks, identifier sources, tokens and entropy are
  sequences in the state; each call draws the next element.

  \<^bold>\<open>Domain services.\<close> \<open>Domain_Models\<close> has the entities of \<open>domain/\<close>, \<open>Repository\<close> the errors,
  the repository contract of \<open>repositories/base.py\<close> as a locale and the in-memory repository it
  is interpreted on, \<open>Qa_Store\<close> the shared state of the services with \<open>core/actor.py\<close>,
  \<open>services/common.py\<close> and \<open>services/audit.py\<close>. \<open>Projects\<close>, \<open>Test_Suites\<close>, \<open>Test_Cases\<close>,
  \<open>Test_Plans\<close>, \<open>Executions\<close>, \<open>Defects\<close>, \<open>Snapshots\<close> and \<open>Comments\<close> hold the operations of
  the services of these names. \<open>Qa_Spec\<close> is the abstract specification: a world of finite maps
  and a step relation with one rule per permitted change; each operation is proved to refine
  it (lemmas \<open>*_simulated\<close>). \<open>Qa_Invariants\<close> proves the invariants of the step relation,
  \<open>Qa_System\<close> carries them to request histories, \<open>Qa_Properties\<close> and \<open>Qa_Structure\<close> hold the
  properties.

  \<^bold>\<open>Automation.\<close> \<open>Automation_Models\<close> has the values of \<open>automation/models.py\<close> and the promises of the
  environment. \<open>Task_Queue\<close> has the operations of the in-memory task queue, \<open>Task_Lifecycle\<close> their
  invariants, \<open>Task_Properties\<close> the properties over histories; \<open>Devices\<close>, \<open>Device_Leases\<close> and
  \<open>Device_Properties\<close> do the same for the device manager. \<open>Cron\<close> parses cron expressions and
  searches fire times minute by minute, with the source's bound of 5 * 366 days on the search;
  \<open>Cron_Properties\<close> shows that the searches are exact and which expressions are refused.
  \<open>Scheduler\<close> has the scheduler over the port of \<open>automation/ports.py\<close>, \<open>Fire_Log\<close> what a tick
  records, \<open>Scheduler_Properties\<close> the histories, and \<open>Overlap\<close> the contract of the port (locale
  \<open>queue_port\<close>, interpreted on the task queue) and the overlap policies. The recursion that
  collects due occurrences is bounded by the source's own catch-up limit. \<open>Stepwise\<close> is the
  locale of programs that respect a preorder on states.

  \<^bold>\<open>Pipeline simulator.\<close> \<open>Pipeline_Models\<close> has \<open>pipeline/models.py\<close> and \<open>pipeline/errors.py\<close>,
  \<open>Pipeline_Persistence\<close> the port and both adapters of \<open>pipeline/persistence.py\<close> over three tables,
  \<open>Pipeline_Tree\<close> the transitions of one run with its stages and jobs, and \<open>Pipeline_Service\<close> the
  service of \<open>pipeline/service.py\<close>. Its background executor releases the lock between sections; it is
  kept as the point where it continues, and \<open>execute_step\<close> runs one section, so that histories
  interleave it with calls. \<open>Pipeline_Laws\<close> and \<open>Pipeline_Callbacks\<close> give the effect of each edit on the
  statuses of a run (\<open>view\<close>), \<open>Pipeline_Evolution\<close> the order in which runs move, \<open>Pipeline_Store\<close> the
  contract of the port (locale \<open>pipeline_store\<close>, interpreted on both adapters),
  \<open>Pipeline_Invariants\<close>, \<open>Pipeline_Operations\<close> and \<open>Pipeline_Histories\<close> the invariant of the service over
  any store that satisfies the contract and whose failing calls commit nothing (locale
  \<open>pipeline_host\<close>), and \<open>Pipeline_Properties\<close> the properties. \<open>Pipeline_Termination\<close> counts the
  sections an executor has to go (\<open>sections_left\<close>), which every section lowers; \<open>Pipeline_Outcome\<close>
  follows the statuses of an undisturbed in-memory run section by section to its end. Each transaction works, fails before or
  fails after its commit, as a parameter says.

  \<^bold>\<open>Quality reports.\<close> \<open>Quality\<close> has the read-only report of \<open>services/quality.py\<close> over the repositories of
  the domain services; \<open>Binary64\<close> the float arithmetic of its percentages. \<open>Quality_Properties\<close> shows that
  the trend adds up to the summary and that the rates stay in bounds, \<open>Quality_Coverage\<close> relates the
  rows per suite to the scopes of the snapshot service in the reachable states.

  \<^bold>\<open>Not modelled.\<close> HTTP routes, SQL repositories, storage, identity providers, brokers and the
  process entry points: they wrap services and libraries that are outside this repository. The
  CI laboratory and the runtime service consist of SQL statements over their own tables.
\<close>

end
